(* ===== verification/Prelude.thy ===== *)
theory Prelude
  imports Main "HOL-Library.Finite_Map" "HOL-Library.Word" "HOL-Library.List_Lexorder"
    "HOL-Library.Char_ord" "HOL-Library.Sublist"
begin

text \<open>
  Shared vocabulary of the development: machine-integer synonyms, saturating arithmetic, the
  result type of fallible operations, and the finite maps and finite sets that stand for Rust's
  \<open>HashMap\<close>, \<open>BTreeMap\<close>, \<open>HashSet\<close> and \<open>BTreeSet\<close>, with the lemmas the component theories
  simplify with.

  A \<open>HashMap\<close> or \<open>BTreeMap\<close> is an \<open>fmap\<close>: two maps are equal exactly when they have the same
  entries, as Rust's \<open>PartialEq\<close> on maps says. A loop over a \<open>HashMap\<close> visits the entries in an
  unspecified order; the model visits them in key order (\<open>hm_iter\<close>), and where a loop writes
  state the component theory proves that the order does not matter.
\<close>

section \<open>Machine integers\<close>

type_synonym u8 = "8 word"
type_synonym u32 = "32 word"
type_synonym u64 = "64 word"
type_synonym i64 = "64 word"
type_synonym bytes = "u8 list"

named_theorems look_simps \<open>what a lookup in an index returns after an update\<close>
named_theorems reads_intros \<open>composition rules for readers of the byte format\<close>

definition saturating_add :: "'a::len word \<Rightarrow> 'a word \<Rightarrow> 'a word" where
  "saturating_add a b = (if unat a + unat b < 2 ^ LENGTH('a) then a + b else - 1)"

definition saturating_sub :: "'a::len word \<Rightarrow> 'a word \<Rightarrow> 'a word" where
  "saturating_sub a b = (if b \<le> a then a - b else 0)"

lemma unat_minus_one_max: "unat (- 1 :: 'a::len word) = 2 ^ LENGTH('a) - 1"
  by (simp add: unsigned_minus_1_eq_mask mask_eq_exp_minus_1)

lemma unat_less_pow: "unat (x :: 'a::len word) < 2 ^ LENGTH('a)"
  by (rule unsigned_less)

lemma unat_saturating_add:
  "unat (saturating_add a b) = min (unat a + unat b) (2 ^ LENGTH('a) - 1)"
  for a b :: "'a::len word"
proof (cases "unat a + unat b < 2 ^ LENGTH('a)")
  case True
  then have "unat (a + b) = unat a + unat b"
    by (simp add: unat_word_ariths)
  with True show ?thesis by (simp add: saturating_add_def)
next
  case False
  then show ?thesis by (simp add: saturating_add_def unat_minus_one_max)
qed

lemma saturating_add_code [code]:
  "saturating_add a b = (let s = a + b in if s < a then - 1 else s)" for a b :: "'a::len word"
proof -
  have "(m + n) mod p < m \<longleftrightarrow> \<not> m + n < p" if "m < p" "n < p" for m n p :: nat
  proof (cases "m + n < p")
    case False
    then have "(m + n) mod p = m + n - p" using that by (simp add: mod_if)
    then show ?thesis using that False by linarith
  qed simp
  then have "a + b < a \<longleftrightarrow> \<not> unat a + unat b < 2 ^ LENGTH('a)"
    using unat_less_pow [of a] unat_less_pow [of b] by (simp add: word_less_nat_alt unat_word_ariths)
  then show ?thesis by (simp add: saturating_add_def Let_def)
qed

lemma saturating_add_ge: "a \<le> saturating_add a b"
proof -
  have "unat a \<le> 2 ^ LENGTH('a) - 1"
    using unat_less_pow [of a] by linarith
  then show ?thesis by (simp add: word_le_nat_alt unat_saturating_add)
qed

lemma saturating_add_one_gt: "a \<noteq> - 1 \<Longrightarrow> a < saturating_add a 1"
  for a :: "'a::len word"
proof -
  assume "a \<noteq> - 1"
  then have "unat a \<noteq> 2 ^ LENGTH('a) - 1"
    by (metis unat_minus_one_max word_unat_eq_iff)
  then have "unat a + 1 \<le> 2 ^ LENGTH('a) - 1"
    using unat_less_pow [of a] by linarith
  then show ?thesis
    by (simp add: word_less_nat_alt unat_saturating_add)
qed

lemma word_less_add_one: "x < x + 1" if "x \<noteq> - 1" for x :: "'a::len word"
proof -
  have "unat x \<noteq> 2 ^ LENGTH('a) - 1"
    using that by (metis unat_minus_one_max word_unat_eq_iff)
  then have "unat x + 1 < 2 ^ LENGTH('a)"
    using unat_less_pow [of x] by linarith
  then show ?thesis by (simp add: word_less_nat_alt unat_word_ariths)
qed

lemma saturating_add_one_cases: "x < saturating_add x 1 \<or> x = - 1"
  for x :: "'a::len word"
  by (metis saturating_add_one_gt)

lemma saturating_sub_le: "saturating_sub a b \<le> a"
  by (auto simp: saturating_sub_def word_sub_le)

lemma unat_saturating_sub: "unat (saturating_sub a b) = unat a - unat b"
  by (auto simp: saturating_sub_def unat_sub_if' word_le_nat_alt)

section \<open>Results\<close>

text \<open>\<open>Result<T, E>\<close> is the sum \<open>'e + 'a\<close>, the error on the left. \<open>rbind\<close> is the \<open>?\<close> operator.\<close>

fun rbind :: "'e + 'a \<Rightarrow> ('a \<Rightarrow> 'e + 'b) \<Rightarrow> 'e + 'b" where
  "rbind (Inl e) f = Inl e"
| "rbind (Inr x) f = f x"

lemma rbind_Inr_iff: "rbind r f = Inr y \<longleftrightarrow> (\<exists>x. r = Inr x \<and> f x = Inr y)"
  by (cases r) auto

lemma rbind_assoc: "rbind (rbind r f) g = rbind r (\<lambda>x. rbind (f x) g)"
  by (cases r) auto

text \<open>\<open>collect::<Result<Vec<_>, _>>()\<close>: the first error, or all the values.\<close>

fun collect_results :: "('e + 'a) list \<Rightarrow> 'e + 'a list" where
  "collect_results [] = Inr []"
| "collect_results (r # rs) = rbind r (\<lambda>x. rbind (collect_results rs) (\<lambda>xs. Inr (x # xs)))"

lemma collect_results_Inr: "collect_results (map (\<lambda>x. Inr (f x)) xs) = Inr (map f xs)"
  by (induction xs) auto

lemma collect_results_map_Inr:
  assumes "\<And>x. x \<in> set xs \<Longrightarrow> g x = Inr (f x)"
  shows "collect_results (map g xs) = Inr (map f xs)"
  using assms by (induction xs) auto

text \<open>
  Where the code can panic, the left side is a \<open>fault\<close>: an error it returns or a panic with its
  message. \<open>lift_err\<close> embeds a result of a callee that does not panic, and \<open>for_each\<close> is a loop whose
  body may return early.
\<close>

datatype 'e fault = Err 'e | Panic string

fun lift_err :: "'e + 'a \<Rightarrow> 'e fault + 'a" where
  "lift_err (Inl e) = Inl (Err e)"
| "lift_err (Inr x) = Inr x"

fun for_each :: "'b list \<Rightarrow> ('b \<Rightarrow> 's \<Rightarrow> 'e + 's) \<Rightarrow> 's \<Rightarrow> 'e + 's" where
  "for_each [] f s = Inr s"
| "for_each (x # xs) f s = rbind (f x s) (for_each xs f)"

lemma for_each_Inr:
  assumes "\<And>x s. x \<in> set xs \<Longrightarrow> f x s = Inr (g x s)"
  shows "for_each xs f s = Inr (fold g xs s)"
  using assms by (induction xs arbitrary: s) auto

section \<open>Maps and sets of the standard library\<close>

definition hm_iter :: "('k::linorder, 'v) fmap \<Rightarrow> ('k \<times> 'v) list" where
  "hm_iter m = sorted_list_of_fmap m"

lemma set_hm_iter: "set (hm_iter m) = {(k, v). fmlookup m k = Some v}"
proof -
  have "set (sorted_list_of_fset (fmdom m)) = fset (fmdom m)"
    by (simp add: sorted_list_of_fset.rep_eq)
  then show ?thesis
    by (force simp: hm_iter_def sorted_list_of_fmap_def fmlookup_dom_iff)
qed

lemma map_fst_hm_iter: "map fst (hm_iter m) = sorted_list_of_fset (fmdom m)"
  by (simp add: hm_iter_def sorted_list_of_fmap_def comp_def)

lemma distinct_hm_iter: "distinct (map fst (hm_iter m))"
  by (simp add: map_fst_hm_iter sorted_list_of_fset.rep_eq)

lemma sorted_hm_iter: "sorted (map fst (hm_iter m))"
  by (simp add: map_fst_hm_iter sorted_list_of_fset.rep_eq)

lemma map_of_hm_iter: "map_of (hm_iter m) = fmlookup m"
  by (simp add: hm_iter_def map_of_sorted_list)

lemma fmap_of_list_hm_iter: "fmap_of_list (hm_iter m) = m"
  by (rule fmap_ext) (simp add: fmlookup_of_list map_of_hm_iter)

lemma hm_iter_fmempty [simp]: "hm_iter fmempty = []"
  by (simp add: hm_iter_def sorted_list_of_fmap_def sorted_list_of_fset.rep_eq)

lemma hm_iter_fmmap: "hm_iter (fmmap f m) = map (\<lambda>(k, v). (k, f v)) (hm_iter m)"
proof -
  have "fmlookup m k \<noteq> None" if "k \<in> set (sorted_list_of_fset (fmdom m))" for k
    using that by (simp add: sorted_list_of_fset.rep_eq fmlookup_dom_iff)
  then show ?thesis
    by (auto simp: hm_iter_def sorted_list_of_fmap_def fmdom_map intro!: map_cong option.map_sel)
qed

text \<open>
  \<open>entry(k).or_default().insert(x)\<close>, \<open>get_mut(k)\<close> with a \<open>remove\<close>, and the same with a \<open>Vec\<close>:
  \<open>entry(k).or_default().push(x)\<close> and \<open>get_mut(k)\<close> with a \<open>retain\<close>.
\<close>

definition look :: "('k, 'a fset) fmap \<Rightarrow> 'k \<Rightarrow> 'a fset" where
  "look m k = (case fmlookup m k of None \<Rightarrow> {||} | Some s \<Rightarrow> s)"

definition entry_insert :: "'k \<Rightarrow> 'a \<Rightarrow> ('k, 'a fset) fmap \<Rightarrow> ('k, 'a fset) fmap" where
  "entry_insert k x m = fmupd k (finsert x (look m k)) m"

definition entry_remove :: "'k \<Rightarrow> 'a \<Rightarrow> ('k, 'a fset) fmap \<Rightarrow> ('k, 'a fset) fmap" where
  "entry_remove k x m =
     (case fmlookup m k of None \<Rightarrow> m | Some s \<Rightarrow> fmupd k (s |-| {|x|}) m)"

definition look_list :: "('k, 'a list) fmap \<Rightarrow> 'k \<Rightarrow> 'a list" where
  "look_list m k = (case fmlookup m k of None \<Rightarrow> [] | Some xs \<Rightarrow> xs)"

definition entry_push :: "'k \<Rightarrow> 'a \<Rightarrow> ('k, 'a list) fmap \<Rightarrow> ('k, 'a list) fmap" where
  "entry_push k x m = fmupd k (look_list m k @ [x]) m"

definition entry_retain :: "'k \<Rightarrow> 'a \<Rightarrow> ('k, 'a list) fmap \<Rightarrow> ('k, 'a list) fmap" where
  "entry_retain k x m =
     (case fmlookup m k of None \<Rightarrow> m | Some xs \<Rightarrow> fmupd k (filter (\<lambda>y. y \<noteq> x) xs) m)"

definition entry_default :: "'k \<Rightarrow> ('k, 'a list) fmap \<Rightarrow> ('k, 'a list) fmap" where
  "entry_default k m = (case fmlookup m k of None \<Rightarrow> fmupd k [] m | Some _ \<Rightarrow> m)"

lemma look_fmempty [simp]: "look fmempty k = {||}"
  by (simp add: look_def)

lemma look_entry_insert [simp, look_simps]:
  "look (entry_insert k x m) j = (if k = j then finsert x (look m j) else look m j)"
  by (simp add: look_def entry_insert_def)

lemma look_entry_remove [simp, look_simps]:
  "look (entry_remove k x m) j = (if k = j then look m j |-| {|x|} else look m j)"
  by (auto simp: look_def entry_remove_def split: option.splits)

lemma look_list_fmempty [simp]: "look_list fmempty k = []"
  by (simp add: look_list_def)

lemma look_list_entry_push [simp, look_simps]:
  "look_list (entry_push k x m) j = (if k = j then look_list m j @ [x] else look_list m j)"
  by (simp add: look_list_def entry_push_def)

lemma look_list_entry_retain [simp, look_simps]:
  "look_list (entry_retain k x m) j =
     (if k = j then filter (\<lambda>y. y \<noteq> x) (look_list m j) else look_list m j)"
  by (auto simp: look_list_def entry_retain_def split: option.splits)

lemma look_list_entry_default [simp, look_simps]: "look_list (entry_default k m) j = look_list m j"
  by (auto simp: look_list_def entry_default_def split: option.splits)

lemma look_list_fmdrop [simp, look_simps]:
  "look_list (fmdrop k m) j = (if k = j then [] else look_list m j)"
  by (auto simp: look_list_def)

lemma fmdom_entry_retain [simp]: "fmdom (entry_retain k x m) = fmdom m"
proof (cases "fmlookup m k")
  case None
  then show ?thesis by (simp add: entry_retain_def)
next
  case (Some xs)
  then have "k |\<in>| fmdom m" by (rule fmdomI)
  with Some show ?thesis by (simp add: entry_retain_def finsert_absorb)
qed

lemma fmdom_entry_default [simp]: "fmdom (entry_default k m) = finsert k (fmdom m)"
proof (cases "fmlookup m k")
  case None
  then show ?thesis by (simp add: entry_default_def)
next
  case (Some xs)
  then have "k |\<in>| fmdom m" by (rule fmdomI)
  with Some show ?thesis by (simp add: entry_default_def finsert_absorb)
qed

text \<open>The same insertion or removal at every key of a list. Only the set of keys matters.\<close>

definition insert_all :: "'k list \<Rightarrow> 'a \<Rightarrow> ('k, 'a fset) fmap \<Rightarrow> ('k, 'a fset) fmap" where
  "insert_all ks x m = fold (\<lambda>k. entry_insert k x) ks m"

definition remove_all :: "'k list \<Rightarrow> 'a \<Rightarrow> ('k, 'a fset) fmap \<Rightarrow> ('k, 'a fset) fmap" where
  "remove_all ks x m = fold (\<lambda>k. entry_remove k x) ks m"

lemma fmlookup_insert_all:
  "fmlookup (insert_all ks x m) k =
     (if k \<in> set ks then Some (finsert x (look m k)) else fmlookup m k)"
  unfolding insert_all_def
  by (induction ks arbitrary: m) (auto simp: entry_insert_def look_def)

lemma fmlookup_remove_all:
  "fmlookup (remove_all ks x m) k =
     (if k \<in> set ks then map_option (\<lambda>s. s |-| {|x|}) (fmlookup m k) else fmlookup m k)"
  unfolding remove_all_def
  by (induction ks arbitrary: m)
     (auto simp: entry_remove_def option.map_comp comp_def split: option.splits)

lemma look_insert_all [look_simps]:
  "look (insert_all ks x m) k = (if k \<in> set ks then finsert x (look m k) else look m k)"
  by (simp add: look_def fmlookup_insert_all)

lemma look_remove_all [look_simps]:
  "look (remove_all ks x m) k = (if k \<in> set ks then look m k |-| {|x|} else look m k)"
  by (simp add: look_def fmlookup_remove_all split: option.splits)

lemma insert_all_cong: "set ks = set ls \<Longrightarrow> insert_all ks x m = insert_all ls x m"
  by (rule fmap_ext) (simp add: fmlookup_insert_all)

lemma remove_all_cong: "set ks = set ls \<Longrightarrow> remove_all ks x m = remove_all ls x m"
  by (rule fmap_ext) (simp add: fmlookup_remove_all)

lemma filter_neq_id: "x \<notin> set xs \<Longrightarrow> filter (\<lambda>y. y \<noteq> x) xs = xs"
  by (induction xs) auto

section \<open>Sorting and removal of duplicates\<close>

text \<open>\<open>sort_unstable\<close> on integers is \<open>sort\<close>; \<open>dedup\<close> removes consecutive repetitions.\<close>

abbreviation dedup :: "'a list \<Rightarrow> 'a list" where
  "dedup \<equiv> remdups_adj"

lemma set_sort_dedup [simp]: "set (dedup (sort xs)) = set xs"
  by simp

lemma distinct_dedup_sorted: "sorted xs \<Longrightarrow> distinct (dedup xs)"
  by (induction xs rule: remdups_adj.induct) (auto simp: order.strict_iff_order)

lemma distinct_sort_dedup [simp]: "distinct (dedup (sort xs))"
  by (simp add: distinct_dedup_sorted)

end
