(* ===== verification/Core_Model.thy ===== *)
theory Core_Model
  imports Prelude
begin

text \<open>
  The data types of crate \<open>neo4r-core\<close>: property values and their hashable keys (\<open>model.rs\<close>),
  nodes and relationships, the routing and log types of \<open>shard.rs\<close>, the timestamps of
  \<open>clock.rs\<close>, the replicated commands (\<open>command.rs\<close>) and the graph errors (\<open>error.rs\<close>).

  Identifiers are \<open>u64\<close> words. An \<open>i64\<close> is its two's complement word, an \<open>f64\<close> or \<open>f32\<close> its IEEE
  bit pattern (\<open>to_bits\<close> and \<open>from_bits\<close> are then identities). A Rust \<open>String\<close> is the list of its
  UTF-8 bytes as characters, so \<open><\<close> on strings is Rust's byte order.
\<close>

section \<open>Values\<close>

type_synonym node_id = u64
type_synonym relationship_id = u64
type_synonym shard_id = u64
type_synonym log_index = u64
type_synonym server_id = u64
type_synonym config_version = u64

datatype val =
    V_Null
  | V_Bool bool
  | V_Int i64
  | V_Float u64
  | V_String string
  | V_Vector "u32 list"
  | V_Map "(string, val) fmap"

type_synonym properties = "(string, val) fmap"

datatype val_key =
    K_Null
  | K_Bool bool
  | K_Int i64
  | K_Float u64
  | K_String string
  | K_Vector "u32 list"
  | K_Map "(string \<times> val_key) list"

primrec value_key :: "val \<Rightarrow> val_key" where
  "value_key V_Null = K_Null"
| "value_key (V_Bool b) = K_Bool b"
| "value_key (V_Int i) = K_Int i"
| "value_key (V_Float x) = K_Float x"
| "value_key (V_String s) = K_String s"
| "value_key (V_Vector xs) = K_Vector (map (\<lambda>item. item) xs)"
| "value_key (V_Map m) = K_Map (hm_iter (fmmap value_key m))"

section \<open>Nodes, relationships, boundary nodes\<close>

record node =
  node_id :: node_id
  node_labels :: "string list"
  node_properties :: properties

record relationship =
  rel_id :: relationship_id
  rel_from :: node_id
  rel_to :: node_id
  rel_type :: string
  rel_properties :: properties

record boundary_node =
  bn_id :: node_id
  bn_owner_shard :: shard_id
  bn_labels :: "string list"
  bn_properties :: properties
  bn_version :: u64

definition new_node :: "node_id \<Rightarrow> string list \<Rightarrow> properties \<Rightarrow> node" where
  "new_node nid labels props =
     \<lparr>node_id = nid, node_labels = labels, node_properties = props\<rparr>"

definition new_relationship ::
  "relationship_id \<Rightarrow> node_id \<Rightarrow> node_id \<Rightarrow> string \<Rightarrow> properties \<Rightarrow> relationship" where
  "new_relationship rid from to ty props =
     \<lparr>rel_id = rid, rel_from = from, rel_to = to, rel_type = ty, rel_properties = props\<rparr>"

definition new_boundary_node ::
  "node_id \<Rightarrow> shard_id \<Rightarrow> string list \<Rightarrow> properties \<Rightarrow> u64 \<Rightarrow> boundary_node" where
  "new_boundary_node nid owner labels props version =
     \<lparr>bn_id = nid, bn_owner_shard = owner, bn_labels = labels, bn_properties = props,
      bn_version = version\<rparr>"

section \<open>Routing tables\<close>

datatype shard_role = Primary | Replica

record shard_replica =
  replica_server_id :: server_id
  replica_role :: shard_role

record shard_placement =
  placement_shard_id :: shard_id
  placement_replicas :: "shard_replica list"

record shard_routing_table =
  table_version :: config_version
  table_placements :: "shard_placement list"

section \<open>Commands and log entries\<close>

datatype command =
    CreateNode node_id "string list" properties
  | CreateRelationship relationship_id node_id node_id string properties
  | UpsertBoundaryNode node_id shard_id "string list" properties u64
  | SetNodeProperty node_id string val
  | RemoveNodeProperty node_id string
  | AddNodeLabel node_id string
  | RemoveNodeLabel node_id string
  | SetRelationshipProperty relationship_id string val
  | RemoveRelationshipProperty relationship_id string
  | DeleteRelationship relationship_id
  | DeleteNode node_id
  | ClusterConfigChange string string "server_id list" shard_routing_table

record hybrid_timestamp =
  physical_ms :: u64
  logical :: u32

definition timestamp_zero :: hybrid_timestamp where
  "timestamp_zero = \<lparr>physical_ms = 0, logical = 0\<rparr>"

record log_entry =
  entry_shard_id :: shard_id
  entry_term :: u64
  entry_index :: log_index
  entry_origin_server_id :: server_id
  entry_config_version :: config_version
  entry_timestamp :: hybrid_timestamp
  entry_command :: command

definition new_with_metadata ::
  "shard_id \<Rightarrow> u64 \<Rightarrow> log_index \<Rightarrow> server_id \<Rightarrow> config_version \<Rightarrow> hybrid_timestamp \<Rightarrow> command
     \<Rightarrow> log_entry" where
  "new_with_metadata shard trm index origin version timestamp cmd =
     \<lparr>entry_shard_id = shard, entry_term = trm, entry_index = index,
      entry_origin_server_id = origin, entry_config_version = version,
      entry_timestamp = timestamp, entry_command = cmd\<rparr>"

definition new_with_timestamp ::
  "shard_id \<Rightarrow> u64 \<Rightarrow> log_index \<Rightarrow> hybrid_timestamp \<Rightarrow> command \<Rightarrow> log_entry" where
  "new_with_timestamp shard trm index timestamp cmd =
     new_with_metadata shard trm index 0 0 timestamp cmd"

definition new_log_entry :: "shard_id \<Rightarrow> u64 \<Rightarrow> log_index \<Rightarrow> command \<Rightarrow> log_entry" where
  "new_log_entry shard trm index cmd = new_with_timestamp shard trm index timestamp_zero cmd"

section \<open>Graph errors\<close>

datatype graph_error =
    NodeAlreadyExists node_id
  | NodeNotFound node_id
  | RelationshipAlreadyExists relationship_id
  | RelationshipNotFound relationship_id
  | RelationshipEndpointNotFound relationship_id node_id

section \<open>Distinct values have distinct keys\<close>

lemma value_key_inject: "value_key v = value_key w \<Longrightarrow> v = w"
proof (induction v arbitrary: w)
  case (V_Map m)
  then obtain m' where w: "w = V_Map m'"
    and it: "hm_iter (fmmap value_key m) = hm_iter (fmmap value_key m')"
    by (cases w) auto
  then have eq: "fmmap value_key m = fmmap value_key m'"
    by (metis fmap_of_list_hm_iter)
  have "m = m'"
  proof (rule fmap_ext)
    fix k
    have lk: "map_option value_key (fmlookup m k) = map_option value_key (fmlookup m' k)"
      using eq by (metis fmlookup_map)
    show "fmlookup m k = fmlookup m' k"
    proof (cases "fmlookup m k")
      case None
      with lk show ?thesis by simp
    next
      case (Some x)
      with lk obtain y where y: "fmlookup m' k = Some y" "value_key x = value_key y"
        by (cases "fmlookup m' k") auto
      have "x \<in> fmran' m" using Some by (rule fmran'I)
      then have "x = y" using y(2) by (rule V_Map.IH)
      with Some y(1) show ?thesis by simp
    qed
  qed
  with w show ?case by simp
next
  case (V_Vector xs) then show ?case by (cases w) auto
next
  case (V_Null) then show ?case by (cases w) auto
next
  case (V_Bool x) then show ?case by (cases w) auto
next
  case (V_Int x) then show ?case by (cases w) auto
next
  case (V_Float x) then show ?case by (cases w) auto
next
  case (V_String x) then show ?case by (cases w) auto
qed

lemma value_key_eq_iff [simp]: "value_key v = value_key w \<longleftrightarrow> v = w"
  by (auto dest: value_key_inject)

end
