(* ===== verification/Clock.thy ===== *)
theory Clock
  imports Core_Model
begin

text \<open>
  The hybrid logical clock of \<open>neo4r-core/src/clock.rs\<close>. The physical time that
  \<open>current_physical_ms\<close> reads is an argument. Timestamps are compared as the derived \<open>Ord\<close> does,
  first the physical part, then the logical one.
\<close>

section \<open>The clock\<close>

definition ts_less :: "hybrid_timestamp \<Rightarrow> hybrid_timestamp \<Rightarrow> bool" where
  "ts_less a b \<longleftrightarrow>
     physical_ms a < physical_ms b \<or> physical_ms a = physical_ms b \<and> logical a < logical b"

record hybrid_clock =
  clock_last :: hybrid_timestamp

definition new_clock :: hybrid_clock where
  "new_clock = \<lparr>clock_last = timestamp_zero\<rparr>"

definition tick :: "u64 \<Rightarrow> hybrid_clock \<Rightarrow> hybrid_timestamp \<times> hybrid_clock" where
  "tick now c =
     (let c' = (if physical_ms (clock_last c) < now
                then c\<lparr>clock_last := \<lparr>physical_ms = now, logical = 0\<rparr>\<rparr>
                else c\<lparr>clock_last := (clock_last c)
                         \<lparr>logical := saturating_add (logical (clock_last c)) 1\<rparr>\<rparr>)
      in (clock_last c', c'))"

definition observe ::
  "u64 \<Rightarrow> hybrid_timestamp \<Rightarrow> hybrid_clock \<Rightarrow> hybrid_timestamp \<times> hybrid_clock" where
  "observe now remote c =
     (let lst = clock_last c;
          max_physical = max (max now (physical_ms lst)) (physical_ms remote);
          lgc = (if max_physical = physical_ms lst \<and> max_physical = physical_ms remote
                 then saturating_add (max (logical lst) (logical remote)) 1
                 else if max_physical = physical_ms lst
                 then saturating_add (logical lst) 1
                 else if max_physical = physical_ms remote
                 then saturating_add (logical remote) 1
                 else 0);
          t = \<lparr>physical_ms = max_physical, logical = lgc\<rparr>
      in (t, c\<lparr>clock_last := t\<rparr>))"

text \<open>A run of the clock: local ticks and observed remote timestamps, each with the time read.\<close>

datatype clock_event = Tick u64 | Observe u64 hybrid_timestamp

fun clock_step :: "clock_event \<Rightarrow> hybrid_clock \<Rightarrow> hybrid_timestamp \<times> hybrid_clock" where
  "clock_step (Tick now) c = tick now c"
| "clock_step (Observe now remote) c = observe now remote c"

fun clock_run :: "clock_event list \<Rightarrow> hybrid_clock \<Rightarrow> hybrid_timestamp list \<times> hybrid_clock" where
  "clock_run [] c = ([], c)"
| "clock_run (e # es) c =
     (let (t, c') = clock_step e c; (ts, c'') = clock_run es c' in (t # ts, c''))"

section \<open>Lemmas\<close>

lemma ts_less_trans: "ts_less a b \<Longrightarrow> ts_less b c \<Longrightarrow> ts_less a c"
  by (auto simp: ts_less_def)

lemma ts_less_irrefl: "\<not> ts_less a a"
  by (simp add: ts_less_def)

text \<open>
  What a timestamp issued after another one looks like: it is later, or both are the same timestamp with the
  logical counter at \<open>u32::MAX\<close>, where \<open>saturating_add\<close> stops.
\<close>

definition ts_follows :: "hybrid_timestamp \<Rightarrow> hybrid_timestamp \<Rightarrow> bool" where
  "ts_follows a b \<longleftrightarrow> ts_less a b \<or> a = b \<and> logical b = - 1"

lemma ts_follows_trans: "ts_follows a b \<Longrightarrow> ts_follows b c \<Longrightarrow> ts_follows a c"
  by (auto simp: ts_follows_def intro: ts_less_trans)

lemma ts_follows_strict: "ts_follows a b \<Longrightarrow> logical b \<noteq> - 1 \<Longrightarrow> ts_less a b"
  by (simp add: ts_follows_def)

lemma ts_follows_sorted: "sorted_wrt ts_follows xs \<Longrightarrow> \<forall>t \<in> set (tl xs). logical t \<noteq> - 1 \<Longrightarrow> sorted_wrt ts_less xs"
proof (induction xs)
  case (Cons x xs)
  then show ?case by (cases xs) (auto intro: ts_follows_strict)
qed simp

lemma ts_followsI:
  assumes "physical_ms a < physical_ms b \<or> physical_ms a = physical_ms b \<and> saturating_add (logical a) 1 \<le> logical b"
  shows "ts_follows a b"
proof (cases "logical a = - 1")
  case True
  then have "logical b = - 1" if "saturating_add (logical a) 1 \<le> logical b"
    using that saturating_add_ge [of "logical a" 1] by (metis order_trans word_order.extremum_unique)
  then show ?thesis using assms True by (auto simp: ts_follows_def ts_less_def intro: hybrid_timestamp.equality)
next
  case False
  then have "logical a < saturating_add (logical a) 1" by (rule saturating_add_one_gt)
  then show ?thesis using assms by (auto simp: ts_follows_def ts_less_def)
qed

lemma tick_follows:
  assumes "tick now c = (t, c')"
  shows "clock_last c' = t" and "ts_follows (clock_last c) t"
  using assms by (auto simp: tick_def Let_def not_less intro!: ts_followsI split: if_splits)

lemma saturating_suc_mono: "x \<le> y \<Longrightarrow> saturating_add x 1 \<le> saturating_add y (1 :: u32)"
  by (simp add: word_le_nat_alt unat_saturating_add)

lemma observe_follows:
  assumes "observe now remote c = (t, c')"
  shows "clock_last c' = t" and "ts_follows (clock_last c) t" and "ts_follows remote t"
proof -
  let ?l = "clock_last c"
  let ?m = "max (max now (physical_ms ?l)) (physical_ms remote)"
  have pm: "physical_ms t = ?m" using assms by (auto simp: observe_def Let_def)
  have le: "saturating_add (logical ?l) 1 \<le> saturating_add (max (logical ?l) (logical remote)) 1"
      "saturating_add (logical remote) 1 \<le> saturating_add (max (logical ?l) (logical remote)) 1"
    by (rule saturating_suc_mono, simp)+
  show "clock_last c' = t" using assms by (auto simp: observe_def Let_def)
  have "saturating_add (logical ?l) 1 \<le> logical t" if "?m = physical_ms ?l"
    using assms that le(1) by (auto simp: observe_def Let_def split: if_splits)
  then show "ts_follows ?l t" using pm by (intro ts_followsI) (auto simp: max_def split: if_splits)
  have "saturating_add (logical remote) 1 \<le> logical t" if "?m = physical_ms remote"
    using assms that le(2) by (auto simp: observe_def Let_def split: if_splits)
  then show "ts_follows remote t" using pm by (intro ts_followsI) (auto simp: max_def split: if_splits)
qed

lemma clock_step_follows:
  assumes "clock_step e c = (t, c')"
  shows "clock_last c' = t \<and> ts_follows (clock_last c) t"
  using assms by (cases e) (auto dest: tick_follows observe_follows)

lemma clock_run_follows:
  assumes "clock_run es c = (ts, c')"
  shows "sorted_wrt ts_follows (clock_last c # ts)"
    and "(Observe now remote, t) \<in> set (zip es ts) \<Longrightarrow> ts_follows remote t"
proof -
  have "sorted_wrt ts_follows (clock_last c # ts) \<and>
      (\<forall>now remote t. (Observe now remote, t) \<in> set (zip es ts) \<longrightarrow> ts_follows remote t)"
    using assms
  proof (induction es arbitrary: c ts c')
    case (Cons e es)
    obtain t c1 where s: "clock_step e c = (t, c1)" by fastforce
    obtain us c2 where r: "clock_run es c1 = (us, c2)" by fastforce
    have ts: "ts = t # us" using Cons.prems s r by simp
    have t: "clock_last c1 = t" "ts_follows (clock_last c) t" using clock_step_follows [OF s] by simp_all
    have "ts_follows remote t" if "e = Observe now remote" for now remote
      using s that observe_follows(3) by simp
    then show ?case using Cons.IH [OF r] t ts by (auto intro: ts_follows_trans)
  qed simp
  then show "sorted_wrt ts_follows (clock_last c # ts)"
    and "(Observe now remote, t) \<in> set (zip es ts) \<Longrightarrow> ts_follows remote t" by blast+
qed

section \<open>Issued timestamps\<close>

text \<open>
  C27. Along any run of ticks and observations, whatever the wall clock reads, the clock never goes back: every
  issued timestamp is later than the starting value, than all timestamps issued before it and, for an observation,
  than the remote timestamp. The one exception is a logical counter at \<open>u32::MAX\<close>: there, and only there, a
  timestamp is issued again, so that a run in which no issued counter is \<open>u32::MAX\<close> is strictly increasing.
\<close>

theorem clock_run_increasing:
  assumes "clock_run es c = (ts, c')"
  shows "sorted_wrt (\<lambda>a b. ts_less a b \<or> a = b \<and> logical b = - 1) (clock_last c # ts) \<and>
    (\<forall>now remote t. (Observe now remote, t) \<in> set (zip es ts) \<longrightarrow> ts_less remote t \<or> remote = t \<and> logical t = - 1) \<and>
    ((\<forall>t \<in> set ts. logical t \<noteq> - 1) \<longrightarrow> sorted_wrt ts_less (clock_last c # ts))"
proof -
  note r = clock_run_follows [OF assms]
  have "sorted_wrt ts_less (clock_last c # ts)" if "\<forall>t \<in> set ts. logical t \<noteq> - 1"
    using ts_follows_sorted [OF r(1)] that by simp
  then show ?thesis using r unfolding ts_follows_def [abs_def] by blast
qed

definition clock_sample :: "clock_event list" where
  "clock_sample = [Tick 5, Tick 4, Observe 6 \<lparr>physical_ms = 9, logical = - 2\<rparr>, Tick 7, Tick 10]"

theorem clock_run_increasing_witness:
  "fst (clock_run clock_sample new_clock) =
     [\<lparr>physical_ms = 5, logical = 0\<rparr>, \<lparr>physical_ms = 5, logical = 1\<rparr>, \<lparr>physical_ms = 9, logical = - 1\<rparr>,
      \<lparr>physical_ms = 9, logical = - 1\<rparr>, \<lparr>physical_ms = 10, logical = 0\<rparr>] \<and>
   sorted_wrt (\<lambda>a b. ts_less a b \<or> a = b \<and> logical b = - 1)
     (clock_last new_clock # fst (clock_run clock_sample new_clock)) \<and>
   sorted_wrt ts_less (clock_last new_clock # fst (clock_run (take 2 clock_sample) new_clock))"
proof (intro conjI)
  show "fst (clock_run clock_sample new_clock) =
     [\<lparr>physical_ms = 5, logical = 0\<rparr>, \<lparr>physical_ms = 5, logical = 1\<rparr>, \<lparr>physical_ms = 9, logical = - 1\<rparr>,
      \<lparr>physical_ms = 9, logical = - 1\<rparr>, \<lparr>physical_ms = 10, logical = 0\<rparr>]" by code_simp
  have "\<forall>t \<in> set (fst (clock_run (take 2 clock_sample) new_clock)). logical t \<noteq> - 1" by code_simp
  then show "sorted_wrt (\<lambda>a b. ts_less a b \<or> a = b \<and> logical b = - 1)
      (clock_last new_clock # fst (clock_run clock_sample new_clock))"
    and "sorted_wrt ts_less (clock_last new_clock # fst (clock_run (take 2 clock_sample) new_clock))"
    using clock_run_increasing [where c = new_clock, OF prod.collapse [symmetric]] by blast+
qed

end
