(* ===== verification/Shard.thy ===== *)
theory Shard
  imports Core_Model
begin

text \<open>
  Shard ownership and routing tables, \<open>neo4r-core/src/shard.rs\<close>: the modulo placement of nodes
  (\<open>ShardMap\<close>), look-ups in a \<open>ShardRoutingTable\<close>, and the difference between two tables that
  drives rebalancing.
\<close>

section \<open>Ownership\<close>

record shard_map =
  shard_count :: u64

definition new_shard_map :: "u64 \<Rightarrow> shard_map option" where
  "new_shard_map n = (if n = 0 then None else Some \<lparr>shard_count = n\<rparr>)"

definition owner_of_node :: "shard_map \<Rightarrow> node_id \<Rightarrow> shard_id" where
  "owner_of_node m nid = nid mod shard_count m"

definition owner_of_relationship :: "shard_map \<Rightarrow> node_id \<Rightarrow> node_id \<Rightarrow> string \<Rightarrow> shard_id" where
  "owner_of_relationship m from to ty = owner_of_node m from"

section \<open>Routing tables\<close>

definition primary_replica :: "server_id \<Rightarrow> shard_replica" where
  "primary_replica srv = \<lparr>replica_server_id = srv, replica_role = Primary\<rparr>"

definition replica_replica :: "server_id \<Rightarrow> shard_replica" where
  "replica_replica srv = \<lparr>replica_server_id = srv, replica_role = Replica\<rparr>"

definition placement_primary_server_id :: "shard_placement \<Rightarrow> server_id option" where
  "placement_primary_server_id p =
     map_option replica_server_id (find (\<lambda>r. replica_role r = Primary) (placement_replicas p))"

definition has_server :: "shard_placement \<Rightarrow> server_id \<Rightarrow> bool" where
  "has_server p srv \<longleftrightarrow> list_ex (\<lambda>r. replica_server_id r = srv) (placement_replicas p)"

definition single_server :: "u64 \<Rightarrow> server_id \<Rightarrow> shard_routing_table" where
  "single_server n srv =
     \<lparr>table_version = 1,
      table_placements =
        map (\<lambda>i. \<lparr>placement_shard_id = of_nat i, placement_replicas = [primary_replica srv]\<rparr>)
            [0..<unat n]\<rparr>"

definition placement :: "shard_routing_table \<Rightarrow> shard_id \<Rightarrow> shard_placement option" where
  "placement t s = find (\<lambda>p. placement_shard_id p = s) (table_placements t)"

definition primary_server_id :: "shard_routing_table \<Rightarrow> shard_id \<Rightarrow> server_id option" where
  "primary_server_id t s = Option.bind (placement t s) placement_primary_server_id"

definition has_local_copy :: "shard_routing_table \<Rightarrow> shard_id \<Rightarrow> server_id \<Rightarrow> bool" where
  "has_local_copy t s srv =
     (case placement t s of None \<Rightarrow> False | Some p \<Rightarrow> has_server p srv)"

section \<open>Routing differences\<close>

record shard_primary_move =
  move_shard_id :: shard_id
  move_from :: "server_id option"
  move_to :: "server_id option"

record shard_routing_diff =
  diff_from_version :: config_version
  diff_to_version :: config_version
  diff_primary_moves :: "shard_primary_move list"
  diff_added_replicas :: "(shard_id \<times> server_id) list"
  diff_removed_replicas :: "(shard_id \<times> server_id) list"

text \<open>One turn of the loop over \<open>next.placements\<close>.\<close>

definition diff_step ::
  "shard_routing_table \<Rightarrow> shard_placement \<Rightarrow> shard_routing_diff \<Rightarrow> shard_routing_diff" where
  "diff_step t np d =
     (case placement t (placement_shard_id np) of
        None \<Rightarrow>
          d\<lparr>diff_added_replicas := diff_added_replicas d @
              map (\<lambda>r. (placement_shard_id np, replica_server_id r)) (placement_replicas np)\<rparr>
      | Some cur \<Rightarrow>
          let current_primary = placement_primary_server_id cur;
              next_primary = placement_primary_server_id np
          in d\<lparr>diff_primary_moves := diff_primary_moves d @
                 (if current_primary \<noteq> next_primary
                  then [\<lparr>move_shard_id = placement_shard_id np, move_from = current_primary,
                         move_to = next_primary\<rparr>]
                  else []),
               diff_added_replicas := diff_added_replicas d @
                 map (\<lambda>r. (placement_shard_id np, replica_server_id r))
                     (filter (\<lambda>r. \<not> has_server cur (replica_server_id r)) (placement_replicas np)),
               diff_removed_replicas := diff_removed_replicas d @
                 map (\<lambda>r. (placement_shard_id cur, replica_server_id r))
                     (filter (\<lambda>r. \<not> has_server np (replica_server_id r)) (placement_replicas cur))\<rparr>)"

definition diff :: "shard_routing_table \<Rightarrow> shard_routing_table \<Rightarrow> shard_routing_diff" where
  "diff t nxt =
     fold (diff_step t) (table_placements nxt)
       \<lparr>diff_from_version = table_version t, diff_to_version = table_version nxt,
        diff_primary_moves = [], diff_added_replicas = [], diff_removed_replicas = []\<rparr>"

section \<open>Lemmas\<close>

lemma has_server_iff: "has_server p srv \<longleftrightarrow> srv \<in> replica_server_id ` set (placement_replicas p)"
  by (auto simp: has_server_def list_ex_iff)

lemma placement_shard_id: "placement t s = Some p \<Longrightarrow> placement_shard_id p = s"
  by (auto simp: placement_def find_Some_iff)

lemma placement_in: "placement t s = Some p \<Longrightarrow> p \<in> set (table_placements t)"
  by (auto simp: placement_def find_Some_iff)

lemma placement_of_member:
  assumes "distinct (map placement_shard_id (table_placements t))" and "p \<in> set (table_placements t)"
  shows "placement t (placement_shard_id p) = Some p"
proof -
  have "placement t (placement_shard_id p) \<noteq> None"
    using assms(2) by (auto simp: placement_def find_None_iff)
  then obtain q where q: "placement t (placement_shard_id p) = Some q" by blast
  have "inj_on placement_shard_id (set (table_placements t))"
    using assms(1) by (simp add: distinct_map)
  then have "q = p"
    using placement_shard_id [OF q] placement_in [OF q] assms(2) by (rule inj_onD)
  with q show ?thesis by simp
qed

lemma diff_step_added:
  "set (diff_added_replicas (diff_step t np d)) = set (diff_added_replicas d) \<union>
     Pair (placement_shard_id np) ` {v. has_server np v
        \<and> \<not> has_local_copy t (placement_shard_id np) v}"
proof (cases "placement t (placement_shard_id np)")
  case None
  then show ?thesis by (auto simp: diff_step_def has_local_copy_def has_server_iff)
next
  case (Some cur)
  then show ?thesis by (auto simp: diff_step_def has_local_copy_def has_server_iff Let_def)
qed

lemma diff_step_removed:
  "set (diff_removed_replicas (diff_step t np d)) = set (diff_removed_replicas d) \<union>
     Pair (placement_shard_id np) ` {v. \<not> has_server np v
        \<and> has_local_copy t (placement_shard_id np) v}"
proof (cases "placement t (placement_shard_id np)")
  case None
  then show ?thesis by (auto simp: diff_step_def has_local_copy_def has_server_iff)
next
  case (Some cur)
  have "placement_shard_id cur = placement_shard_id np"
    using Some by (rule placement_shard_id)
  with Some show ?thesis
    by (auto simp: diff_step_def has_local_copy_def has_server_iff Let_def)
qed

lemma fold_diff_added:
  "set (diff_added_replicas (fold (diff_step t) ps d)) = set (diff_added_replicas d) \<union>
     (\<Union>p\<in>set ps. Pair (placement_shard_id p) ` {v. has_server p v
        \<and> \<not> has_local_copy t (placement_shard_id p) v})"
  by (induction ps arbitrary: d) (simp_all add: diff_step_added Un_assoc)

lemma fold_diff_removed:
  "set (diff_removed_replicas (fold (diff_step t) ps d)) = set (diff_removed_replicas d) \<union>
     (\<Union>p\<in>set ps. Pair (placement_shard_id p) ` {v. \<not> has_server p v
        \<and> has_local_copy t (placement_shard_id p) v})"
  by (induction ps arbitrary: d) (simp_all add: diff_step_removed Un_assoc)

lemma set_added_diff:
  "set (diff_added_replicas (diff t nxt)) =
     {(placement_shard_id p, v) | p v. p \<in> set (table_placements nxt) \<and> has_server p v
        \<and> \<not> has_local_copy t (placement_shard_id p) v}"
  by (auto simp: diff_def fold_diff_added)

lemma set_removed_diff:
  "set (diff_removed_replicas (diff t nxt)) =
     {(placement_shard_id p, v) | p v. p \<in> set (table_placements nxt) \<and> \<not> has_server p v
        \<and> has_local_copy t (placement_shard_id p) v}"
  by (auto simp: diff_def fold_diff_removed)

section \<open>Properties\<close>

text \<open>
  The difference of two routing tables is complete for every shard the next table places:
  when the next table places no shard twice, a server holds a copy of such a shard under the next
  table exactly when the copy was added, or it was held before and not removed.
\<close>

lemma diff_complete:
  assumes "distinct (map placement_shard_id (table_placements nxt))"
    and "s \<in> placement_shard_id ` set (table_placements nxt)"
  shows "has_local_copy nxt s v \<longleftrightarrow>
    (s, v) \<in> set (diff_added_replicas (diff t nxt)) \<or>
    has_local_copy t s v \<and> (s, v) \<notin> set (diff_removed_replicas (diff t nxt))"
proof -
  from assms(2) obtain p where p: "p \<in> set (table_placements nxt)" "s = placement_shard_id p" by blast
  have uniq: "q = p" if "q \<in> set (table_placements nxt)" "placement_shard_id q = s" for q
    using assms(1) p that by (auto simp: distinct_map dest: inj_onD)
  have "has_local_copy nxt s v \<longleftrightarrow> has_server p v"
    using placement_of_member [OF assms(1) p(1)] p(2) by (simp add: has_local_copy_def)
  moreover have "(s, v) \<in> set (diff_added_replicas (diff t nxt)) \<longleftrightarrow>
      has_server p v \<and> \<not> has_local_copy t s v"
    unfolding set_added_diff using p uniq by blast
  moreover have "(s, v) \<in> set (diff_removed_replicas (diff t nxt)) \<longleftrightarrow>
      \<not> has_server p v \<and> has_local_copy t s v"
    unfolding set_removed_diff using p uniq by blast
  ultimately show ?thesis by blast
qed

end
