(* ===== verification/Bytes.thy ===== *)
theory Bytes
  imports Prelude "HOL-Library.List_Lexorder" "HOL-Library.Char_ord"
begin

text \<open>
  Bytes as the standard library gives them: big-endian integers (\<open>to_be_bytes\<close>, \<open>from_be_bytes\<close>),
  the bytes of a string and the UTF-8 check of \<open>String::from_utf8\<close>. The big-endian form is shown
  to be a bijection that keeps the numeric order, which the key-value store relies on for its scans.
\<close>

unbundle bit_operations_syntax

section \<open>Big-endian integers\<close>

primrec be_bytes :: "nat \<Rightarrow> 'a::len word \<Rightarrow> bytes" where
  "be_bytes 0 w = []"
| "be_bytes (Suc n) w = ucast (drop_bit (8 * n) w) # be_bytes n w"

definition to_be_u32 :: "u32 \<Rightarrow> bytes" where
  "to_be_u32 = be_bytes 4"

definition to_be_u64 :: "u64 \<Rightarrow> bytes" where
  "to_be_u64 = be_bytes 8"

definition from_be :: "bytes \<Rightarrow> 'a::len word" where
  "from_be bs = foldl (\<lambda>acc b. push_bit 8 acc OR ucast b) 0 bs"

definition from_be_u32 :: "bytes \<Rightarrow> u32" where
  "from_be_u32 = from_be"

definition from_be_u64 :: "bytes \<Rightarrow> u64" where
  "from_be_u64 = from_be"

lemma length_be_bytes [simp]: "length (be_bytes n w) = n"
  by (induction n) simp_all

lemma foldl_be_bytes:
  "foldl (\<lambda>acc b. push_bit 8 acc OR ucast b) a (be_bytes n w) = push_bit (8 * n) a OR take_bit (8 * n) w"
  for w a :: "'a::len word"
proof (induction n arbitrary: a)
  case (Suc n)
  have "push_bit (8 * n) (push_bit 8 a OR ucast (ucast (drop_bit (8 * n) w) :: u8)) OR take_bit (8 * n) w =
      push_bit (8 * Suc n) a OR take_bit (8 * Suc n) w"
    by (rule bit_word_eqI)
       (auto simp: bit_or_iff bit_push_bit_iff bit_take_bit_iff bit_ucast_iff bit_drop_bit_eq ac_simps)
  then show ?case using Suc by simp
qed simp

lemma from_be_bytes: "from_be (be_bytes n w) = take_bit (8 * n) w"
  by (simp add: from_be_def foldl_be_bytes)

lemma length_to_be [simp]: "length (to_be_u32 x) = 4" "length (to_be_u64 y) = 8"
  by (simp_all add: to_be_u32_def to_be_u64_def)

lemma from_to_be_u32 [simp]: "from_be_u32 (to_be_u32 x) = x"
  by (simp add: from_be_u32_def to_be_u32_def from_be_bytes take_bit_length_eq [where 'a = 32, simplified])

lemma from_to_be_u64 [simp]: "from_be_u64 (to_be_u64 x) = x"
  by (simp add: from_be_u64_def to_be_u64_def from_be_bytes take_bit_length_eq [where 'a = 64, simplified])

lemma to_be_inject [simp]:
  "to_be_u32 x = to_be_u32 x' \<longleftrightarrow> x = x'" "to_be_u64 y = to_be_u64 y' \<longleftrightarrow> y = y'"
  by (metis from_to_be_u32, metis from_to_be_u64)

subsection \<open>The byte order is the numeric order\<close>

lemma be_bytes_less:
  "be_bytes n x < be_bytes n y \<longleftrightarrow> unat x mod 256 ^ n < unat y mod 256 ^ n"
  for x y :: "'a::len word"
proof (induction n)
  case (Suc n)
  have byte: "unat (ucast (drop_bit (8 * n) w) :: u8) = unat w div 256 ^ n mod 256" for w :: "'a word"
    by (simp add: unsigned_ucast_eq unsigned_drop_bit_eq take_bit_eq_mod)
       (simp add: drop_bit_eq_div power_mult)
  have split: "unat w mod 256 ^ Suc n = 256 ^ n * (unat w div 256 ^ n mod 256) + unat w mod 256 ^ n" for w :: "'a word"
    using mod_mult2_eq [of "unat w" "256 ^ n" 256] by (simp add: mult.commute)
  have lex: "N * a + r < N * b + s \<longleftrightarrow> a < b \<or> a = b \<and> r < s" if "r < N" "s < N" for N a b r s :: nat
  proof -
    have "c < d \<Longrightarrow> N * c + N \<le> N * d" for c d
      using mult_le_mono2 [of "Suc c" d N] by (simp add: add.commute)
    from this [of a b] this [of b a] that show ?thesis
      by (cases a b rule: linorder_cases) auto
  qed
  show ?case
    unfolding be_bytes.simps split Cons_less_Cons Suc.IH
    by (subst lex) (simp_all add: word_less_nat_alt word_unat_eq_iff byte)
qed simp

lemma to_be_u64_less [simp]: "to_be_u64 x < to_be_u64 y \<longleftrightarrow> x < y"
  using unat_less_pow [of x] unat_less_pow [of y]
  by (simp add: to_be_u64_def be_bytes_less word_less_nat_alt)

section \<open>Strings\<close>

definition as_bytes :: "string \<Rightarrow> bytes" where
  "as_bytes s = map (\<lambda>c. word_of_nat (of_char c)) s"

definition of_bytes :: "bytes \<Rightarrow> string" where
  "of_bytes bs = map (\<lambda>b. char_of (unat b)) bs"

lemma length_as_bytes [simp]: "length (as_bytes s) = length s"
  by (simp add: as_bytes_def)

lemma of_bytes_as_bytes [simp]: "of_bytes (as_bytes s) = s"
  by (simp add: of_bytes_def as_bytes_def comp_def unsigned_of_nat take_bit_eq_mod)

lemma as_bytes_inject [simp]: "as_bytes s = as_bytes t \<longleftrightarrow> s = t"
  by (metis of_bytes_as_bytes)

lemma as_bytes_append: "as_bytes (s @ t) = as_bytes s @ as_bytes t"
  by (simp add: as_bytes_def)

definition utf8_cont :: "u8 \<Rightarrow> bool" where
  "utf8_cont b \<longleftrightarrow> 0x80 \<le> b \<and> b \<le> 0xBF"

text \<open>\<open>str::from_utf8\<close>: well-formed UTF-8, without overlong forms and surrogates, up to U+10FFFF.\<close>

fun valid_utf8 :: "bytes \<Rightarrow> bool" where
  "valid_utf8 [] = True"
| "valid_utf8 (a # r) =
     (if a \<le> 0x7F then valid_utf8 r
      else if 0xC2 \<le> a \<and> a \<le> 0xDF
        then (case r of b # r' \<Rightarrow> utf8_cont b \<and> valid_utf8 r' | _ \<Rightarrow> False)
      else if 0xE0 \<le> a \<and> a \<le> 0xEF
        then (case r of b # c # r' \<Rightarrow>
                (if a = 0xE0 then 0xA0 \<le> b \<and> b \<le> 0xBF
                 else if a = 0xED then 0x80 \<le> b \<and> b \<le> 0x9F
                 else utf8_cont b) \<and> utf8_cont c \<and> valid_utf8 r'
              | _ \<Rightarrow> False)
      else if 0xF0 \<le> a \<and> a \<le> 0xF4
        then (case r of b # c # d # r' \<Rightarrow>
                (if a = 0xF0 then 0x90 \<le> b \<and> b \<le> 0xBF
                 else if a = 0xF4 then 0x80 \<le> b \<and> b \<le> 0x8F
                 else utf8_cont b) \<and> utf8_cont c \<and> utf8_cont d \<and> valid_utf8 r'
              | _ \<Rightarrow> False)
      else False)"

definition valid_string :: "string \<Rightarrow> bool" where
  "valid_string s \<longleftrightarrow> valid_utf8 (as_bytes s)"

text \<open>Every ASCII string is a Rust string.\<close>

lemma ascii_valid:
  "list_all (\<lambda>b. b \<le> 0x7F) bs \<Longrightarrow> valid_utf8 bs"
  by (induction bs) simp_all

end
