(* ===== verification/Decimal.thy ===== *)
theory Decimal
  imports Prelude
begin

text \<open>
  Decimal text of unsigned integers: \<open>to_string\<close> / \<open>format!\<close> of a \<open>u64\<close>, \<open>str::parse::<u64>\<close>, and
  zero-padded formatting, as the error messages, the Raft state file and the log segment names use
  them.
\<close>

definition digit_char :: "nat \<Rightarrow> char" where
  "digit_char d = char_of (48 + d)"

definition digit_value :: "char \<Rightarrow> nat option" where
  "digit_value c =
     (let n = (of_char c :: nat) in if 48 \<le> n \<and> n \<le> 57 then Some (n - 48) else None)"

fun show_nat :: "nat \<Rightarrow> string" where
  "show_nat n = (if n < 10 then [digit_char n] else show_nat (n div 10) @ [digit_char (n mod 10)])"

declare show_nat.simps [simp del]

definition show_u64 :: "u64 \<Rightarrow> string" where
  "show_u64 x = show_nat (unat x)"

fun parse_digits :: "nat \<Rightarrow> string \<Rightarrow> nat option" where
  "parse_digits acc [] = Some acc"
| "parse_digits acc (c # cs) =
     (case digit_value c of None \<Rightarrow> None | Some d \<Rightarrow> parse_digits (10 * acc + d) cs)"

text \<open>\<open>str::parse::<u64>\<close>: an optional plus sign, at least one digit, no overflow.\<close>

definition parse_u64 :: "string \<Rightarrow> u64 option" where
  "parse_u64 s =
     (let ds = (case s of [] \<Rightarrow> [] | c # cs \<Rightarrow> if c = CHR ''+'' then cs else s)
      in if ds = [] then None
         else case parse_digits 0 ds of
                None \<Rightarrow> None
              | Some n \<Rightarrow> if n < 2 ^ 64 then Some (of_nat n) else None)"

text \<open>\<open>format!("{:020}", n)\<close>.\<close>

definition pad_zeros :: "nat \<Rightarrow> string \<Rightarrow> string" where
  "pad_zeros w s = replicate (w - length s) (CHR ''0'') @ s"

section \<open>Printing then parsing\<close>

lemma digit_value_digit_char [simp]: "d < 10 \<Longrightarrow> digit_value (digit_char d) = Some d"
  by (simp add: digit_value_def digit_char_def Let_def of_char_of)

lemma digit_value_zero [simp]: "digit_value (CHR ''0'') = Some 0"
  by (simp add: digit_value_def)

lemma parse_digits_append:
  "parse_digits acc (xs @ ys) = Option.bind (parse_digits acc xs) (\<lambda>a. parse_digits a ys)"
  by (induction xs arbitrary: acc) (auto split: option.splits)

lemma parse_digits_show_nat: "parse_digits 0 (show_nat n) = Some n"
proof (induction n rule: show_nat.induct)
  case (1 n)
  then show ?case
    by (cases "n < 10") (simp_all add: show_nat.simps [of n] parse_digits_append)
qed

lemma parse_digits_zeros: "parse_digits 0 (replicate k (CHR ''0'') @ s) = parse_digits 0 s"
  by (induction k) simp_all

lemma show_nat_nonempty [simp]: "show_nat n \<noteq> []"
  by (simp add: show_nat.simps [of n])

lemma show_nat_digits: "c \<in> set (show_nat n) \<Longrightarrow> digit_value c \<noteq> None"
proof (induction n rule: show_nat.induct)
  case (1 n)
  show ?case
  proof (cases "n < 10")
    case True
    with "1.prems" show ?thesis by (simp add: show_nat.simps [of n])
  next
    case False
    with "1.prems" have "c \<in> set (show_nat (n div 10)) \<or> c = digit_char (n mod 10)"
      by (auto simp: show_nat.simps [of n])
    with "1.IH" [OF False] show ?thesis by auto
  qed
qed

lemma digit_not_special:
  "digit_value c \<noteq> None \<Longrightarrow> c \<noteq> CHR ''+'' \<and> c \<noteq> CHR ''-'' \<and> c \<noteq> CHR 0x0A \<and> c \<noteq> CHR 0x0D \<and> c \<noteq> CHR ''.''"
  by (auto simp: digit_value_def Let_def)

lemma parse_u64_digits:
  assumes "s \<noteq> []" and "\<And>c. c \<in> set s \<Longrightarrow> digit_value c \<noteq> None"
  shows "parse_u64 s = (case parse_digits 0 s of
           None \<Rightarrow> None | Some n \<Rightarrow> if n < 2 ^ 64 then Some (of_nat n) else None)"
proof (cases s)
  case Nil
  with assms show ?thesis by simp
next
  case (Cons c cs)
  with assms(2) have "c \<noteq> CHR ''+''" using digit_not_special by auto
  with Cons show ?thesis by (simp add: parse_u64_def)
qed

lemma parse_show_u64 [simp]: "parse_u64 (show_u64 x) = Some x"
proof -
  have "unat x < 2 ^ 64" using unat_less_pow [of x] by simp
  then show ?thesis
    using show_nat_digits
    by (subst parse_u64_digits) (auto simp: show_u64_def parse_digits_show_nat)
qed

lemma parse_pad_show_u64 [simp]: "parse_u64 (pad_zeros w (show_u64 x)) = Some x"
proof -
  have "unat x < 2 ^ 64" using unat_less_pow [of x] by simp
  moreover have "digit_value c \<noteq> None" if "c \<in> set (pad_zeros w (show_nat (unat x)))" for c
    using that show_nat_digits by (auto simp: pad_zeros_def)
  ultimately show ?thesis
    by (subst parse_u64_digits)
       (auto simp: show_u64_def pad_zeros_def parse_digits_zeros parse_digits_show_nat)
qed

lemma show_u64_inject: "show_u64 x = show_u64 y \<Longrightarrow> x = y"
  by (metis option.inject parse_show_u64)

end
