(* ===== verification/Codec.thy ===== *)
theory Codec
  imports Core_Model Bytes Decimal
begin

text \<open>
  The binary codec of \<open>neo4r-storage/src/codec.rs\<close>: \<open>encode_command\<close>, \<open>decode_command\<close>,
  \<open>encode_log_entry\<close> and \<open>decode_log_entry\<close> with its three formats, over the \<open>write_*\<close> helpers and
  the bounds-checked \<open>Reader\<close>. A \<open>write_*\<close> helper is the bytes it appends; a \<open>read_*\<close> method is a
  function from the reader to an error or a value and the advanced reader.
\<close>

section \<open>Errors\<close>

datatype storage_error =
    Io string
  | CorruptLog string
  | CorruptSnapshot string
  | CorruptStore string
  | WrongShard shard_id shard_id

section \<open>Writing\<close>

definition write_u8 :: "u8 \<Rightarrow> bytes" where
  "write_u8 x = [x]"

definition write_u32 :: "u32 \<Rightarrow> bytes" where
  "write_u32 x = to_be_u32 x"

definition write_u64 :: "u64 \<Rightarrow> bytes" where
  "write_u64 x = to_be_u64 x"

definition write_i64 :: "i64 \<Rightarrow> bytes" where
  "write_i64 x = to_be_u64 x"

definition write_string :: "string \<Rightarrow> bytes" where
  "write_string s = write_u32 (of_nat (length s)) @ as_bytes s"

definition write_strings :: "string list \<Rightarrow> bytes" where
  "write_strings ss = write_u32 (of_nat (length ss)) @ concat (map write_string ss)"

text \<open>
  \<open>write_properties\<close> sorts the entries by key, so the order of the hash map does not matter;
  \<open>write_entries\<close> is its loop over the sorted entries with the values already written.
\<close>

definition write_entries :: "(string \<times> bytes) list \<Rightarrow> bytes" where
  "write_entries es =
     write_u32 (of_nat (length es)) @ concat (map (\<lambda>(key, value). write_string key @ value) es)"

primrec write_value :: "val \<Rightarrow> bytes" where
  "write_value V_Null = write_u8 0"
| "write_value (V_Bool b) = write_u8 1 @ write_u8 (if b then 1 else 0)"
| "write_value (V_Int i) = write_u8 2 @ write_i64 i"
| "write_value (V_Float x) = write_u8 3 @ write_u64 x"
| "write_value (V_String s) = write_u8 4 @ write_string s"
| "write_value (V_Vector xs) =
     write_u8 5 @ write_u32 (of_nat (length xs)) @ concat (map write_u32 xs)"
| "write_value (V_Map m) = write_u8 6 @ write_entries (hm_iter (fmmap write_value m))"

definition write_properties :: "properties \<Rightarrow> bytes" where
  "write_properties m = write_entries (hm_iter (fmmap write_value m))"

definition write_replica :: "shard_replica \<Rightarrow> bytes" where
  "write_replica r =
     write_u64 (replica_server_id r) @ write_u8 (case replica_role r of Primary \<Rightarrow> 1 | Replica \<Rightarrow> 2)"

definition write_placement :: "shard_placement \<Rightarrow> bytes" where
  "write_placement p =
     write_u64 (placement_shard_id p) @ write_u32 (of_nat (length (placement_replicas p))) @
     concat (map write_replica (placement_replicas p))"

definition write_routing_table :: "shard_routing_table \<Rightarrow> bytes" where
  "write_routing_table t =
     write_u64 (table_version t) @ write_u32 (of_nat (length (table_placements t))) @
     concat (map write_placement (table_placements t))"

fun encode_command :: "command \<Rightarrow> bytes" where
  "encode_command (CreateNode nid labels props) =
     write_u8 1 @ write_u64 nid @ write_strings labels @ write_properties props"
| "encode_command (CreateRelationship rid from to ty props) =
     write_u8 2 @ write_u64 rid @ write_u64 from @ write_u64 to @ write_string ty @
     write_properties props"
| "encode_command (UpsertBoundaryNode nid owner labels props version) =
     write_u8 7 @ write_u64 nid @ write_u64 owner @ write_strings labels @ write_properties props @
     write_u64 version"
| "encode_command (SetNodeProperty nid key v) =
     write_u8 3 @ write_u64 nid @ write_string key @ write_value v"
| "encode_command (RemoveNodeProperty nid key) = write_u8 8 @ write_u64 nid @ write_string key"
| "encode_command (AddNodeLabel nid label) = write_u8 10 @ write_u64 nid @ write_string label"
| "encode_command (RemoveNodeLabel nid label) = write_u8 11 @ write_u64 nid @ write_string label"
| "encode_command (SetRelationshipProperty rid key v) =
     write_u8 4 @ write_u64 rid @ write_string key @ write_value v"
| "encode_command (RemoveRelationshipProperty rid key) =
     write_u8 9 @ write_u64 rid @ write_string key"
| "encode_command (DeleteRelationship rid) = write_u8 5 @ write_u64 rid"
| "encode_command (DeleteNode nid) = write_u8 6 @ write_u64 nid"
| "encode_command (ClusterConfigChange phase description voters table) =
     write_u8 12 @ write_string phase @ write_string description @
     write_u32 (of_nat (length voters)) @ concat (map write_u64 voters) @ write_routing_table table"

definition magic_v2 :: bytes where
  "magic_v2 = as_bytes (''N4RLE2'' @ [CHR 0x0A])"

definition magic_v3 :: bytes where
  "magic_v3 = as_bytes (''N4RLE3'' @ [CHR 0x0A])"

definition encode_log_entry :: "log_entry \<Rightarrow> bytes" where
  "encode_log_entry e =
     (let cmd = encode_command (entry_command e)
      in magic_v3 @ write_u64 (entry_shard_id e) @ write_u64 (entry_term e) @
         write_u64 (entry_index e) @ write_u64 (entry_origin_server_id e) @
         write_u64 (entry_config_version e) @ write_u64 (physical_ms (entry_timestamp e)) @
         write_u32 (logical (entry_timestamp e)) @ write_u32 (of_nat (length cmd)) @ cmd)"

section \<open>Reading\<close>

record reader =
  rd_input :: bytes
  rd_position :: nat

type_synonym 'a rd = "reader \<Rightarrow> storage_error + 'a \<times> reader"

definition rd_return :: "'a \<Rightarrow> 'a rd" where
  "rd_return x = (\<lambda>r. Inr (x, r))"

definition rd_fail :: "string \<Rightarrow> 'a rd" where
  "rd_fail msg = (\<lambda>r. Inl (CorruptLog msg))"

definition rd_bind :: "'a rd \<Rightarrow> ('a \<Rightarrow> 'b rd) \<Rightarrow> 'b rd" where
  "rd_bind f g = (\<lambda>r. case f r of Inl e \<Rightarrow> Inl e | Inr (x, r') \<Rightarrow> g x r')"

fun rd_times :: "nat \<Rightarrow> 'a rd \<Rightarrow> 'a list rd" where
  "rd_times 0 f = rd_return []"
| "rd_times (Suc n) f = rd_bind f (\<lambda>x. rd_bind (rd_times n f) (\<lambda>xs. rd_return (x # xs)))"

definition new_reader :: "bytes \<Rightarrow> reader" where
  "new_reader input = \<lparr>rd_input = input, rd_position = 0\<rparr>"

text \<open>\<open>checked_add\<close> on \<open>usize\<close>; the position and the lengths are 64 bits wide.\<close>

definition usize_overflow :: "nat \<Rightarrow> bool" where
  "usize_overflow n \<longleftrightarrow> 2 ^ 64 \<le> n"

lemma usize_overflow_code [code]: "usize_overflow n \<longleftrightarrow> (2 :: int) ^ 64 \<le> int n"
  by (simp add: usize_overflow_def)

definition finish_reader :: "unit rd" where
  "finish_reader r =
     (if rd_position r = length (rd_input r) then Inr ((), r)
      else Inl (CorruptLog ''trailing bytes''))"

definition read_exact :: "nat \<Rightarrow> bytes rd" where
  "read_exact len r =
     (let end_pos = rd_position r + len
      in if usize_overflow end_pos then Inl (CorruptLog ''length overflow'')
         else if length (rd_input r) < end_pos then Inl (CorruptLog ''truncated payload'')
         else Inr (take len (drop (rd_position r) (rd_input r)), r\<lparr>rd_position := end_pos\<rparr>))"

definition read_u8 :: "u8 rd" where
  "read_u8 = rd_bind (read_exact 1) (\<lambda>bs. rd_return (hd bs))"

definition read_u32 :: "u32 rd" where
  "read_u32 = rd_bind (read_exact 4) (\<lambda>bs. rd_return (from_be_u32 bs))"

definition read_u64 :: "u64 rd" where
  "read_u64 = rd_bind (read_exact 8) (\<lambda>bs. rd_return (from_be_u64 bs))"

definition read_i64 :: "i64 rd" where
  "read_i64 = rd_bind (read_exact 8) (\<lambda>bs. rd_return (from_be_u64 bs))"

definition read_string :: "string rd" where
  "read_string = rd_bind read_u32 (\<lambda>len. rd_bind (read_exact (unat len)) (\<lambda>bs.
     if valid_utf8 bs then rd_return (of_bytes bs) else rd_fail ''invalid utf-8 string''))"

definition read_strings :: "string list rd" where
  "read_strings = rd_bind read_u32 (\<lambda>len. rd_times (unat len) read_string)"

text \<open>
  \<open>read_properties\<close> and \<open>read_value\<close> call each other. \<open>read_value_body\<close> is the body of
  \<open>read_value\<close> with the recursive call as an argument; every recursive call comes after a tag byte
  has been consumed, so as many unfoldings as there are bytes left are enough: \<open>read_value_eq\<close>
  below shows that \<open>read_value\<close> satisfies the source's recursive equation.
\<close>

fun read_entries :: "val rd \<Rightarrow> nat \<Rightarrow> properties \<Rightarrow> properties rd" where
  "read_entries rv 0 m = rd_return m"
| "read_entries rv (Suc n) m =
     rd_bind read_string (\<lambda>key. rd_bind rv (\<lambda>value. read_entries rv n (fmupd key value m)))"

definition read_properties_with :: "val rd \<Rightarrow> properties rd" where
  "read_properties_with rv = rd_bind read_u32 (\<lambda>len. read_entries rv (unat len) fmempty)"

definition read_value_body :: "val rd \<Rightarrow> val rd" where
  "read_value_body rv = rd_bind read_u8 (\<lambda>tag.
     if tag = 0 then rd_return V_Null
     else if tag = 1 then rd_bind read_u8 (\<lambda>b. rd_return (V_Bool (b \<noteq> 0)))
     else if tag = 2 then rd_bind read_i64 (\<lambda>i. rd_return (V_Int i))
     else if tag = 3 then rd_bind read_u64 (\<lambda>x. rd_return (V_Float x))
     else if tag = 4 then rd_bind read_string (\<lambda>s. rd_return (V_String s))
     else if tag = 5 then rd_bind read_u32 (\<lambda>len.
       rd_bind (rd_times (unat len) read_u32) (\<lambda>xs. rd_return (V_Vector xs)))
     else if tag = 6 then rd_bind (read_properties_with rv) (\<lambda>m. rd_return (V_Map m))
     else rd_fail (''unknown value tag '' @ show_nat (unat tag)))"

primrec read_value_fuel :: "nat \<Rightarrow> val rd" where
  "read_value_fuel 0 = read_value_body (rd_fail ''truncated payload'')"
| "read_value_fuel (Suc fuel) = read_value_body (read_value_fuel fuel)"

definition bytes_left :: "reader \<Rightarrow> nat" where
  "bytes_left r = length (rd_input r) - rd_position r"

definition read_value :: "val rd" where
  "read_value r = read_value_fuel (bytes_left r) r"

definition read_properties :: "properties rd" where
  "read_properties = read_properties_with read_value"

definition read_replica :: "shard_replica rd" where
  "read_replica = rd_bind read_u64 (\<lambda>server. rd_bind read_u8 (\<lambda>tag.
     if tag = 1 then rd_return \<lparr>replica_server_id = server, replica_role = Primary\<rparr>
     else if tag = 2 then rd_return \<lparr>replica_server_id = server, replica_role = Replica\<rparr>
     else rd_fail (''unknown shard replica role tag '' @ show_nat (unat tag))))"

definition read_placement :: "shard_placement rd" where
  "read_placement = rd_bind read_u64 (\<lambda>shard. rd_bind read_u32 (\<lambda>len.
     rd_bind (rd_times (unat len) read_replica) (\<lambda>replicas.
     rd_return \<lparr>placement_shard_id = shard, placement_replicas = replicas\<rparr>)))"

definition read_routing_table :: "shard_routing_table rd" where
  "read_routing_table = rd_bind read_u64 (\<lambda>version. rd_bind read_u32 (\<lambda>len.
     rd_bind (rd_times (unat len) read_placement) (\<lambda>placements.
     rd_return \<lparr>table_version = version, table_placements = placements\<rparr>)))"

definition read_command :: "command rd" where
  "read_command = rd_bind read_u8 (\<lambda>tag.
     if tag = 1 then
       rd_bind read_u64 (\<lambda>nid. rd_bind read_strings (\<lambda>labels. rd_bind read_properties (\<lambda>props.
       rd_return (CreateNode nid labels props))))
     else if tag = 2 then
       rd_bind read_u64 (\<lambda>rid. rd_bind read_u64 (\<lambda>from. rd_bind read_u64 (\<lambda>to.
       rd_bind read_string (\<lambda>ty. rd_bind read_properties (\<lambda>props.
       rd_return (CreateRelationship rid from to ty props))))))
     else if tag = 7 then
       rd_bind read_u64 (\<lambda>nid. rd_bind read_u64 (\<lambda>owner. rd_bind read_strings (\<lambda>labels.
       rd_bind read_properties (\<lambda>props. rd_bind read_u64 (\<lambda>version.
       rd_return (UpsertBoundaryNode nid owner labels props version))))))
     else if tag = 3 then
       rd_bind read_u64 (\<lambda>nid. rd_bind read_string (\<lambda>key. rd_bind read_value (\<lambda>v.
       rd_return (SetNodeProperty nid key v))))
     else if tag = 8 then
       rd_bind read_u64 (\<lambda>nid. rd_bind read_string (\<lambda>key. rd_return (RemoveNodeProperty nid key)))
     else if tag = 10 then
       rd_bind read_u64 (\<lambda>nid. rd_bind read_string (\<lambda>label. rd_return (AddNodeLabel nid label)))
     else if tag = 11 then
       rd_bind read_u64 (\<lambda>nid. rd_bind read_string (\<lambda>label. rd_return (RemoveNodeLabel nid label)))
     else if tag = 4 then
       rd_bind read_u64 (\<lambda>rid. rd_bind read_string (\<lambda>key. rd_bind read_value (\<lambda>v.
       rd_return (SetRelationshipProperty rid key v))))
     else if tag = 9 then
       rd_bind read_u64 (\<lambda>rid. rd_bind read_string (\<lambda>key.
       rd_return (RemoveRelationshipProperty rid key)))
     else if tag = 5 then rd_bind read_u64 (\<lambda>rid. rd_return (DeleteRelationship rid))
     else if tag = 6 then rd_bind read_u64 (\<lambda>nid. rd_return (DeleteNode nid))
     else if tag = 12 then
       rd_bind read_string (\<lambda>phase. rd_bind read_string (\<lambda>description. rd_bind read_u32 (\<lambda>len.
       rd_bind (rd_times (unat len) read_u64) (\<lambda>voters. rd_bind read_routing_table (\<lambda>table.
       rd_return (ClusterConfigChange phase description voters table))))))
     else rd_fail (''unknown command tag '' @ show_nat (unat tag)))"

definition rd_run :: "'a rd \<Rightarrow> bytes \<Rightarrow> storage_error + 'a" where
  "rd_run f input =
     rbind (rd_bind f (\<lambda>x. rd_bind finish_reader (\<lambda>_. rd_return x)) (new_reader input)) (\<lambda>(x, _). Inr x)"

definition decode_command :: "bytes \<Rightarrow> storage_error + command" where
  "decode_command input = rd_run read_command input"

text \<open>\<open>decode_command(reader.read_exact(command_len)?)?\<close>: a nested decoder over a sub-slice.\<close>

definition read_nested_command :: "command rd" where
  "read_nested_command = rd_bind read_u32 (\<lambda>len. rd_bind (read_exact (unat len)) (\<lambda>bs r.
     case decode_command bs of Inl e \<Rightarrow> Inl e | Inr cmd \<Rightarrow> Inr (cmd, r)))"

definition read_entry_v3 :: "log_entry rd" where
  "read_entry_v3 =
     rd_bind read_u64 (\<lambda>shard. rd_bind read_u64 (\<lambda>trm. rd_bind read_u64 (\<lambda>index.
     rd_bind read_u64 (\<lambda>origin. rd_bind read_u64 (\<lambda>version. rd_bind read_u64 (\<lambda>ms.
     rd_bind read_u32 (\<lambda>lg. rd_bind read_nested_command (\<lambda>cmd.
     rd_return (new_with_metadata shard trm index origin version
       \<lparr>physical_ms = ms, logical = lg\<rparr> cmd)))))))))"

definition decode_log_entry_v3 :: "bytes \<Rightarrow> storage_error + log_entry" where
  "decode_log_entry_v3 = rd_run read_entry_v3"

definition read_entry_v2 :: "log_entry rd" where
  "read_entry_v2 =
     rd_bind read_u64 (\<lambda>shard. rd_bind read_u64 (\<lambda>trm. rd_bind read_u64 (\<lambda>index.
     rd_bind read_u64 (\<lambda>ms. rd_bind read_u32 (\<lambda>lg. rd_bind read_nested_command (\<lambda>cmd.
     rd_return (new_with_timestamp shard trm index \<lparr>physical_ms = ms, logical = lg\<rparr> cmd)))))))"

definition decode_log_entry_v2 :: "bytes \<Rightarrow> storage_error + log_entry" where
  "decode_log_entry_v2 = rd_run read_entry_v2"

definition read_entry_v1 :: "log_entry rd" where
  "read_entry_v1 =
     rd_bind read_u64 (\<lambda>shard. rd_bind read_u64 (\<lambda>trm. rd_bind read_u64 (\<lambda>index.
     rd_bind read_nested_command (\<lambda>cmd. rd_return (new_log_entry shard trm index cmd)))))"

definition decode_log_entry_v1 :: "bytes \<Rightarrow> storage_error + log_entry" where
  "decode_log_entry_v1 = rd_run read_entry_v1"

definition strip_prefix :: "bytes \<Rightarrow> bytes \<Rightarrow> bytes option" where
  "strip_prefix p bs = (if take (length p) bs = p then Some (drop (length p) bs) else None)"

definition decode_log_entry :: "bytes \<Rightarrow> storage_error + log_entry" where
  "decode_log_entry input =
     (case strip_prefix magic_v3 input of
        Some payload \<Rightarrow> decode_log_entry_v3 payload
      | None \<Rightarrow>
          (case strip_prefix magic_v2 input of
             Some payload \<Rightarrow> decode_log_entry_v2 payload
           | None \<Rightarrow> decode_log_entry_v1 input))"

section \<open>The reader never runs ahead\<close>

definition shrinks :: "'a rd \<Rightarrow> bool" where
  "shrinks f \<longleftrightarrow> (\<forall>r x r'. f r = Inr (x, r') \<longrightarrow> rd_input r' = rd_input r \<and>
     rd_position r \<le> rd_position r' \<and> (rd_position r \<le> length (rd_input r) \<longrightarrow> rd_position r' \<le> length (rd_input r')))"

lemma shrinks_basic [intro, simp]: "shrinks (rd_return x)" "shrinks (rd_fail msg)" "shrinks (read_exact n)"
  "shrinks finish_reader"
  by (auto simp: shrinks_def rd_return_def rd_fail_def read_exact_def finish_reader_def Let_def
      split: if_splits)

lemma shrinks_bind [intro]:
  assumes "shrinks f" and "\<And>x. shrinks (g x)"
  shows "shrinks (rd_bind f g)"
  unfolding shrinks_def
proof (intro allI impI)
  fix r x r' assume "rd_bind f g r = Inr (x, r')"
  then obtain y s where "f r = Inr (y, s)" "g y s = Inr (x, r')"
    by (auto simp: rd_bind_def split: sum.splits)
  then show "rd_input r' = rd_input r \<and> rd_position r \<le> rd_position r' \<and>
      (rd_position r \<le> length (rd_input r) \<longrightarrow> rd_position r' \<le> length (rd_input r'))"
    using assms(1) assms(2) [of y] unfolding shrinks_def by fastforce
qed

lemma shrinks_if [intro]: "shrinks f \<Longrightarrow> shrinks g \<Longrightarrow> shrinks (if b then f else g)"
  by simp

lemma shrinks_times [intro]: "shrinks f \<Longrightarrow> shrinks (rd_times n f)"
  by (induction n) auto

lemma shrinks_reads [intro, simp]: "shrinks read_u8" "shrinks read_u32" "shrinks read_u64"
  "shrinks read_i64" "shrinks read_string" "shrinks read_strings"
  unfolding read_u8_def read_u32_def read_u64_def read_i64_def read_string_def read_strings_def
  by (intro shrinks_bind shrinks_if shrinks_times shrinks_basic)+

lemma shrinks_entries [intro]: "shrinks rv \<Longrightarrow> shrinks (read_entries rv n m)"
  by (induction n arbitrary: m) auto

lemma shrinks_value_body [intro]: "shrinks rv \<Longrightarrow> shrinks (read_value_body rv)"
  unfolding read_value_body_def read_properties_with_def
  by (intro shrinks_bind shrinks_if shrinks_times shrinks_basic shrinks_reads shrinks_entries)

lemma shrinks_value_fuel [intro, simp]: "shrinks (read_value_fuel n)"
  by (induction n) auto

lemma shrinks_left: "shrinks f \<Longrightarrow> f r = Inr (x, r') \<Longrightarrow> bytes_left r' \<le> bytes_left r"
  unfolding shrinks_def bytes_left_def by (metis diff_le_mono2)

lemma read_u8_left: "read_u8 r = Inr (x, r') \<Longrightarrow> bytes_left r' < bytes_left r"
  by (auto simp: read_u8_def rd_bind_def read_exact_def rd_return_def bytes_left_def Let_def
      split: if_splits)

lemma rd_bind_cong_left:
  assumes "shrinks f" and "\<And>x s. bytes_left s \<le> bytes_left r \<Longrightarrow> g x s = h x s"
  shows "rd_bind f g r = rd_bind f h r"
  using assms shrinks_left [OF assms(1), of r] by (auto simp: rd_bind_def split: sum.splits)

lemma read_entries_cong:
  assumes rv: "shrinks rv" and eq: "\<And>s. bytes_left s \<le> n \<Longrightarrow> rv s = rv' s" and "bytes_left r \<le> n"
  shows "read_entries rv len m r = read_entries rv' len m r"
  using assms(3)
proof (induction len arbitrary: m r)
  case (Suc len)
  have "rd_bind rv (\<lambda>v. read_entries rv len (fmupd k v m)) s = rd_bind rv' (\<lambda>v. read_entries rv' len (fmupd k v m)) s"
    if "bytes_left s \<le> bytes_left r" for k s
  proof -
    have "rd_bind rv (\<lambda>v. read_entries rv len (fmupd k v m)) s = rd_bind rv (\<lambda>v. read_entries rv' len (fmupd k v m)) s"
      by (rule rd_bind_cong_left [OF rv]) (use Suc that in auto)
    also have "\<dots> = rd_bind rv' (\<lambda>v. read_entries rv' len (fmupd k v m)) s"
      using eq [of s] that Suc.prems by (simp add: rd_bind_def)
    finally show ?thesis .
  qed
  then show ?case unfolding read_entries.simps by (intro rd_bind_cong_left) auto
qed simp

lemma read_value_body_cong:
  assumes rv: "shrinks rv" and eq: "\<And>s. bytes_left s < n \<Longrightarrow> rv s = rv' s" and "bytes_left r \<le> n"
  shows "read_value_body rv r = read_value_body rv' r"
proof (cases "read_u8 r")
  case (Inr p)
  then obtain tag s where p: "read_u8 r = Inr (tag, s)" by (cases p) auto
  have left: "bytes_left s < n" using read_u8_left [OF p] assms(3) by simp
  have "read_properties_with rv s = read_properties_with rv' s"
    unfolding read_properties_with_def
    by (rule rd_bind_cong_left [OF shrinks_reads(2)], rule read_entries_cong [OF rv, of "bytes_left s"])
       (use eq left in auto)
  then have props: "rd_bind (read_properties_with rv) h s = rd_bind (read_properties_with rv') h s"
    for h :: "properties \<Rightarrow> val rd"
    by (simp add: rd_bind_def)
  show ?thesis unfolding read_value_body_def rd_bind_def [of read_u8] p by (simp add: props)
qed (simp add: read_value_body_def rd_bind_def)

lemma read_value_fuel_enough:
  "bytes_left r \<le> n \<Longrightarrow> bytes_left r \<le> m \<Longrightarrow> read_value_fuel n r = read_value_fuel m r"
proof (induction n arbitrary: m r)
  case 0
  have "read_value_body rv r = read_value_body rv' r" for rv rv'
    using 0 read_u8_left [of r] by (cases "read_u8 r") (auto simp: read_value_body_def rd_bind_def)
  then show ?case by (cases m) auto
next
  case (Suc n)
  show ?case
  proof (cases m)
    case 0
    have "read_value_body rv r = read_value_body rv' r" for rv rv'
      using 0 Suc.prems read_u8_left [of r] by (cases "read_u8 r") (auto simp: read_value_body_def rd_bind_def)
    then show ?thesis using 0 by simp
  next
    case m: (Suc k)
    then show ?thesis using Suc by (auto intro!: read_value_body_cong [of _ "bytes_left r"])
  qed
qed

text \<open>The recursive equation of \<open>Reader::read_value\<close>.\<close>

lemma read_value_eq: "read_value = read_value_body read_value"
proof
  fix r
  have "read_value_body (read_value_fuel (bytes_left r)) r = read_value_body read_value r"
    by (rule read_value_body_cong [of _ "bytes_left r"])
       (auto simp: read_value_def intro: read_value_fuel_enough)
  moreover have "read_value r = read_value_fuel (Suc (bytes_left r)) r"
    unfolding read_value_def by (rule read_value_fuel_enough) simp_all
  ultimately show "read_value r = read_value_body read_value r" by simp
qed

section \<open>What a reader reads\<close>

text \<open>
  \<open>reads f bs v\<close>: wherever the bytes \<open>bs\<close> stand in an input of at most \<open>usize\<close> length, \<open>f\<close> started
  at their first byte returns \<open>v\<close> and stops after their last.
\<close>

definition reads :: "'a rd \<Rightarrow> bytes \<Rightarrow> 'a \<Rightarrow> bool" where
  "reads f bs v \<longleftrightarrow> (\<forall>pre post. length (pre @ bs @ post) < 2 ^ 64 \<longrightarrow>
     f \<lparr>rd_input = pre @ bs @ post, rd_position = length pre\<rparr> =
       Inr (v, \<lparr>rd_input = pre @ bs @ post, rd_position = length pre + length bs\<rparr>))"

lemma reads_return [reads_intros]: "reads (rd_return v) [] v"
  by (simp add: reads_def rd_return_def)

lemma reads_bind [reads_intros]:
  assumes "reads f bs v" and "reads (g v) cs w"
  shows "reads (rd_bind f g) (bs @ cs) w"
  unfolding reads_def
proof (intro allI impI)
  fix pre post :: bytes
  assume len: "length (pre @ (bs @ cs) @ post) < 2 ^ 64"
  have "f \<lparr>rd_input = pre @ bs @ (cs @ post), rd_position = length pre\<rparr> =
      Inr (v, \<lparr>rd_input = pre @ bs @ (cs @ post), rd_position = length pre + length bs\<rparr>)"
    using assms(1) [unfolded reads_def, rule_format, of pre "cs @ post"] len by simp
  moreover have "g v \<lparr>rd_input = (pre @ bs) @ cs @ post, rd_position = length (pre @ bs)\<rparr> =
      Inr (w, \<lparr>rd_input = (pre @ bs) @ cs @ post, rd_position = length (pre @ bs) + length cs\<rparr>)"
    using assms(2) [unfolded reads_def, rule_format, of "pre @ bs" post] len by simp
  ultimately show "rd_bind f g \<lparr>rd_input = pre @ (bs @ cs) @ post, rd_position = length pre\<rparr> =
      Inr (w, \<lparr>rd_input = pre @ (bs @ cs) @ post, rd_position = length pre + length (bs @ cs)\<rparr>)"
    by (simp add: rd_bind_def add.assoc)
qed

lemma reads_map:
  assumes "reads f bs v" and "g v = rd_return w"
  shows "reads (rd_bind f g) bs w"
  using reads_bind [OF assms(1), of g "[]" w] assms(2) reads_return [of w] by simp

lemma reads_exact: "n = length bs \<Longrightarrow> reads (read_exact n) bs bs"
  by (auto simp: reads_def read_exact_def usize_overflow_def Let_def)

lemma reads_prim [reads_intros]:
  "reads read_u8 (write_u8 a) a" "reads read_u32 (write_u32 b) b" "reads read_u64 (write_u64 c) c"
  "reads read_i64 (write_i64 d) d"
  unfolding read_u8_def read_u32_def read_u64_def read_i64_def write_u8_def write_u32_def
    write_u64_def write_i64_def
  by (rule reads_map [OF reads_exact], simp, simp)+

lemma reads_times:
  assumes "\<And>x. x \<in> set xs \<Longrightarrow> reads f (enc x) x"
  shows "reads (rd_times (length xs) f) (concat (map enc xs)) xs"
  using assms
proof (induction xs)
  case (Cons x xs)
  then have "reads (rd_times (length (x # xs)) f) (enc x @ concat (map enc xs)) (x # xs)"
    unfolding list.size rd_times.simps add_Suc_right add_0_right
    by (intro reads_bind [of f] reads_map [of _ "concat (map enc xs)" xs]) simp_all
  then show ?case by simp
qed (simp add: reads_return)

text \<open>A length that was written as a \<open>u32\<close> is read back when it fits.\<close>

definition fits_u32 :: "nat \<Rightarrow> bool" where
  "fits_u32 n \<longleftrightarrow> n < 2 ^ 32"

lemma fits_u32_code [code]: "fits_u32 n \<longleftrightarrow> int n < 2 ^ 32"
  by (simp add: fits_u32_def)

lemma unat_of_nat_u32: "fits_u32 n \<Longrightarrow> unat (of_nat n :: u32) = n"
  by (simp add: fits_u32_def unsigned_of_nat take_bit_nat_eq_self)

lemma reads_counted:
  assumes "fits_u32 (length xs)" and "\<And>x. x \<in> set xs \<Longrightarrow> reads f (enc x) x"
  shows "reads (rd_bind read_u32 (\<lambda>len. rd_times (unat len) f))
    (write_u32 (of_nat (length xs)) @ concat (map enc xs)) xs"
  by (rule reads_bind [OF reads_prim(2)], unfold unat_of_nat_u32 [OF assms(1)])
     (rule reads_times [OF assms(2)])

lemma reads_counted_bind:
  assumes "fits_u32 (length xs)" and "\<And>x. x \<in> set xs \<Longrightarrow> reads f (enc x) x" and "reads (g xs) cs w"
  shows "reads (rd_bind read_u32 (\<lambda>len. rd_bind (rd_times (unat len) f) g))
    (write_u32 (of_nat (length xs)) @ concat (map enc xs) @ cs) w"
  by (rule reads_bind [OF reads_prim(2)], unfold unat_of_nat_u32 [OF assms(1)])
     (rule reads_bind [of _ _ xs], rule reads_times [OF assms(2)], assumption, rule assms(3))

definition wf_string :: "string \<Rightarrow> bool" where
  "wf_string s \<longleftrightarrow> valid_string s \<and> fits_u32 (length s)"

lemma reads_string [reads_intros]: "wf_string s \<Longrightarrow> reads read_string (write_string s) s"
  unfolding read_string_def write_string_def
  by (rule reads_bind [OF reads_prim(2)], rule reads_map [OF reads_exact])
     (simp_all add: wf_string_def unat_of_nat_u32 valid_string_def)

lemma reads_strings [reads_intros]:
  "fits_u32 (length ss) \<Longrightarrow> list_all wf_string ss \<Longrightarrow> reads read_strings (write_strings ss) ss"
  unfolding read_strings_def write_strings_def
  by (rule reads_counted) (auto simp: list_all_iff intro: reads_string)

subsection \<open>Values\<close>

primrec wf_val :: "val \<Rightarrow> bool" where
  "wf_val V_Null = True"
| "wf_val (V_Bool b) = True"
| "wf_val (V_Int i) = True"
| "wf_val (V_Float x) = True"
| "wf_val (V_String s) = wf_string s"
| "wf_val (V_Vector xs) = fits_u32 (length xs)"
| "wf_val (V_Map m) = (fits_u32 (length (hm_iter m)) \<and>
     list_all (\<lambda>(k, b). wf_string k \<and> b) (hm_iter (fmmap wf_val m)))"

definition wf_props :: "properties \<Rightarrow> bool" where
  "wf_props m \<longleftrightarrow> wf_val (V_Map m)"

lemma reads_entries:
  assumes "\<And>k v. (k, v) \<in> set es \<Longrightarrow> wf_string k \<and> reads rv (write_value v) v"
  shows "reads (read_entries rv (length es) m) (concat (map (\<lambda>(k, v). write_string k @ write_value v) es))
    (foldl (\<lambda>m (k, v). fmupd k v m) m es)"
  using assms
proof (induction es arbitrary: m)
  case (Cons e es)
  obtain k v where e: "e = (k, v)" by (cases e)
  have kv: "reads read_string (write_string k) k" "reads rv (write_value v) v"
    using Cons.prems e by (auto intro: reads_string)
  have "reads (read_entries rv (length es) (fmupd k v m))
      (concat (map (\<lambda>(k, v). write_string k @ write_value v) es)) (foldl (\<lambda>m (k, v). fmupd k v m) (fmupd k v m) es)"
    by (rule Cons.IH) (use Cons.prems in auto)
  then have "reads (rd_bind rv (\<lambda>v. read_entries rv (length es) (fmupd k v m)))
      (write_value v @ concat (map (\<lambda>(k, v). write_string k @ write_value v) es))
      (foldl (\<lambda>m (k, v). fmupd k v m) (fmupd k v m) es)"
    by (rule reads_bind [OF kv(2)])
  from reads_bind [OF kv(1), where g = "\<lambda>k. rd_bind rv (\<lambda>v. read_entries rv (length es) (fmupd k v m))", OF this]
  show ?case by (simp add: e)
qed (simp add: reads_return)

lemma fmlookup_foldl_fmupd:
  "fmlookup (foldl (\<lambda>m (k, v). fmupd k v m) m es) x =
     (case map_of (rev es) x of None \<Rightarrow> fmlookup m x | Some v \<Rightarrow> Some v)"
  by (induction es arbitrary: m) (auto simp: map_add_def split: option.splits)

lemma foldl_hm_iter: "foldl (\<lambda>m (k, v). fmupd k v m) fmempty (hm_iter m) = m"
proof -
  have "map_of (rev (hm_iter m)) = map_of (hm_iter m)"
    using distinct_hm_iter [of m] by (subst map_of_inject_set) (simp_all add: rev_map [symmetric])
  then show ?thesis
    by (intro fmap_ext) (simp add: fmlookup_foldl_fmupd map_of_hm_iter split: option.splits)
qed

lemma reads_properties_with:
  assumes "fits_u32 (length (hm_iter m))"
    and "\<And>k v. fmlookup m k = Some v \<Longrightarrow> wf_string k \<and> reads rv (write_value v) v"
  shows "reads (read_properties_with rv) (write_properties m) m"
proof -
  have ws: "map (\<lambda>(k, b). write_string k @ b) (hm_iter (fmmap write_value m)) =
      map (\<lambda>(k, v). write_string k @ write_value v) (hm_iter m)"
    by (simp add: hm_iter_fmmap comp_def case_prod_unfold)
  have "reads (read_entries rv (length (hm_iter m)) fmempty)
      (concat (map (\<lambda>(k, v). write_string k @ write_value v) (hm_iter m))) m"
    using reads_entries [of "hm_iter m" rv fmempty] assms(2) by (simp add: foldl_hm_iter set_hm_iter)
  then show ?thesis
    unfolding read_properties_with_def write_properties_def write_entries_def ws
    by (intro reads_bind [OF reads_prim(2)]) (simp add: hm_iter_fmmap unat_of_nat_u32 [OF assms(1)])
qed

lemma length_value_pos: "0 < length (write_value v)"
  by (cases v) (simp_all add: write_u8_def)

lemma length_in_concat: "x \<in> set xs \<Longrightarrow> length (f x) \<le> length (concat (map f xs))"
  by (induction xs) auto

lemma length_map_entry:
  assumes "fmlookup m k = Some v"
  shows "length (write_value v) < length (write_value (V_Map m))"
proof -
  have "(k, write_value v) \<in> set (hm_iter (fmmap write_value m))"
    using assms by (simp add: set_hm_iter)
  from length_in_concat [OF this, of "\<lambda>(k, b). write_string k @ b"] show ?thesis
    by (simp add: write_u8_def write_entries_def)
qed

lemma wf_val_entry:
  assumes "wf_val (V_Map m)" and "fmlookup m k = Some v"
  shows "wf_string k \<and> wf_val v"
  using assms by (fastforce simp: list_all_iff set_hm_iter)

lemma reads_value_body_map:
  assumes "reads (read_properties_with rv) (write_properties m) m"
  shows "reads (read_value_body rv) (write_value (V_Map m)) (V_Map m)"
proof -
  have "reads (rd_bind (read_properties_with rv) (\<lambda>m. rd_return (V_Map m))) (write_properties m) (V_Map m)"
    by (rule reads_map [OF assms]) simp
  then have "reads (read_value_body rv) (write_u8 6 @ write_properties m) (V_Map m)"
    unfolding read_value_body_def by (intro reads_bind [OF reads_prim(1)]) simp
  then show ?thesis by (simp add: write_properties_def)
qed

lemma reads_value_body_leaf:
  assumes "wf_val v" and "\<And>m. v \<noteq> V_Map m"
  shows "reads (read_value_body rv) (write_value v) v"
proof -
  have bool: "reads (rd_bind read_u8 (\<lambda>b. rd_return (V_Bool (b \<noteq> 0)))) (write_u8 (of_bool b)) (V_Bool b)" for b
    by (rule reads_map [OF reads_prim(1)]) simp
  have vec: "reads (rd_bind read_u32 (\<lambda>len. rd_bind (rd_times (unat len) read_u32) (\<lambda>xs. rd_return (V_Vector xs))))
      (write_u32 (of_nat (length xs)) @ concat (map write_u32 xs)) (V_Vector xs)" if "fits_u32 (length xs)" for xs
    using reads_counted_bind [OF that reads_prim(2), where g = "\<lambda>xs. rd_return (V_Vector xs)", OF reads_return] by simp
  have prims: "reads (rd_bind read_i64 (\<lambda>i. rd_return (V_Int i))) (write_i64 i) (V_Int i)"
    "reads (rd_bind read_u64 (\<lambda>i. rd_return (V_Float i))) (write_u64 i) (V_Float i)"
    "wf_string s \<Longrightarrow> reads (rd_bind read_string (\<lambda>i. rd_return (V_String i))) (write_string s) (V_String s)" for i s
    by (rule reads_map [OF reads_prim(4)] reads_map [OF reads_prim(3)] reads_map [OF reads_string], simp_all)+
  have null: "reads (read_value_body rv) (write_u8 0) V_Null"
    unfolding read_value_body_def by (rule reads_map [OF reads_prim(1)]) simp
  show ?thesis
    by (cases v) (use assms null in \<open>auto simp: read_value_body_def intro!: reads_bind [OF reads_prim(1)] bool [of True, simplified] bool [of False, simplified] vec prims\<close>)
qed

lemma reads_value_fuel: "wf_val v \<Longrightarrow> length (write_value v) \<le> n \<Longrightarrow> reads (read_value_fuel n) (write_value v) v"
proof (induction n arbitrary: v)
  case 0
  then show ?case using length_value_pos [of v] by simp
next
  case (Suc n)
  show ?case
  proof (cases "\<exists>m. v = V_Map m")
    case True
    then obtain m where v: "v = V_Map m" by blast
    have "reads (read_properties_with (read_value_fuel n)) (write_properties m) m"
    proof (rule reads_properties_with)
      show "fits_u32 (length (hm_iter m))" using Suc.prems v by simp
      fix k u assume "fmlookup m k = Some u"
      with Suc v show "wf_string k \<and> reads (read_value_fuel n) (write_value u) u"
        using wf_val_entry [of m k u] length_map_entry [of m k u] by auto
    qed
    then show ?thesis unfolding v by (simp only: read_value_fuel.simps reads_value_body_map)
  next
    case False
    then show ?thesis using Suc.prems by (auto intro: reads_value_body_leaf)
  qed
qed

lemma reads_value [reads_intros]: "wf_val v \<Longrightarrow> reads read_value (write_value v) v"
  unfolding reads_def read_value_def
proof (intro allI impI)
  fix pre post :: bytes
  assume "wf_val v" and "length (pre @ write_value v @ post) < 2 ^ 64"
  moreover have "length (write_value v) \<le> bytes_left \<lparr>rd_input = pre @ write_value v @ post, rd_position = length pre\<rparr>"
    by (simp add: bytes_left_def)
  ultimately show "read_value_fuel (bytes_left \<lparr>rd_input = pre @ write_value v @ post, rd_position = length pre\<rparr>)
      \<lparr>rd_input = pre @ write_value v @ post, rd_position = length pre\<rparr> =
      Inr (v, \<lparr>rd_input = pre @ write_value v @ post, rd_position = length pre + length (write_value v)\<rparr>)"
    using reads_value_fuel [of v] unfolding reads_def by blast
qed

lemma reads_properties [reads_intros]:
  assumes "wf_props m"
  shows "reads read_properties (write_properties m) m"
  unfolding read_properties_def
proof (rule reads_properties_with)
  show "fits_u32 (length (hm_iter m))" using assms by (simp add: wf_props_def)
  fix k v assume "fmlookup m k = Some v"
  with wf_val_entry [OF assms [unfolded wf_props_def]] reads_value
  show "wf_string k \<and> reads read_value (write_value v) v" by blast
qed

subsection \<open>Commands\<close>

definition wf_table :: "shard_routing_table \<Rightarrow> bool" where
  "wf_table t \<longleftrightarrow> fits_u32 (length (table_placements t)) \<and>
     list_all (\<lambda>p. fits_u32 (length (placement_replicas p))) (table_placements t)"

fun wf_command :: "command \<Rightarrow> bool" where
  "wf_command (CreateNode nid labels props) =
     (fits_u32 (length labels) \<and> list_all wf_string labels \<and> wf_props props)"
| "wf_command (CreateRelationship rid from to ty props) = (wf_string ty \<and> wf_props props)"
| "wf_command (UpsertBoundaryNode nid owner labels props version) =
     (fits_u32 (length labels) \<and> list_all wf_string labels \<and> wf_props props)"
| "wf_command (SetNodeProperty nid key v) = (wf_string key \<and> wf_val v)"
| "wf_command (RemoveNodeProperty nid key) = wf_string key"
| "wf_command (AddNodeLabel nid label) = wf_string label"
| "wf_command (RemoveNodeLabel nid label) = wf_string label"
| "wf_command (SetRelationshipProperty rid key v) = (wf_string key \<and> wf_val v)"
| "wf_command (RemoveRelationshipProperty rid key) = wf_string key"
| "wf_command (DeleteRelationship rid) = True"
| "wf_command (DeleteNode nid) = True"
| "wf_command (ClusterConfigChange phase description voters table) =
     (wf_string phase \<and> wf_string description \<and> fits_u32 (length voters) \<and> wf_table table)"

lemma reads_replica: "reads read_replica (write_replica r) r"
  unfolding read_replica_def write_replica_def
  by (rule reads_bind [OF reads_prim(3)], rule reads_map [OF reads_prim(1)], cases r)
     (auto split: shard_role.split)

lemma reads_placement:
  assumes "fits_u32 (length (placement_replicas p))"
  shows "reads read_placement (write_placement p) p"
proof -
  have "reads (rd_bind read_u64 (\<lambda>shard. rd_bind read_u32 (\<lambda>len. rd_bind (rd_times (unat len) read_replica)
      (\<lambda>replicas. rd_return \<lparr>placement_shard_id = shard, placement_replicas = replicas\<rparr>))))
    (write_u64 (placement_shard_id p) @ write_u32 (of_nat (length (placement_replicas p))) @
     concat (map write_replica (placement_replicas p)) @ []) p"
    by (rule reads_bind [OF reads_prim(3)], rule reads_counted_bind [OF assms reads_replica])
       (cases p, simp add: reads_return)
  then show ?thesis by (simp add: read_placement_def write_placement_def)
qed

lemma reads_routing_table:
  assumes "wf_table t"
  shows "reads read_routing_table (write_routing_table t) t"
proof -
  have "reads (rd_bind read_u64 (\<lambda>version. rd_bind read_u32 (\<lambda>len. rd_bind (rd_times (unat len) read_placement)
      (\<lambda>placements. rd_return \<lparr>table_version = version, table_placements = placements\<rparr>))))
    (write_u64 (table_version t) @ write_u32 (of_nat (length (table_placements t))) @
     concat (map write_placement (table_placements t)) @ []) t"
    by (rule reads_bind [OF reads_prim(3)], rule reads_counted_bind [OF _ reads_placement])
       (use assms in \<open>simp_all add: wf_table_def list_all_iff\<close>, cases t, simp add: reads_return)
  then show ?thesis by (simp add: read_routing_table_def write_routing_table_def)
qed

text \<open>The tag selects the branch; the fields of the branch are then read in the order they were written.\<close>

lemmas reads_field = reads_bind [OF reads_prim(3)] reads_bind [OF reads_string] reads_bind [OF reads_strings]
  reads_bind [OF reads_properties] reads_bind [OF reads_value]

lemmas reads_last = reads_map [OF reads_prim(3)] reads_map [OF reads_string] reads_map [OF reads_properties]
  reads_map [OF reads_value] reads_map [OF reads_routing_table]

lemma reads_tag:
  assumes "reads (g tag) bs v"
  shows "reads (rd_bind read_u8 g) (write_u8 tag @ bs) v"
  by (rule reads_bind [OF reads_prim(1)]) (rule assms)

lemma reads_command:
  assumes "wf_command c"
  shows "reads read_command (encode_command c) c"
proof (cases c)
  case (ClusterConfigChange phase description voters table)
  have "reads (rd_bind read_u32 (\<lambda>len. rd_bind (rd_times (unat len) read_u64) (\<lambda>voters.
       rd_bind read_routing_table (\<lambda>table. rd_return (ClusterConfigChange phase description voters table)))))
      (write_u32 (of_nat (length voters)) @ concat (map write_u64 voters) @ write_routing_table table) c"
    using assms ClusterConfigChange
    by (intro reads_counted_bind [OF _ reads_prim(3)] reads_map [OF reads_routing_table]) simp_all
  then show ?thesis
    using assms unfolding ClusterConfigChange encode_command.simps read_command_def
    by (intro reads_tag) (simp, intro reads_bind [OF reads_string], simp_all)
qed (use assms in \<open>simp only: encode_command.simps read_command_def, intro reads_tag, simp,
      (intro reads_field reads_last; simp)?\<close>)+

lemma rd_run_reads:
  assumes "reads f bs v" and "length bs < 2 ^ 64"
  shows "rd_run f bs = Inr v"
  using assms(1) [unfolded reads_def, rule_format, of "[]" "[]"] assms(2)
  by (simp add: rd_run_def rd_bind_def new_reader_def finish_reader_def rd_return_def)

subsection \<open>Reading depends only on the bytes read\<close>

definition extend_input :: "bytes \<Rightarrow> reader \<Rightarrow> reader" where
  "extend_input post r = r\<lparr>rd_input := rd_input r @ post\<rparr>"

definition rd_stable :: "'a rd \<Rightarrow> bool" where
  "rd_stable f \<longleftrightarrow> (\<forall>r x r' post. f r = Inr (x, r') \<longrightarrow> f (extend_input post r) = Inr (x, extend_input post r'))"

lemma stable_basic: "rd_stable (rd_return x)" "rd_stable (rd_fail msg)" "rd_stable (read_exact n)"
  by (auto simp: rd_stable_def extend_input_def rd_return_def rd_fail_def read_exact_def Let_def split: if_splits)

lemma stable_bind:
  assumes "rd_stable f" and "\<And>x. rd_stable (g x)"
  shows "rd_stable (rd_bind f g)"
  unfolding rd_stable_def
proof (intro allI impI)
  fix r x r' post assume "rd_bind f g r = Inr (x, r')"
  then obtain y s where "f r = Inr (y, s)" "g y s = Inr (x, r')"
    by (auto simp: rd_bind_def split: sum.splits)
  then show "rd_bind f g (extend_input post r) = Inr (x, extend_input post r')"
    using assms(1) assms(2) [of y] unfolding rd_stable_def by (simp add: rd_bind_def)
qed

lemma stable_if: "rd_stable f \<Longrightarrow> rd_stable g \<Longrightarrow> rd_stable (if b then f else g)"
  by simp

lemma stable_times: "rd_stable f \<Longrightarrow> rd_stable (rd_times n f)"
  by (induction n) (auto intro: stable_bind stable_basic)

lemmas stable_intros = stable_bind stable_if stable_times stable_basic

lemma stable_reads: "rd_stable read_u8" "rd_stable read_u32" "rd_stable read_u64" "rd_stable read_i64"
  "rd_stable read_string" "rd_stable read_strings"
  unfolding read_u8_def read_u32_def read_u64_def read_i64_def read_string_def read_strings_def
  by (intro stable_intros)+

lemma stable_entries: "rd_stable rv \<Longrightarrow> rd_stable (read_entries rv n m)"
  by (induction n arbitrary: m) (auto intro: stable_intros stable_reads)

lemma stable_value_body: "rd_stable rv \<Longrightarrow> rd_stable (read_value_body rv)"
  unfolding read_value_body_def read_properties_with_def
  by (intro stable_intros stable_reads stable_entries)

lemma stable_value_fuel: "rd_stable (read_value_fuel n)"
  by (induction n) (auto intro: stable_value_body stable_basic)

lemma stable_value: "rd_stable read_value"
  unfolding rd_stable_def
proof (intro allI impI)
  fix r x r' post assume a: "read_value r = Inr (x, r')"
  have "read_value_fuel (bytes_left (extend_input post r)) r = Inr (x, r')"
    using a read_value_fuel_enough [of r "bytes_left r" "bytes_left (extend_input post r)"]
    by (simp add: read_value_def bytes_left_def extend_input_def)
  then show "read_value (extend_input post r) = Inr (x, extend_input post r')"
    using stable_value_fuel unfolding read_value_def rd_stable_def by blast
qed

lemma stable_properties: "rd_stable read_properties"
  unfolding read_properties_def read_properties_with_def
  by (intro stable_intros stable_reads stable_entries stable_value)

lemma stable_routing_table: "rd_stable read_routing_table"
  unfolding read_routing_table_def read_placement_def read_replica_def
  by (intro stable_intros stable_reads)

lemma stable_command: "rd_stable read_command"
  unfolding read_command_def
  by (intro stable_intros stable_reads stable_value stable_properties stable_routing_table)

text \<open>A stable reader that reads all of \<open>bs\<close> accepts no proper prefix of \<open>bs\<close>.\<close>

lemma rd_run_prefix:
  assumes "rd_stable f" and "reads f (p @ q) v" and "length (p @ q) < 2 ^ 64" and "q \<noteq> []"
  shows "rd_run f p \<noteq> Inr w"
proof
  assume "rd_run f p = Inr w"
  then obtain r' where r': "f (new_reader p) = Inr (w, r')" "rd_position r' = length (rd_input r')"
    by (auto simp: rd_run_def rd_bind_def finish_reader_def rd_return_def rbind_Inr_iff split: sum.splits if_splits)
  have "f (new_reader (p @ q)) = Inr (v, \<lparr>rd_input = p @ q, rd_position = length (p @ q)\<rparr>)"
    using assms(2) [unfolded reads_def, rule_format, of "[]" "[]"] assms(3) by (simp add: new_reader_def)
  moreover have "f (new_reader (p @ q)) = Inr (w, extend_input q r')"
    using assms(1) r'(1) unfolding rd_stable_def by (metis (no_types) extend_input_def new_reader_def reader.simps(1) reader.update_convs(1))
  ultimately have e: "extend_input q r' = \<lparr>rd_input = p @ q, rd_position = length (p @ q)\<rparr>" by simp
  have "rd_input r' @ q = p @ q" "rd_position r' = length (p @ q)"
    using arg_cong [OF e, of rd_input] arg_cong [OF e, of rd_position] by (simp_all add: extend_input_def)
  then show False using r'(2) assms(4) by simp
qed

lemma rd_run_trailing:
  assumes "reads f bs v" and "length (bs @ x # xs) < 2 ^ 64"
  shows "rd_run f (bs @ x # xs) = Inl (CorruptLog ''trailing bytes'')"
  using assms(1) [unfolded reads_def, rule_format, of "[]" "x # xs"] assms(2)
  by (simp add: rd_run_def rd_bind_def new_reader_def finish_reader_def)

lemma decode_command_ok:
  "wf_command c \<Longrightarrow> length (encode_command c) < 2 ^ 64 \<Longrightarrow> decode_command (encode_command c) = Inr c"
  unfolding decode_command_def by (rule rd_run_reads [OF reads_command])

section \<open>Properties of the codec\<close>

text \<open>
  C15. A command survives the log: decoding the encoding of any command returns that command. The
  hypotheses are the limits of the format: lengths are written as \<open>u32\<close>, strings are Rust strings
  (valid UTF-8), and the encoding fits in memory. Nested maps are covered at every depth.
\<close>

theorem decode_encode_command:
  assumes "wf_command c" and "length (encode_command c) < 2 ^ 64"
  shows "decode_command (encode_command c) = Inr c"
  by (rule decode_command_ok [OF assms])

definition sample_command :: command where
  "sample_command = CreateNode 7 [''Person'']
     (fmupd ''name'' (V_String ''Ada'') (fmupd ''m'' (V_Map (fmupd ''k'' (V_Int 3) fmempty)) fmempty))"

lemma sample_command_facts: "wf_command sample_command" "length (encode_command sample_command) = 67"
  by code_simp+

theorem decode_encode_command_witness:
  "decode_command (encode_command sample_command) = Inr sample_command"
  by (rule decode_encode_command) (simp_all add: sample_command_facts)

text \<open>
  C17. A damaged payload is never mistaken for a command: no proper prefix of an encoding decodes, and
  an encoding followed by further bytes is rejected with the trailing-bytes error.
\<close>

theorem decode_command_rejects_damage:
  assumes "wf_command c" and "encode_command c = p @ q" and "q \<noteq> []"
    and "length (encode_command c @ x # xs) < 2 ^ 64"
  shows "(\<exists>e. decode_command p = Inl e) \<and>
    decode_command (encode_command c @ x # xs) = Inl (CorruptLog ''trailing bytes'')"
proof -
  have "decode_command p \<noteq> Inr w" for w
    unfolding decode_command_def
    using assms(4) reads_command [OF assms(1)]
    by (intro rd_run_prefix [OF stable_command _ _ assms(3), of p c]) (simp_all add: assms(2))
  moreover have "decode_command (encode_command c @ x # xs) = Inl (CorruptLog ''trailing bytes'')"
    unfolding decode_command_def by (rule rd_run_trailing [OF reads_command [OF assms(1)] assms(4)])
  ultimately show ?thesis by (cases "decode_command p") auto
qed

theorem decode_command_rejects_damage_witness:
  "(\<exists>e. decode_command [6] = Inl e) \<and>
   decode_command (encode_command (DeleteNode 5) @ [0]) = Inl (CorruptLog ''trailing bytes'')"
  by (rule decode_command_rejects_damage [where q = "write_u64 5"])
     (simp_all add: write_u8_def write_u64_def to_be_u64_def be_bytes_def)

lemma reads_nested_command:
  assumes "wf_command c" and "fits_u32 (length (encode_command c))"
  shows "reads read_nested_command (write_u32 (of_nat (length (encode_command c))) @ encode_command c) c"
proof -
  have "decode_command (encode_command c) = Inr c"
    unfolding decode_command_def using assms(2)
    by (intro rd_run_reads [OF reads_command [OF assms(1)]]) (simp add: fits_u32_def)
  then have "reads (rd_bind (read_exact (length (encode_command c))) (\<lambda>bs r. case decode_command bs of
      Inl e \<Rightarrow> Inl e | Inr cmd \<Rightarrow> Inr (cmd, r))) (encode_command c) c"
    by (intro reads_map [OF reads_exact]) (simp_all add: rd_return_def)
  then show ?thesis
    unfolding read_nested_command_def
    by (intro reads_bind [OF reads_prim(2)]) (simp add: unat_of_nat_u32 [OF assms(2)])
qed

lemma length_magic [simp]: "length magic_v2 = 7" "length magic_v3 = 7"
  by (simp_all add: magic_v2_def magic_v3_def)

lemma magic_distinct [simp]: "magic_v2 \<noteq> magic_v3"
  by (simp add: magic_v2_def magic_v3_def)

lemma strip_magic:
  "strip_prefix magic_v3 (magic_v3 @ bs) = Some bs" "strip_prefix magic_v2 (magic_v2 @ bs) = Some bs"
  "strip_prefix magic_v3 (magic_v2 @ bs) = None"
  by (simp_all add: strip_prefix_def)

definition wf_entry :: "log_entry \<Rightarrow> bool" where
  "wf_entry e \<longleftrightarrow> wf_command (entry_command e) \<and> fits_u32 (length (encode_command (entry_command e)))"

lemma length_writes [simp]: "length (write_u8 a) = 1" "length (write_u32 b) = 4" "length (write_u64 c) = 8"
  "length (write_i64 d) = 8"
  by (simp_all add: write_u8_def write_u32_def write_u64_def write_i64_def)

lemma reads_entry_v3:
  assumes "wf_entry e"
  shows "reads read_entry_v3 (drop 7 (encode_log_entry e)) e"
proof -
  have e: "new_with_metadata (entry_shard_id e) (entry_term e) (entry_index e) (entry_origin_server_id e)
      (entry_config_version e) \<lparr>physical_ms = physical_ms (entry_timestamp e), logical = logical (entry_timestamp e)\<rparr>
      (entry_command e) = e"
    by (simp add: new_with_metadata_def)
  show ?thesis
    unfolding read_entry_v3_def encode_log_entry_def Let_def using assms
    by (simp, intro reads_bind [OF reads_prim(3)] reads_bind [OF reads_prim(2)])
       (rule reads_map [OF reads_nested_command], simp_all add: wf_entry_def e)
qed

lemma decode_encode_log_entry_ok:
  assumes "wf_entry e"
  shows "decode_log_entry (encode_log_entry e) = Inr e"
proof -
  have "encode_log_entry e = magic_v3 @ drop 7 (encode_log_entry e)"
    by (simp add: encode_log_entry_def Let_def)
  moreover have "decode_log_entry_v3 (drop 7 (encode_log_entry e)) = Inr e"
    unfolding decode_log_entry_v3_def
    by (rule rd_run_reads [OF reads_entry_v3 [OF assms]])
       (use assms in \<open>simp add: encode_log_entry_def Let_def wf_entry_def fits_u32_def\<close>)
  ultimately show ?thesis
    unfolding decode_log_entry_def by (metis option.simps(5) strip_magic(1))
qed

text \<open>
  C16. A log entry survives the log, with its shard, term, index, origin, configuration version and
  timestamp.
\<close>

theorem decode_encode_log_entry:
  assumes "wf_entry e"
  shows "decode_log_entry (encode_log_entry e) = Inr e"
  by (rule decode_encode_log_entry_ok [OF assms])

definition sample_entry :: log_entry where
  "sample_entry = new_with_metadata 1 2 3 4 5 \<lparr>physical_ms = 6, logical = 7\<rparr> sample_command"

theorem decode_encode_log_entry_witness: "decode_log_entry (encode_log_entry sample_entry) = Inr sample_entry"
  by (rule decode_encode_log_entry)
     (simp add: wf_entry_def sample_entry_def new_with_metadata_def sample_command_facts fits_u32_def)

text \<open>
  Entries written by the two earlier formats are still read: the second format without origin
  and configuration version, the first without timestamp as well; the missing fields are zero. The
  first format has no magic of its own, so its shard identifier must not spell one of the magics.
\<close>

lemma decode_legacy_log_entries:
  assumes "wf_command c" and "fits_u32 (length (encode_command c))"
    and "take 7 (write_u64 shard) \<noteq> magic_v2" and "take 7 (write_u64 shard) \<noteq> magic_v3"
  shows "decode_log_entry (magic_v2 @ write_u64 shard @ write_u64 trm @ write_u64 index @ write_u64 ms @ write_u32 lg @
       write_u32 (of_nat (length (encode_command c))) @ encode_command c) =
         Inr (new_with_metadata shard trm index 0 0 \<lparr>physical_ms = ms, logical = lg\<rparr> c)
    \<and> decode_log_entry (write_u64 shard @ write_u64 trm @ write_u64 index @
       write_u32 (of_nat (length (encode_command c))) @ encode_command c) =
         Inr (new_with_metadata shard trm index 0 0 timestamp_zero c)"
proof -
  note fits = assms(2) [unfolded fits_u32_def]
  have "reads read_entry_v2 (write_u64 shard @ write_u64 trm @ write_u64 index @ write_u64 ms @ write_u32 lg @
      write_u32 (of_nat (length (encode_command c))) @ encode_command c)
      (new_with_timestamp shard trm index \<lparr>physical_ms = ms, logical = lg\<rparr> c)"
    unfolding read_entry_v2_def
    by (intro reads_bind [OF reads_prim(3)] reads_bind [OF reads_prim(2)])
       (rule reads_map [OF reads_nested_command [OF assms(1,2)]], rule refl)
  from rd_run_reads [OF this] fits
  have v2: "decode_log_entry_v2 (write_u64 shard @ write_u64 trm @ write_u64 index @ write_u64 ms @ write_u32 lg @
      write_u32 (of_nat (length (encode_command c))) @ encode_command c) =
      Inr (new_with_timestamp shard trm index \<lparr>physical_ms = ms, logical = lg\<rparr> c)"
    by (simp add: decode_log_entry_v2_def)
  have "reads read_entry_v1 (write_u64 shard @ write_u64 trm @ write_u64 index @
      write_u32 (of_nat (length (encode_command c))) @ encode_command c) (new_log_entry shard trm index c)"
    unfolding read_entry_v1_def
    by (intro reads_bind [OF reads_prim(3)]) (rule reads_map [OF reads_nested_command [OF assms(1,2)]], rule refl)
  from rd_run_reads [OF this] fits
  have v1: "decode_log_entry_v1 (write_u64 shard @ write_u64 trm @ write_u64 index @
      write_u32 (of_nat (length (encode_command c))) @ encode_command c) = Inr (new_log_entry shard trm index c)"
    by (simp add: decode_log_entry_v1_def)
  show ?thesis
    using v1 v2 assms(3,4)
    by (simp add: decode_log_entry_def strip_magic strip_prefix_def new_with_timestamp_def new_log_entry_def)
qed

end
