(* ===== verification/Kv.thy ===== *)
theory Kv
  imports Codec "HOL-Library.Sublist"
begin

text \<open>
  The key-value layer of \<open>neo4r-storage/src/kv.rs\<close>: write batches, the trait \<open>KeyValueStore\<close> as a
  locale, and \<open>MemoryKvStore\<close> over a \<open>BTreeMap\<close> as its interpretation.
\<close>

section \<open>Write batches\<close>

datatype kv_write =
    KvPut bytes bytes
  | KvDelete bytes

record kv_write_batch =
  operations :: "kv_write list"

definition new_batch :: kv_write_batch where
  "new_batch = \<lparr>operations = []\<rparr>"

definition batch_put :: "bytes \<Rightarrow> bytes \<Rightarrow> kv_write_batch \<Rightarrow> kv_write_batch" where
  "batch_put key value b = b\<lparr>operations := operations b @ [KvPut key value]\<rparr>"

definition batch_delete :: "bytes \<Rightarrow> kv_write_batch \<Rightarrow> kv_write_batch" where
  "batch_delete key b = b\<lparr>operations := operations b @ [KvDelete key]\<rparr>"

definition batch_is_empty :: "kv_write_batch \<Rightarrow> bool" where
  "batch_is_empty b \<longleftrightarrow> operations b = []"

section \<open>The in-memory store\<close>

record memory_kv =
  kv_data :: "(bytes, bytes) fmap"

definition new_memory_kv :: memory_kv where
  "new_memory_kv = \<lparr>kv_data = fmempty\<rparr>"

definition kv_get :: "memory_kv \<Rightarrow> bytes \<Rightarrow> storage_error + bytes option" where
  "kv_get s key = Inr (fmlookup (kv_data s) key)"

definition kv_put :: "bytes \<Rightarrow> bytes \<Rightarrow> memory_kv \<Rightarrow> (storage_error + unit) \<times> memory_kv" where
  "kv_put key value s = (Inr (), s\<lparr>kv_data := fmupd key value (kv_data s)\<rparr>)"

definition kv_delete :: "bytes \<Rightarrow> memory_kv \<Rightarrow> (storage_error + unit) \<times> memory_kv" where
  "kv_delete key s = (Inr (), s\<lparr>kv_data := fmdrop key (kv_data s)\<rparr>)"

fun kv_apply_write :: "kv_write \<Rightarrow> (bytes, bytes) fmap \<Rightarrow> (bytes, bytes) fmap" where
  "kv_apply_write (KvPut key value) data = fmupd key value data"
| "kv_apply_write (KvDelete key) data = fmdrop key data"

definition kv_apply_writes :: "kv_write list \<Rightarrow> (bytes, bytes) fmap \<Rightarrow> (bytes, bytes) fmap" where
  "kv_apply_writes ops data = fold kv_apply_write ops data"

definition kv_write_batch :: "kv_write_batch \<Rightarrow> memory_kv \<Rightarrow> (storage_error + unit) \<times> memory_kv" where
  "kv_write_batch b s = (Inr (), s\<lparr>kv_data := kv_apply_writes (operations b) (kv_data s)\<rparr>)"

definition starts_with :: "bytes \<Rightarrow> bytes \<Rightarrow> bool" where
  "starts_with key p \<longleftrightarrow> take (length p) key = p"

text \<open>\<open>range(prefix..)\<close> on the ordered map, then \<open>take_while\<close>.\<close>

definition kv_scan_prefix :: "memory_kv \<Rightarrow> bytes \<Rightarrow> storage_error + (bytes \<times> bytes) list" where
  "kv_scan_prefix s p =
     Inr (takeWhile (\<lambda>(key, _). starts_with key p)
            (filter (\<lambda>(key, _). p \<le> key) (hm_iter (kv_data s))))"

section \<open>The interface\<close>

text \<open>What the last write to a key in a sequence leaves there.\<close>

fun last_write :: "kv_write list \<Rightarrow> bytes \<Rightarrow> bytes option option" where
  "last_write [] key = None"
| "last_write (op # ops) key =
     (case last_write ops key of
        Some v \<Rightarrow> Some v
      | None \<Rightarrow> (case op of KvPut k v \<Rightarrow> if k = key then Some (Some v) else None
                       | KvDelete k \<Rightarrow> if k = key then Some None else None))"

locale key_value_store =
  fixes view :: "'s \<Rightarrow> bytes \<Rightarrow> bytes option"
    and get :: "'s \<Rightarrow> bytes \<Rightarrow> 'e + bytes option"
    and put :: "bytes \<Rightarrow> bytes \<Rightarrow> 's \<Rightarrow> ('e + unit) \<times> 's"
    and delete :: "bytes \<Rightarrow> 's \<Rightarrow> ('e + unit) \<times> 's"
    and commit :: "kv_write_batch \<Rightarrow> 's \<Rightarrow> ('e + unit) \<times> 's"
    and scan :: "'s \<Rightarrow> bytes \<Rightarrow> 'e + (bytes \<times> bytes) list"
  assumes get_law: "get s k = Inr (view s k)"
    and put_law: "fst (put k v s) = Inr ()" "view (snd (put k v s)) = (view s)(k \<mapsto> v)"
    and delete_law: "fst (delete k s) = Inr ()" "view (snd (delete k s)) = (view s)(k := None)"
    and write_law: "fst (commit b s) = Inr ()"
      "view (snd (commit b s)) k = (case last_write (operations b) k of Some v \<Rightarrow> v | None \<Rightarrow> view s k)"
    and scan_law: "\<exists>kvs. scan s p = Inr kvs \<and> sorted (map fst kvs) \<and> distinct (map fst kvs) \<and>
      set kvs = {(k, v). view s k = Some v \<and> prefix p k}"
begin

lemma get_after_put: "get (snd (put k v s)) k' = (if k' = k then Inr (Some v) else get s k')"
  by (simp add: get_law put_law)

lemma get_after_delete: "get (snd (delete k s)) k' = (if k' = k then Inr None else get s k')"
  by (simp add: get_law delete_law)

text \<open>A batch of one operation is that operation.\<close>

lemma write_single:
  "view (snd (commit \<lparr>operations = [KvPut k v]\<rparr> s)) = view (snd (put k v s))"
  "view (snd (commit \<lparr>operations = [KvDelete k]\<rparr> s)) = view (snd (delete k s))"
  by (auto simp: write_law put_law delete_law)

text \<open>A scan finds a key exactly when a get does.\<close>

lemma scan_get:
  assumes "scan s p = Inr kvs" and "prefix p k"
  shows "(k, v) \<in> set kvs \<longleftrightarrow> get s k = Inr (Some v)"
  using scan_law [of s p] assms by (auto simp: get_law)

lemma scan_after_write:
  assumes "scan (snd (commit b s)) p = Inr kvs" and "last_write (operations b) k = Some (Some v)" and "prefix p k"
  shows "(k, v) \<in> set kvs"
  using scan_get [OF assms(1,3)] assms(2) by (simp add: get_law write_law)

end

section \<open>The in-memory store keeps the contract\<close>

lemma starts_with_prefix: "starts_with key p \<longleftrightarrow> prefix p key"
  unfolding starts_with_def by (metis append_eq_conv_conj append_take_drop_id prefix_def)

lemma fmlookup_apply_writes:
  "fmlookup (kv_apply_writes ops d) k = (case last_write ops k of Some v \<Rightarrow> v | None \<Rightarrow> fmlookup d k)"
  unfolding kv_apply_writes_def
proof (induction ops arbitrary: d)
  case (Cons op ops)
  then show ?case by (cases op) (auto split: option.splits)
qed simp

lemma prefix_le: "prefix p k \<Longrightarrow> p \<le> k" for p k :: bytes
proof (induction p arbitrary: k)
  case (Cons x xs)
  then show ?case by (cases k) auto
qed simp

text \<open>Between a prefix and a key that has it, every key has it.\<close>

lemma prefix_convex: "prefix p k \<Longrightarrow> p \<le> m \<Longrightarrow> m \<le> k \<Longrightarrow> prefix p m" for p k m :: bytes
proof (induction p arbitrary: k m)
  case (Cons x xs)
  then obtain k' where k: "k = x # k'" and "prefix xs k'" by (cases k) auto
  moreover obtain y m' where "m = y # m'" using Cons.prems by (cases m) auto
  ultimately show ?case using Cons by auto
qed simp

lemma takeWhile_eq_filter_sorted:
  assumes "sorted (map fst xs)" and "\<And>a b. P b \<Longrightarrow> a \<in> fst ` set xs \<Longrightarrow> a \<le> b \<Longrightarrow> P a"
  shows "takeWhile (\<lambda>(k, _). P k) xs = filter (\<lambda>(k, _). P k) xs"
  using assms
proof (induction xs)
  case (Cons x xs)
  show ?case
  proof (cases "P (fst x)")
    case True
    then show ?thesis using Cons by (auto simp: case_prod_unfold)
  next
    case False
    then have "filter (\<lambda>(k, _). P k) xs = []"
      using Cons.prems by (auto simp: filter_empty_conv)
    then show ?thesis using False by (simp add: case_prod_unfold)
  qed
qed simp

lemma kv_scan_prefix_filter:
  "kv_scan_prefix s p = Inr (filter (\<lambda>(key, _). prefix p key) (hm_iter (kv_data s)))"
proof -
  let ?xs = "filter (\<lambda>(key, _). p \<le> key) (hm_iter (kv_data s))"
  have "takeWhile (\<lambda>(key, _). starts_with key p) ?xs = filter (\<lambda>(key, _). starts_with key p) ?xs"
  proof (rule takeWhile_eq_filter_sorted)
    show "sorted (map fst ?xs)"
      using sorted_hm_iter [of "kv_data s"] by (simp add: sorted_map sorted_wrt_filter)
    fix a b assume "starts_with b p" "a \<in> fst ` set ?xs" "a \<le> b"
    then show "starts_with a p" by (auto simp: starts_with_prefix intro: prefix_convex)
  qed
  also have "\<dots> = filter (\<lambda>(key, _). prefix p key) (hm_iter (kv_data s))"
    by (auto simp: starts_with_prefix case_prod_unfold prefix_le intro: filter_cong)
  finally show ?thesis by (simp add: kv_scan_prefix_def)
qed

interpretation mem_kv: key_value_store "\<lambda>s. fmlookup (kv_data s)" kv_get kv_put kv_delete
    kv_write_batch kv_scan_prefix
proof unfold_locales
  fix s :: memory_kv and p
  have "sorted (map fst (filter (\<lambda>(key, _). prefix p key) (hm_iter (kv_data s))))"
    using sorted_hm_iter [of "kv_data s"] by (simp add: sorted_map sorted_wrt_filter)
  moreover have "distinct (map fst (filter (\<lambda>(key, _). prefix p key) (hm_iter (kv_data s))))"
    using distinct_hm_iter [of "kv_data s"] by (simp add: distinct_map_filter)
  ultimately show "\<exists>kvs. kv_scan_prefix s p = Inr kvs \<and> sorted (map fst kvs) \<and> distinct (map fst kvs) \<and>
      set kvs = {(k, v). fmlookup (kv_data s) k = Some v \<and> prefix p k}"
    by (auto simp: kv_scan_prefix_filter set_hm_iter)
qed (auto simp: kv_get_def kv_put_def kv_delete_def kv_write_batch_def fmlookup_apply_writes)

text \<open>
  A write batch is one update in which the last write to each key wins: after it, a get returns
  what the last operation on the key left, and keys the batch does not mention are unchanged.
\<close>

lemma write_batch_last_wins:
  "kv_get (snd (kv_write_batch b s)) k =
     Inr (case last_write (operations b) k of Some v \<Rightarrow> v | None \<Rightarrow> fmlookup (kv_data s) k)"
  using mem_kv.write_law(2) [of b s k] by (simp add: kv_get_def)

end
