(* ===== verification/Store_Keys.thy ===== *)
theory Store_Keys
  imports Kv
begin

text \<open>
  The key layout of \<open>neo4r-storage/src/graph_store.rs\<close>: ten families of keys, each a tag, fixed-width
  identifiers and length-prefixed components. The structured keys \<open>skey\<close> name what a key stands for;
  the layout is shown to be injective on them, and a scan prefix to select exactly its family.
\<close>

section \<open>Key functions\<close>

definition key_with_id :: "bytes \<Rightarrow> u64 \<Rightarrow> bytes" where
  "key_with_id p x = p @ as_bytes ''/'' @ to_be_u64 x"

definition key_prefix_with_id :: "bytes \<Rightarrow> u64 \<Rightarrow> bytes" where
  "key_prefix_with_id p x = key_with_id p x @ as_bytes ''/''"

definition push_component :: "bytes \<Rightarrow> bytes" where
  "push_component value = to_be_u32 (of_nat (length value)) @ value @ as_bytes ''/''"

definition key_entry :: "string \<times> bytes \<Rightarrow> bytes" where
  "key_entry = (\<lambda>(key, value). to_be_u32 (of_nat (length key)) @ as_bytes key @
     to_be_u32 (of_nat (length value)) @ value)"

primrec encode_value_for_key :: "val \<Rightarrow> bytes" where
  "encode_value_for_key V_Null = [0]"
| "encode_value_for_key (V_Bool b) = [1] @ [if b then 1 else 0]"
| "encode_value_for_key (V_Int i) = [2] @ to_be_u64 i"
| "encode_value_for_key (V_Float x) = [3] @ to_be_u64 x"
| "encode_value_for_key (V_String s) = [4] @ as_bytes s"
| "encode_value_for_key (V_Vector xs) =
     [5] @ to_be_u32 (of_nat (length xs)) @ concat (map to_be_u32 xs)"
| "encode_value_for_key (V_Map m) =
     (let entries = hm_iter (fmmap encode_value_for_key m)
      in [6] @ to_be_u32 (of_nat (length entries)) @ concat (map key_entry entries))"

definition node_key :: "node_id \<Rightarrow> bytes" where
  "node_key x = key_with_id (as_bytes ''n'') x"

definition node_prefix :: bytes where
  "node_prefix = as_bytes ''n/''"

definition boundary_node_key :: "node_id \<Rightarrow> bytes" where
  "boundary_node_key x = key_with_id (as_bytes ''bn'') x"

definition boundary_node_prefix :: bytes where
  "boundary_node_prefix = as_bytes ''bn/''"

definition relationship_key :: "relationship_id \<Rightarrow> bytes" where
  "relationship_key x = key_with_id (as_bytes ''r'') x"

definition relationship_prefix :: bytes where
  "relationship_prefix = as_bytes ''r/''"

definition outgoing_prefix :: "node_id \<Rightarrow> bytes" where
  "outgoing_prefix n = key_prefix_with_id (as_bytes ''out'') n"

definition outgoing_key :: "node_id \<Rightarrow> relationship_id \<Rightarrow> bytes" where
  "outgoing_key n r = outgoing_prefix n @ to_be_u64 r"

definition incoming_prefix :: "node_id \<Rightarrow> bytes" where
  "incoming_prefix n = key_prefix_with_id (as_bytes ''in'') n"

definition incoming_key :: "node_id \<Rightarrow> relationship_id \<Rightarrow> bytes" where
  "incoming_key n r = incoming_prefix n @ to_be_u64 r"

definition outgoing_type_prefix :: "node_id \<Rightarrow> string \<Rightarrow> bytes" where
  "outgoing_type_prefix n ty = key_prefix_with_id (as_bytes ''outt'') n @ push_component (as_bytes ty)"

definition outgoing_type_key :: "node_id \<Rightarrow> string \<Rightarrow> relationship_id \<Rightarrow> bytes" where
  "outgoing_type_key n ty r = outgoing_type_prefix n ty @ to_be_u64 r"

definition incoming_type_prefix :: "node_id \<Rightarrow> string \<Rightarrow> bytes" where
  "incoming_type_prefix n ty = key_prefix_with_id (as_bytes ''int'') n @ push_component (as_bytes ty)"

definition incoming_type_key :: "node_id \<Rightarrow> string \<Rightarrow> relationship_id \<Rightarrow> bytes" where
  "incoming_type_key n ty r = incoming_type_prefix n ty @ to_be_u64 r"

definition index_prefixes :: "bytes list" where
  "index_prefixes = [as_bytes ''l/'', as_bytes ''lp/'', as_bytes ''blp/'', as_bytes ''out/'',
     as_bytes ''outt/'', as_bytes ''in/'', as_bytes ''int/'']"

definition label_prefix :: "string \<Rightarrow> bytes" where
  "label_prefix l = as_bytes ''l/'' @ push_component (as_bytes l)"

definition label_key :: "string \<Rightarrow> node_id \<Rightarrow> bytes" where
  "label_key l x = label_prefix l @ to_be_u64 x"

definition label_property_prefix :: "string \<Rightarrow> string \<Rightarrow> val \<Rightarrow> bytes" where
  "label_property_prefix l pk v = as_bytes ''lp/'' @ push_component (as_bytes l) @
     push_component (as_bytes pk) @ push_component (encode_value_for_key v)"

definition label_property_key :: "string \<Rightarrow> string \<Rightarrow> val \<Rightarrow> node_id \<Rightarrow> bytes" where
  "label_property_key l pk v x = label_property_prefix l pk v @ to_be_u64 x"

definition boundary_label_property_prefix :: "string \<Rightarrow> string \<Rightarrow> val \<Rightarrow> bytes" where
  "boundary_label_property_prefix l pk v = as_bytes ''blp/'' @ push_component (as_bytes l) @
     push_component (as_bytes pk) @ push_component (encode_value_for_key v)"

definition boundary_label_property_key :: "string \<Rightarrow> string \<Rightarrow> val \<Rightarrow> node_id \<Rightarrow> bytes" where
  "boundary_label_property_key l pk v x = boundary_label_property_prefix l pk v @ to_be_u64 x"

section \<open>Splitting equal encodings\<close>

lemma prefix_same_length:
  "length a = length b \<Longrightarrow> prefix (a @ xs) (b @ ys) \<longleftrightarrow> a = b \<and> prefix xs ys"
  by (auto simp: prefix_def)

lemma prefix_u64: "prefix (to_be_u64 n @ xs) (to_be_u64 m @ ys) \<longleftrightarrow> n = m \<and> prefix xs ys"
  by (subst prefix_same_length) simp_all

lemma u32_length_inject:
  assumes "fits_u32 n" and "fits_u32 m"
  shows "(of_nat n :: u32) = of_nat m \<longleftrightarrow> n = m"
  by (metis assms unat_of_nat_u32)

lemma prefix_counted:
  assumes "fits_u32 (length a)" and "fits_u32 (length b)"
  shows "prefix (to_be_u32 (of_nat (length a)) @ a @ xs) (to_be_u32 (of_nat (length b)) @ b @ ys) \<longleftrightarrow>
    a = b \<and> prefix xs ys"
proof -
  have "prefix (to_be_u32 (of_nat (length a)) @ a @ xs) (to_be_u32 (of_nat (length b)) @ b @ ys) \<longleftrightarrow>
      length a = length b \<and> prefix (a @ xs) (b @ ys)"
    by (subst prefix_same_length) (simp_all add: u32_length_inject [OF assms])
  then show ?thesis using prefix_same_length [of a b xs ys] by blast
qed

lemma prefix_component:
  assumes "fits_u32 (length a)" and "fits_u32 (length b)"
  shows "prefix (push_component a @ xs) (push_component b @ ys) \<longleftrightarrow> a = b \<and> prefix xs ys"
  using prefix_counted [OF assms, of "as_bytes ''/'' @ xs" "as_bytes ''/'' @ ys"]
  by (simp add: push_component_def prefix_same_length)

lemma eq_counted:
  assumes "fits_u32 (length a)" and "fits_u32 (length b)"
    and "to_be_u32 (of_nat (length a)) @ a @ xs = to_be_u32 (of_nat (length b)) @ b @ ys"
  shows "a = b \<and> xs = ys"
proof -
  have "prefix (to_be_u32 (of_nat (length a)) @ a @ xs) (to_be_u32 (of_nat (length b)) @ b @ ys)"
    using assms(3) by simp
  then have "a = b" using prefix_counted [OF assms(1,2)] by simp
  then show ?thesis using assms(3) by simp
qed

lemma eq_u32:
  "to_be_u32 a @ xs = to_be_u32 b @ ys \<longleftrightarrow> a = b \<and> xs = ys"
  by (metis append_eq_append_conv length_to_be(1) to_be_inject(1))

section \<open>The value part of an index key\<close>

lemma fits_u32_mono: "fits_u32 n \<Longrightarrow> m \<le> n \<Longrightarrow> fits_u32 m"
  by (simp add: fits_u32_def)

lemma concat_u32_inject:
  "length xs = length ys \<Longrightarrow> concat (map to_be_u32 xs) = concat (map to_be_u32 ys) \<Longrightarrow> xs = ys"
  by (induction xs ys rule: list_induct2) (simp_all add: eq_u32)

lemma length_concat_u32: "length (concat (map to_be_u32 xs)) = 4 * length xs"
  by (induction xs) simp_all

lemma key_entry_inject:
  assumes "fits_u32 (length (key_entry e))" and "fits_u32 (length (key_entry e'))"
    and "key_entry e @ xs = key_entry e' @ ys"
  shows "e = e' \<and> xs = ys"
proof -
  obtain k v k' v' where e: "e = (k, v)" "e' = (k', v')" by (cases e, cases e') auto
  have fits: "fits_u32 (length k)" "fits_u32 (length v)" "fits_u32 (length k')" "fits_u32 (length v')"
    using assms(1,2) by (auto simp: e key_entry_def elim: fits_u32_mono)
  have "as_bytes k = as_bytes k' \<and> to_be_u32 (of_nat (length v)) @ v @ xs = to_be_u32 (of_nat (length v')) @ v' @ ys"
    using assms(3) fits by (intro eq_counted) (simp_all add: e key_entry_def)
  with eq_counted [OF fits(2,4), of xs ys] show ?thesis by (simp add: e)
qed

lemma concat_entries_inject:
  assumes "length es = length es'" and "concat (map key_entry es) = concat (map key_entry es')"
    and "fits_u32 (length (concat (map key_entry es)))"
  shows "es = es'"
  using assms
proof (induction es es' rule: list_induct2)
  case (Cons e es e' es')
  have "fits_u32 (length (key_entry e))" "fits_u32 (length (concat (map key_entry es)))"
    using Cons.prems(2) by (auto elim: fits_u32_mono)
  moreover have "fits_u32 (length (key_entry e'))"
    using Cons.prems(2) unfolding Cons.prems(1) by (auto elim: fits_u32_mono)
  ultimately show ?case
    using key_entry_inject [of e e' "concat (map key_entry es)" "concat (map key_entry es')"] Cons by simp
qed simp

lemma encode_value_length_entry:
  assumes "(k, v) \<in> set (hm_iter m)"
  shows "length (encode_value_for_key v) \<le> length (encode_value_for_key (V_Map m))"
proof -
  have "(k, encode_value_for_key v) \<in> set (hm_iter (fmmap encode_value_for_key m))"
    using assms by (simp add: set_hm_iter)
  from length_in_concat [OF this, of key_entry] show ?thesis
    by (simp add: Let_def key_entry_def)
qed

lemma hm_iter_inject: "hm_iter m = hm_iter m' \<Longrightarrow> m = m'"
  by (metis fmap_of_list_hm_iter)

lemma entries_length_le: "length es \<le> length (concat (map key_entry es))"
  by (induction es) (auto simp: key_entry_def)

lemma encode_value_for_key_inject:
  "encode_value_for_key v = encode_value_for_key w \<Longrightarrow> fits_u32 (length (encode_value_for_key v)) \<Longrightarrow> v = w"
proof (induction v arbitrary: w)
  case (V_Vector xs)
  then obtain ys where w: "w = V_Vector ys" by (cases w) (auto simp: Let_def)
  have eq: "to_be_u32 (of_nat (length xs)) @ concat (map to_be_u32 xs) =
      to_be_u32 (of_nat (length ys)) @ concat (map to_be_u32 ys)"
    using V_Vector.prems(1) w by simp
  then have "concat (map to_be_u32 xs) = concat (map to_be_u32 ys)" by (simp add: eq_u32)
  then have "length xs = length ys" by (metis length_concat_u32 nat_mult_eq_cancel1 zero_less_numeral)
  then show ?case using concat_u32_inject [of xs ys] \<open>concat _ = concat _\<close> w by simp
next
  case (V_Map m)
  then obtain m' where w: "w = V_Map m'" by (cases w) (auto simp: Let_def)
  let ?es = "hm_iter (fmmap encode_value_for_key m)" and ?es' = "hm_iter (fmmap encode_value_for_key m')"
  have eq: "of_nat (length ?es) = (of_nat (length ?es') :: u32)" "concat (map key_entry ?es) = concat (map key_entry ?es')"
    using V_Map.prems(1) w by (simp_all add: Let_def eq_u32)
  have f: "fits_u32 (length (concat (map key_entry ?es)))"
    using V_Map.prems(2) by (auto simp: Let_def elim: fits_u32_mono)
  then have "fits_u32 (length ?es)" "fits_u32 (length ?es')"
    using entries_length_le [of ?es] entries_length_le [of ?es'] eq(2) by (auto intro: fits_u32_mono)
  then have "length ?es = length ?es'" using eq(1) by (metis unat_of_nat_u32)
  from concat_entries_inject [OF this eq(2) f] have "fmmap encode_value_for_key m = fmmap encode_value_for_key m'"
    by (rule hm_iter_inject)
  then have look: "map_option encode_value_for_key (fmlookup m k) = map_option encode_value_for_key (fmlookup m' k)" for k
    by (metis fmlookup_map)
  have "fmlookup m k = fmlookup m' k" for k
  proof (cases "fmlookup m k")
    case (Some v)
    then have "v \<in> fmran' m" by (auto intro: fmran'I)
    moreover have "fits_u32 (length (encode_value_for_key v))"
      using encode_value_length_entry [of k v m] V_Map.prems(2) Some by (auto simp: set_hm_iter elim: fits_u32_mono)
    ultimately show ?thesis
      using V_Map.IH [of v] look [of k] Some by (cases "fmlookup m' k") auto
  qed (use look [of k] in auto)
  then show ?case using w by (simp add: fmap_ext)
qed (case_tac [!] w, auto simp: Let_def split: if_splits)

lemma encode_value_eq_iff:
  "fits_u32 (length (encode_value_for_key w)) \<Longrightarrow> encode_value_for_key v = encode_value_for_key w \<longleftrightarrow> v = w"
  using encode_value_for_key_inject [of v w] by metis

section \<open>Structured keys\<close>

datatype skey =
    SNode node_id
  | SBoundary node_id
  | SRel relationship_id
  | SOut node_id relationship_id
  | SOutT node_id string relationship_id
  | SIn node_id relationship_id
  | SInT node_id string relationship_id
  | SLabel string node_id
  | SLP string string val node_id
  | SBLP string string val node_id

fun enc_key :: "skey \<Rightarrow> bytes" where
  "enc_key (SNode x) = node_key x"
| "enc_key (SBoundary x) = boundary_node_key x"
| "enc_key (SRel r) = relationship_key r"
| "enc_key (SOut n r) = outgoing_key n r"
| "enc_key (SOutT n ty r) = outgoing_type_key n ty r"
| "enc_key (SIn n r) = incoming_key n r"
| "enc_key (SInT n ty r) = incoming_type_key n ty r"
| "enc_key (SLabel l x) = label_key l x"
| "enc_key (SLP l pk v x) = label_property_key l pk v x"
| "enc_key (SBLP l pk v x) = boundary_label_property_key l pk v x"

fun wf_key :: "skey \<Rightarrow> bool" where
  "wf_key (SOutT n ty r) = fits_u32 (length ty)"
| "wf_key (SInT n ty r) = fits_u32 (length ty)"
| "wf_key (SLabel l x) = fits_u32 (length l)"
| "wf_key (SLP l pk v x) =
     (fits_u32 (length l) \<and> fits_u32 (length pk) \<and> fits_u32 (length (encode_value_for_key v)))"
| "wf_key (SBLP l pk v x) =
     (fits_u32 (length l) \<and> fits_u32 (length pk) \<and> fits_u32 (length (encode_value_for_key v)))"
| "wf_key _ = True"

text \<open>A key is the tag of its family, with its slash, and a body.\<close>

fun key_tag :: "skey \<Rightarrow> string" where
  "key_tag (SNode x) = ''n/''"
| "key_tag (SBoundary x) = ''bn/''"
| "key_tag (SRel r) = ''r/''"
| "key_tag (SOut n r) = ''out/''"
| "key_tag (SOutT n ty r) = ''outt/''"
| "key_tag (SIn n r) = ''in/''"
| "key_tag (SInT n ty r) = ''int/''"
| "key_tag (SLabel l x) = ''l/''"
| "key_tag (SLP l pk v x) = ''lp/''"
| "key_tag (SBLP l pk v x) = ''blp/''"

fun key_body :: "skey \<Rightarrow> bytes" where
  "key_body (SNode x) = to_be_u64 x"
| "key_body (SBoundary x) = to_be_u64 x"
| "key_body (SRel r) = to_be_u64 r"
| "key_body (SOut n r) = to_be_u64 n @ as_bytes ''/'' @ to_be_u64 r"
| "key_body (SOutT n ty r) = to_be_u64 n @ as_bytes ''/'' @ push_component (as_bytes ty) @ to_be_u64 r"
| "key_body (SIn n r) = to_be_u64 n @ as_bytes ''/'' @ to_be_u64 r"
| "key_body (SInT n ty r) = to_be_u64 n @ as_bytes ''/'' @ push_component (as_bytes ty) @ to_be_u64 r"
| "key_body (SLabel l x) = push_component (as_bytes l) @ to_be_u64 x"
| "key_body (SLP l pk v x) = push_component (as_bytes l) @ push_component (as_bytes pk) @
     push_component (encode_value_for_key v) @ to_be_u64 x"
| "key_body (SBLP l pk v x) = push_component (as_bytes l) @ push_component (as_bytes pk) @
     push_component (encode_value_for_key v) @ to_be_u64 x"

lemma tag_bytes:
  "as_bytes ''n/'' = as_bytes ''n'' @ as_bytes ''/''" "as_bytes ''bn/'' = as_bytes ''bn'' @ as_bytes ''/''"
  "as_bytes ''r/'' = as_bytes ''r'' @ as_bytes ''/''" "as_bytes ''out/'' = as_bytes ''out'' @ as_bytes ''/''"
  "as_bytes ''outt/'' = as_bytes ''outt'' @ as_bytes ''/''" "as_bytes ''in/'' = as_bytes ''in'' @ as_bytes ''/''"
  "as_bytes ''int/'' = as_bytes ''int'' @ as_bytes ''/''"
  by (simp_all only: as_bytes_append [symmetric]) simp_all

lemmas key_defs = node_key_def boundary_node_key_def relationship_key_def outgoing_key_def
  outgoing_type_key_def incoming_key_def incoming_type_key_def label_key_def label_property_key_def
  boundary_label_property_key_def key_with_id_def key_prefix_with_id_def outgoing_prefix_def
  incoming_prefix_def outgoing_type_prefix_def incoming_type_prefix_def label_prefix_def
  label_property_prefix_def boundary_label_property_prefix_def

lemma enc_key_split: "enc_key k = as_bytes (key_tag k) @ key_body k"
  by (cases k) (simp_all only: enc_key.simps key_tag.simps key_body.simps key_defs tag_bytes append_assoc)

lemma tag_prefix: "prefix (as_bytes (key_tag k)) (enc_key k') \<longleftrightarrow> key_tag k = key_tag k'"
proof
  assume "prefix (as_bytes (key_tag k)) (enc_key k')"
  then show "key_tag k = key_tag k'"
    unfolding enc_key_split by (cases k; cases k') (simp_all add: as_bytes_def)
next
  assume "key_tag k = key_tag k'"
  then show "prefix (as_bytes (key_tag k)) (enc_key k')" by (simp add: enc_key_split)
qed

lemma tag_body_prefix:
  "prefix (as_bytes (key_tag k) @ b) (enc_key k') \<longleftrightarrow> key_tag k = key_tag k' \<and> prefix b (key_body k')"
proof -
  have "prefix (as_bytes (key_tag k) @ b) (enc_key k') \<Longrightarrow> key_tag k = key_tag k'"
    using tag_prefix [of k k'] append_prefixD by blast
  then show ?thesis by (auto simp: enc_key_split)
qed

lemma component_split:
  "fits_u32 (length a) \<Longrightarrow> fits_u32 (length b) \<Longrightarrow>
     push_component a @ xs = push_component b @ ys \<longleftrightarrow> a = b \<and> xs = ys"
  using prefix_component [of a b xs ys] by (metis prefix_order.eq_refl same_append_eq)

lemma component_inject:
  "fits_u32 (length a) \<Longrightarrow> fits_u32 (length b) \<Longrightarrow> push_component a = push_component b \<longleftrightarrow> a = b"
  using component_split [of a b "[]" "[]"] by simp

lemma u64_split: "to_be_u64 a @ xs = to_be_u64 b @ ys \<longleftrightarrow> a = b \<and> xs = ys"
  by (metis append_eq_append_conv length_to_be(2) to_be_inject(2))

lemma u64_split_end: "to_be_u64 a = to_be_u64 b @ ys \<longleftrightarrow> a = b \<and> ys = []"
  using u64_split [of a "[]" b ys] by auto

text \<open>Different structured keys never share bytes.\<close>

lemma enc_key_inject:
  assumes "wf_key k" and "wf_key k'" and "enc_key k = enc_key k'"
  shows "k = k'"
proof -
  have "key_tag k = key_tag k'" using tag_prefix [of k k'] assms(3) enc_key_split [of k] by (metis prefixI)
  moreover have "key_body k = key_body k'" using assms(3) calculation by (simp add: enc_key_split)
  ultimately show ?thesis using assms(1,2)
    by (cases k; cases k') (auto simp: component_split component_inject u64_split encode_value_eq_iff)
qed

section \<open>Key families\<close>

text \<open>
  A scan reads one family: the prefix \<open>pfx\<close> followed by the eight bytes of an identifier. \<open>fam\<close> gives
  the structured key of each identifier.
\<close>

locale key_family =
  fixes pfx :: bytes and fam :: "u64 \<Rightarrow> skey"
  assumes enc_fam: "enc_key (fam x) = pfx @ to_be_u64 x"
    and wf_fam: "wf_key (fam x)"
    and select: "wf_key k \<Longrightarrow> prefix pfx (enc_key k) \<longleftrightarrow> k \<in> range fam"
begin

lemma fam_inject: "fam x = fam y \<longleftrightarrow> x = y"
  by (metis enc_fam same_append_eq to_be_inject(2))

lemma fam_less: "enc_key (fam x) < enc_key (fam y) \<longleftrightarrow> x < y"
proof -
  have "(p @ a < p @ b) = (a < b)" for p a b :: bytes by (induction p) simp_all
  then show ?thesis by (simp add: enc_fam)
qed

end

lemma prefix_u64_end: "prefix (to_be_u64 n) (to_be_u64 m @ ys) \<longleftrightarrow> n = m"
  using prefix_u64 [of n "[]" m ys] by simp

lemma prefix_component_end:
  "fits_u32 (length a) \<Longrightarrow> fits_u32 (length b) \<Longrightarrow> prefix (push_component a) (push_component b @ ys) \<longleftrightarrow> a = b"
  using prefix_component [of a b "[]" ys] by simp

text \<open>The scan prefixes as tag and body.\<close>

lemma scan_prefix_split:
  "node_prefix = as_bytes (key_tag (SNode 0)) @ []"
  "boundary_node_prefix = as_bytes (key_tag (SBoundary 0)) @ []"
  "relationship_prefix = as_bytes (key_tag (SRel 0)) @ []"
  "outgoing_prefix n = as_bytes (key_tag (SOut 0 0)) @ to_be_u64 n @ as_bytes ''/''"
  "incoming_prefix n = as_bytes (key_tag (SIn 0 0)) @ to_be_u64 n @ as_bytes ''/''"
  "outgoing_type_prefix n ty = as_bytes (key_tag (SOutT 0 [] 0)) @ to_be_u64 n @ as_bytes ''/'' @ push_component (as_bytes ty)"
  "incoming_type_prefix n ty = as_bytes (key_tag (SInT 0 [] 0)) @ to_be_u64 n @ as_bytes ''/'' @ push_component (as_bytes ty)"
  "label_prefix l = as_bytes (key_tag (SLabel [] 0)) @ push_component (as_bytes l)"
  "label_property_prefix l pk v = as_bytes (key_tag (SLP [] [] V_Null 0)) @ push_component (as_bytes l) @
     push_component (as_bytes pk) @ push_component (encode_value_for_key v)"
  "boundary_label_property_prefix l pk v = as_bytes (key_tag (SBLP [] [] V_Null 0)) @ push_component (as_bytes l) @
     push_component (as_bytes pk) @ push_component (encode_value_for_key v)"
  by (simp_all only: key_tag.simps key_defs node_prefix_def boundary_node_prefix_def relationship_prefix_def
      tag_bytes append_assoc append_Nil2)

lemmas scan_select = scan_prefix_split tag_body_prefix prefix_u64 prefix_u64_end prefix_component
  prefix_component_end prefix_same_length

interpretation node_family: key_family node_prefix SNode
proof unfold_locales
  show "enc_key (SNode x) = node_prefix @ to_be_u64 x" for x by (simp add: enc_key_split node_prefix_def)
  show "wf_key (SNode x)" for x by simp
  show "wf_key k \<Longrightarrow> prefix node_prefix (enc_key k) \<longleftrightarrow> k \<in> range SNode" for k
    unfolding scan_prefix_split tag_body_prefix by (cases k) auto
qed

interpretation boundary_family: key_family boundary_node_prefix SBoundary
proof unfold_locales
  show "enc_key (SBoundary x) = boundary_node_prefix @ to_be_u64 x" for x
    by (simp add: enc_key_split boundary_node_prefix_def)
  show "wf_key (SBoundary x)" for x by simp
  show "wf_key k \<Longrightarrow> prefix boundary_node_prefix (enc_key k) \<longleftrightarrow> k \<in> range SBoundary" for k
    unfolding scan_prefix_split tag_body_prefix by (cases k) auto
qed

interpretation relationship_family: key_family relationship_prefix SRel
proof unfold_locales
  show "enc_key (SRel x) = relationship_prefix @ to_be_u64 x" for x
    by (simp add: enc_key_split relationship_prefix_def)
  show "wf_key (SRel x)" for x by simp
  show "wf_key k \<Longrightarrow> prefix relationship_prefix (enc_key k) \<longleftrightarrow> k \<in> range SRel" for k
    unfolding scan_prefix_split tag_body_prefix by (cases k) auto
qed

interpretation outgoing_family: key_family "outgoing_prefix n" "SOut n" for n
proof unfold_locales
  show "enc_key (SOut n x) = outgoing_prefix n @ to_be_u64 x" for x by (simp add: outgoing_key_def)
  show "wf_key (SOut n x)" for x by simp
  show "wf_key k \<Longrightarrow> prefix (outgoing_prefix n) (enc_key k) \<longleftrightarrow> k \<in> range (SOut n)" for k
    unfolding scan_prefix_split tag_body_prefix by (cases k) (auto simp: prefix_u64)
qed

interpretation incoming_family: key_family "incoming_prefix n" "SIn n" for n
proof unfold_locales
  show "enc_key (SIn n x) = incoming_prefix n @ to_be_u64 x" for x by (simp add: incoming_key_def)
  show "wf_key (SIn n x)" for x by simp
  show "wf_key k \<Longrightarrow> prefix (incoming_prefix n) (enc_key k) \<longleftrightarrow> k \<in> range (SIn n)" for k
    unfolding scan_prefix_split tag_body_prefix by (cases k) (auto simp: prefix_u64)
qed

text \<open>The families with components: the laws hold when the scanned component fits.\<close>

lemma outgoing_type_family: "fits_u32 (length ty) \<Longrightarrow> key_family (outgoing_type_prefix n ty) (SOutT n ty)"
proof unfold_locales
  show "enc_key (SOutT n ty x) = outgoing_type_prefix n ty @ to_be_u64 x" for x by (simp add: outgoing_type_key_def)
  show "fits_u32 (length ty) \<Longrightarrow> wf_key (SOutT n ty x)" for x by simp
  show "fits_u32 (length ty) \<Longrightarrow> wf_key k \<Longrightarrow> prefix (outgoing_type_prefix n ty) (enc_key k) \<longleftrightarrow> k \<in> range (SOutT n ty)" for k
    unfolding scan_prefix_split tag_body_prefix by (cases k) (auto simp: prefix_u64 prefix_component_end)
qed

lemma incoming_type_family: "fits_u32 (length ty) \<Longrightarrow> key_family (incoming_type_prefix n ty) (SInT n ty)"
proof unfold_locales
  show "enc_key (SInT n ty x) = incoming_type_prefix n ty @ to_be_u64 x" for x by (simp add: incoming_type_key_def)
  show "fits_u32 (length ty) \<Longrightarrow> wf_key (SInT n ty x)" for x by simp
  show "fits_u32 (length ty) \<Longrightarrow> wf_key k \<Longrightarrow> prefix (incoming_type_prefix n ty) (enc_key k) \<longleftrightarrow> k \<in> range (SInT n ty)" for k
    unfolding scan_prefix_split tag_body_prefix by (cases k) (auto simp: prefix_u64 prefix_component_end)
qed

lemma label_family: "fits_u32 (length l) \<Longrightarrow> key_family (label_prefix l) (SLabel l)"
proof unfold_locales
  show "enc_key (SLabel l x) = label_prefix l @ to_be_u64 x" for x by (simp add: label_key_def)
  show "fits_u32 (length l) \<Longrightarrow> wf_key (SLabel l x)" for x by simp
  show "fits_u32 (length l) \<Longrightarrow> wf_key k \<Longrightarrow> prefix (label_prefix l) (enc_key k) \<longleftrightarrow> k \<in> range (SLabel l)" for k
    unfolding scan_prefix_split tag_body_prefix by (cases k) (auto simp: prefix_component_end)
qed

lemma lp_family:
  assumes "fits_u32 (length l)" "fits_u32 (length pk)" "fits_u32 (length (encode_value_for_key v))"
  shows "key_family (label_property_prefix l pk v) (SLP l pk v)"
proof unfold_locales
  show "enc_key (SLP l pk v x) = label_property_prefix l pk v @ to_be_u64 x" for x
    by (simp add: label_property_key_def)
  show "wf_key (SLP l pk v x)" for x using assms by simp
  show "wf_key k \<Longrightarrow> prefix (label_property_prefix l pk v) (enc_key k) \<longleftrightarrow> k \<in> range (SLP l pk v)" for k
    unfolding scan_prefix_split tag_body_prefix using assms
    by (cases k) (auto simp: prefix_component prefix_component_end encode_value_eq_iff)
qed

lemma blp_family:
  assumes "fits_u32 (length l)" "fits_u32 (length pk)" "fits_u32 (length (encode_value_for_key v))"
  shows "key_family (boundary_label_property_prefix l pk v) (SBLP l pk v)"
proof unfold_locales
  show "enc_key (SBLP l pk v x) = boundary_label_property_prefix l pk v @ to_be_u64 x" for x
    by (simp add: boundary_label_property_key_def)
  show "wf_key (SBLP l pk v x)" for x using assms by simp
  show "wf_key k \<Longrightarrow> prefix (boundary_label_property_prefix l pk v) (enc_key k) \<longleftrightarrow> k \<in> range (SBLP l pk v)" for k
    unfolding scan_prefix_split tag_body_prefix using assms
    by (cases k) (auto simp: prefix_component prefix_component_end encode_value_eq_iff)
qed

end
