(* ===== verification/Posting_Index.thy ===== *)
theory Posting_Index
  imports Prelude
begin

text \<open>
  The contract of a secondary index: a posting list of record identifiers for every key, kept by
  adding a record's keys when the record is stored and deleting them when it is replaced or
  removed. The graph's label, label-property and boundary indexes are interpretations of it.
\<close>

definition posting_coherent ::
  "('r \<Rightarrow> 'k set) \<Rightarrow> ('ix \<Rightarrow> 'k \<Rightarrow> u64 fset) \<Rightarrow> (u64, 'r) fmap \<Rightarrow> 'ix \<Rightarrow> bool" where
  "posting_coherent keys lk recs ix \<longleftrightarrow>
     (\<forall>k x. x |\<in>| lk ix k \<longleftrightarrow> (\<exists>r. fmlookup recs x = Some r \<and> k \<in> keys r))"

lemma posting_coherentI:
  "(\<And>k x. x |\<in>| lk ix k \<longleftrightarrow> (\<exists>r. fmlookup recs x = Some r \<and> k \<in> keys r))
     \<Longrightarrow> posting_coherent keys lk recs ix"
  by (simp add: posting_coherent_def)

lemma posting_coherentD:
  "posting_coherent keys lk recs ix \<Longrightarrow>
     x |\<in>| lk ix k \<longleftrightarrow> (\<exists>r. fmlookup recs x = Some r \<and> k \<in> keys r)"
  by (simp add: posting_coherent_def)

locale posting_index =
  fixes keys :: "'r \<Rightarrow> 'k set"
    and rid :: "'r \<Rightarrow> u64"
    and add :: "'r \<Rightarrow> 'ix \<Rightarrow> 'ix"
    and del :: "'r \<Rightarrow> 'ix \<Rightarrow> 'ix"
    and lk :: "'ix \<Rightarrow> 'k \<Rightarrow> u64 fset"
  assumes lk_add: "lk (add r ix) k = (if k \<in> keys r then finsert (rid r) (lk ix k) else lk ix k)"
    and lk_del: "lk (del r ix) k = (if k \<in> keys r then lk ix k |-| {|rid r|} else lk ix k)"
begin

lemma coherent_delete:
  assumes "posting_coherent keys lk recs ix" and "fmlookup recs x = Some r" and "rid r = x"
  shows "posting_coherent keys lk (fmdrop x recs) (del r ix)"
  using assms by (intro posting_coherentI) (auto simp: lk_del posting_coherentD [OF assms(1)])

lemma coherent_insert:
  assumes "posting_coherent keys lk recs ix" and "fmlookup recs x = None" and "rid r = x"
  shows "posting_coherent keys lk (fmupd x r recs) (add r ix)"
  using assms by (intro posting_coherentI) (auto simp: lk_add posting_coherentD [OF assms(1)])

lemma coherent_replace:
  assumes "posting_coherent keys lk recs ix" and "fmlookup recs x = Some old"
    and "rid old = x" and "rid r = x"
  shows "posting_coherent keys lk (fmupd x r recs) (add r (del old ix))"
proof -
  have "posting_coherent keys lk (fmupd x r (fmdrop x recs)) (add r (del old ix))"
    using assms by (intro coherent_insert coherent_delete) auto
  moreover have "fmupd x r (fmdrop x recs) = fmupd x r recs"
    by (rule fmap_ext) simp
  ultimately show ?thesis by simp
qed

lemma sorted_lookup:
  assumes "posting_coherent keys lk recs ix"
  shows "sorted (sorted_list_of_fset (lk ix k))" and "distinct (sorted_list_of_fset (lk ix k))"
    and "set (sorted_list_of_fset (lk ix k)) = {x. \<exists>r. fmlookup recs x = Some r \<and> k \<in> keys r}"
proof -
  show "sorted (sorted_list_of_fset (lk ix k))" "distinct (sorted_list_of_fset (lk ix k))"
    by (simp_all add: sorted_list_of_fset.rep_eq)
  have "set (sorted_list_of_fset (lk ix k)) = {x. x |\<in>| lk ix k}"
    by (simp add: sorted_list_of_fset.rep_eq)
  then show "set (sorted_list_of_fset (lk ix k)) = {x. \<exists>r. fmlookup recs x = Some r \<and> k \<in> keys r}"
    by (simp only: posting_coherentD [OF assms])
qed

end

end
