(* ===== verification/Graph.thy ===== *)
theory Graph
  imports Core_Model Posting_Index "HOL-Library.Multiset"
begin

text \<open>
  The in-memory property graph, \<open>neo4r-core/src/graph.rs\<close>: \<open>GraphState\<close> with its secondary indexes,
  its read operations, and \<open>apply\<close>, the step of the replicated state machine. A mutating operation
  takes the state and returns the result together with the new state, because a Rust method that
  returns an error may have changed \<open>self\<close> before.
\<close>

section \<open>State\<close>

record label_property_key =
  lpk_label :: string
  lpk_property_key :: string
  lpk_property_value :: val_key

definition new_label_property_key :: "string \<Rightarrow> string \<Rightarrow> val_key \<Rightarrow> label_property_key" where
  "new_label_property_key label pk pv =
     \<lparr>lpk_label = label, lpk_property_key = pk, lpk_property_value = pv\<rparr>"

record relationship_type_key =
  rtk_node_id :: node_id
  rtk_rel_type :: string

definition new_relationship_type_key :: "node_id \<Rightarrow> string \<Rightarrow> relationship_type_key" where
  "new_relationship_type_key nid ty = \<lparr>rtk_node_id = nid, rtk_rel_type = ty\<rparr>"

record graph_indexes =
  label_nodes :: "(string, node_id fset) fmap"
  label_property_nodes :: "(label_property_key, node_id fset) fmap"
  boundary_label_property_nodes :: "(label_property_key, node_id fset) fmap"
  ix_outgoing_by_type :: "(relationship_type_key, relationship_id list) fmap"
  ix_incoming_by_type :: "(relationship_type_key, relationship_id list) fmap"

record graph_state =
  nodes :: "(node_id, node) fmap"
  boundary_nodes :: "(node_id, boundary_node) fmap"
  relationships :: "(relationship_id, relationship) fmap"
  outgoing :: "(node_id, relationship_id list) fmap"
  incoming :: "(node_id, relationship_id list) fmap"
  indexes :: graph_indexes
  next_node_id :: node_id
  next_relationship_id :: relationship_id

definition empty_indexes :: graph_indexes where
  "empty_indexes = \<lparr>label_nodes = fmempty, label_property_nodes = fmempty,
     boundary_label_property_nodes = fmempty, ix_outgoing_by_type = fmempty,
     ix_incoming_by_type = fmempty\<rparr>"

definition new_graph :: graph_state where
  "new_graph = \<lparr>nodes = fmempty, boundary_nodes = fmempty, relationships = fmempty,
     outgoing = fmempty, incoming = fmempty, indexes = empty_indexes,
     next_node_id = 0, next_relationship_id = 0\<rparr>"

section \<open>Index maintenance\<close>

text \<open>
  The loops over a node's properties take the enumeration \<open>es\<close> of the property map as an argument;
  the operations use \<open>hm_iter\<close>.
\<close>

definition index_node_label ::
  "(string \<times> val) list \<Rightarrow> node_id \<Rightarrow> string \<Rightarrow> graph_indexes \<Rightarrow> graph_indexes" where
  "index_node_label es nid label ix =
     fold (\<lambda>(pk, pv) ix. ix\<lparr>label_property_nodes :=
             entry_insert (new_label_property_key label pk (value_key pv)) nid
               (label_property_nodes ix)\<rparr>)
       es (ix\<lparr>label_nodes := entry_insert label nid (label_nodes ix)\<rparr>)"

definition index_node_with :: "(string \<times> val) list \<Rightarrow> node \<Rightarrow> graph_indexes \<Rightarrow> graph_indexes" where
  "index_node_with es n ix = fold (index_node_label es (node_id n)) (node_labels n) ix"

definition index_node :: "node \<Rightarrow> graph_indexes \<Rightarrow> graph_indexes" where
  "index_node n ix = index_node_with (hm_iter (node_properties n)) n ix"

definition remove_node_index_label ::
  "(string \<times> val) list \<Rightarrow> node_id \<Rightarrow> string \<Rightarrow> graph_indexes \<Rightarrow> graph_indexes" where
  "remove_node_index_label es nid label ix =
     fold (\<lambda>(pk, pv) ix. ix\<lparr>label_property_nodes :=
             entry_remove (new_label_property_key label pk (value_key pv)) nid
               (label_property_nodes ix)\<rparr>)
       es (ix\<lparr>label_nodes := entry_remove label nid (label_nodes ix)\<rparr>)"

definition remove_node_index_with ::
  "(string \<times> val) list \<Rightarrow> node \<Rightarrow> graph_indexes \<Rightarrow> graph_indexes" where
  "remove_node_index_with es n ix = fold (remove_node_index_label es (node_id n)) (node_labels n) ix"

definition remove_node_index :: "node \<Rightarrow> graph_indexes \<Rightarrow> graph_indexes" where
  "remove_node_index n ix = remove_node_index_with (hm_iter (node_properties n)) n ix"

definition index_boundary_node_label ::
  "(string \<times> val) list \<Rightarrow> node_id \<Rightarrow> string \<Rightarrow> graph_indexes \<Rightarrow> graph_indexes" where
  "index_boundary_node_label es nid label ix =
     fold (\<lambda>(pk, pv) ix. ix\<lparr>boundary_label_property_nodes :=
             entry_insert (new_label_property_key label pk (value_key pv)) nid
               (boundary_label_property_nodes ix)\<rparr>) es ix"

definition index_boundary_node :: "boundary_node \<Rightarrow> graph_indexes \<Rightarrow> graph_indexes" where
  "index_boundary_node n ix =
     fold (index_boundary_node_label (hm_iter (bn_properties n)) (bn_id n)) (bn_labels n) ix"

definition remove_boundary_node_index_label ::
  "(string \<times> val) list \<Rightarrow> node_id \<Rightarrow> string \<Rightarrow> graph_indexes \<Rightarrow> graph_indexes" where
  "remove_boundary_node_index_label es nid label ix =
     fold (\<lambda>(pk, pv) ix. ix\<lparr>boundary_label_property_nodes :=
             entry_remove (new_label_property_key label pk (value_key pv)) nid
               (boundary_label_property_nodes ix)\<rparr>) es ix"

definition remove_boundary_node_index :: "boundary_node \<Rightarrow> graph_indexes \<Rightarrow> graph_indexes" where
  "remove_boundary_node_index n ix =
     fold (remove_boundary_node_index_label (hm_iter (bn_properties n)) (bn_id n)) (bn_labels n) ix"

definition index_relationship :: "relationship \<Rightarrow> bool \<Rightarrow> graph_indexes \<Rightarrow> graph_indexes" where
  "index_relationship r has_local_to ix =
     (let ix' = ix\<lparr>ix_outgoing_by_type :=
                  entry_push (new_relationship_type_key (rel_from r) (rel_type r)) (rel_id r)
                    (ix_outgoing_by_type ix)\<rparr>
      in if has_local_to
         then ix'\<lparr>ix_incoming_by_type :=
                entry_push (new_relationship_type_key (rel_to r) (rel_type r)) (rel_id r)
                  (ix_incoming_by_type ix')\<rparr>
         else ix')"

definition remove_relationship_index :: "relationship \<Rightarrow> bool \<Rightarrow> graph_indexes \<Rightarrow> graph_indexes" where
  "remove_relationship_index r has_local_to ix =
     (let ix' = ix\<lparr>ix_outgoing_by_type :=
                  entry_retain (new_relationship_type_key (rel_from r) (rel_type r)) (rel_id r)
                    (ix_outgoing_by_type ix)\<rparr>
      in if has_local_to
         then ix'\<lparr>ix_incoming_by_type :=
                entry_retain (new_relationship_type_key (rel_to r) (rel_type r)) (rel_id r)
                  (ix_incoming_by_type ix')\<rparr>
         else ix')"

section \<open>Reads\<close>

definition ensure_node_exists :: "node_id \<Rightarrow> graph_state \<Rightarrow> graph_error + unit" where
  "ensure_node_exists nid g =
     (if nid |\<in>| fmdom (nodes g) then Inr () else Inl (NodeNotFound nid))"

definition sorted_ids :: "node_id fset option \<Rightarrow> node_id list" where
  "sorted_ids ids = (case ids of None \<Rightarrow> [] | Some s \<Rightarrow> sorted_list_of_fset s)"

definition node_ids :: "graph_state \<Rightarrow> node_id list" where
  "node_ids g = sorted_list_of_fset (fmdom (nodes g))"

definition node_ids_by_label :: "graph_state \<Rightarrow> string \<Rightarrow> node_id list" where
  "node_ids_by_label g label = sorted_ids (fmlookup (label_nodes (indexes g)) label)"

definition node_ids_by_label_property :: "graph_state \<Rightarrow> string \<Rightarrow> string \<Rightarrow> val \<Rightarrow> node_id list" where
  "node_ids_by_label_property g label pk pv =
     sorted_ids (fmlookup (label_property_nodes (indexes g))
                   (new_label_property_key label pk (value_key pv)))"

definition boundary_node_ids_by_label_property ::
  "graph_state \<Rightarrow> string \<Rightarrow> string \<Rightarrow> val \<Rightarrow> node_id list" where
  "boundary_node_ids_by_label_property g label pk pv =
     sorted_ids (fmlookup (boundary_label_property_nodes (indexes g))
                   (new_label_property_key label pk (value_key pv)))"

definition node_count :: "graph_state \<Rightarrow> nat" where
  "node_count g = fcard (fmdom (nodes g))"

definition relationship_count :: "graph_state \<Rightarrow> nat" where
  "relationship_count g = fcard (fmdom (relationships g))"

definition outgoing_rels :: "graph_state \<Rightarrow> node_id \<Rightarrow> graph_error + relationship list" where
  "outgoing_rels g nid = rbind (ensure_node_exists nid g) (\<lambda>_.
     Inr (List.map_filter (fmlookup (relationships g)) (look_list (outgoing g) nid)))"

definition outgoing_by_type ::
  "graph_state \<Rightarrow> node_id \<Rightarrow> string \<Rightarrow> graph_error + relationship list" where
  "outgoing_by_type g nid ty = rbind (ensure_node_exists nid g) (\<lambda>_.
     Inr (List.map_filter (fmlookup (relationships g))
       (look_list (ix_outgoing_by_type (indexes g)) (new_relationship_type_key nid ty))))"

definition incoming_rels :: "graph_state \<Rightarrow> node_id \<Rightarrow> graph_error + relationship list" where
  "incoming_rels g nid = rbind (ensure_node_exists nid g) (\<lambda>_.
     Inr (List.map_filter (fmlookup (relationships g)) (look_list (incoming g) nid)))"

definition incoming_by_type ::
  "graph_state \<Rightarrow> node_id \<Rightarrow> string \<Rightarrow> graph_error + relationship list" where
  "incoming_by_type g nid ty = rbind (ensure_node_exists nid g) (\<lambda>_.
     Inr (List.map_filter (fmlookup (relationships g))
       (look_list (ix_incoming_by_type (indexes g)) (new_relationship_type_key nid ty))))"

section \<open>Writes\<close>

text \<open>
  \<open>self.next_node_id += 1\<close> wraps at \<open>u64::MAX\<close> in a release build, as \<open>+\<close> on words does.
\<close>

definition allocate_node_id :: "graph_state \<Rightarrow> node_id \<times> graph_state" where
  "allocate_node_id g = (next_node_id g, g\<lparr>next_node_id := next_node_id g + 1\<rparr>)"

definition allocate_relationship_id :: "graph_state \<Rightarrow> relationship_id \<times> graph_state" where
  "allocate_relationship_id g =
     (next_relationship_id g, g\<lparr>next_relationship_id := next_relationship_id g + 1\<rparr>)"

type_synonym graph_result = "(graph_error + unit) \<times> graph_state"

definition create_node ::
  "node_id \<Rightarrow> string list \<Rightarrow> properties \<Rightarrow> graph_state \<Rightarrow> graph_result" where
  "create_node nid labels props g =
     (if nid |\<in>| fmdom (nodes g) then (Inl (NodeAlreadyExists nid), g)
      else let n = new_node nid labels props
           in (Inr (), g\<lparr>next_node_id := max (next_node_id g) (saturating_add nid 1),
                         indexes := index_node n (indexes g),
                         nodes := fmupd nid n (nodes g),
                         outgoing := entry_default nid (outgoing g),
                         incoming := entry_default nid (incoming g)\<rparr>))"

definition create_relationship ::
  "relationship_id \<Rightarrow> node_id \<Rightarrow> node_id \<Rightarrow> string \<Rightarrow> properties \<Rightarrow> graph_state \<Rightarrow> graph_result" where
  "create_relationship rid from to ty props g =
     (if rid |\<in>| fmdom (relationships g) then (Inl (RelationshipAlreadyExists rid), g)
      else if from |\<notin>| fmdom (nodes g) then (Inl (RelationshipEndpointNotFound rid from), g)
      else let r = new_relationship rid from to ty props in
        if to |\<notin>| fmdom (nodes g) then
          if to |\<in>| fmdom (boundary_nodes g) then
            (Inr (), g\<lparr>next_relationship_id := max (next_relationship_id g) (saturating_add rid 1),
                       indexes := index_relationship r False (indexes g),
                       relationships := fmupd rid r (relationships g),
                       outgoing := entry_push from rid (outgoing g)\<rparr>)
          else (Inl (RelationshipEndpointNotFound rid to), g)
        else
          (Inr (), g\<lparr>next_relationship_id := max (next_relationship_id g) (saturating_add rid 1),
                     indexes := index_relationship r True (indexes g),
                     relationships := fmupd rid r (relationships g),
                     outgoing := entry_push from rid (outgoing g),
                     incoming := entry_push to rid (incoming g)\<rparr>))"

definition upsert_boundary_node ::
  "node_id \<Rightarrow> shard_id \<Rightarrow> string list \<Rightarrow> properties \<Rightarrow> u64 \<Rightarrow> graph_state \<Rightarrow> graph_result" where
  "upsert_boundary_node nid owner labels props version g =
     (let ix = (case fmlookup (boundary_nodes g) nid of
                  None \<Rightarrow> indexes g
                | Some old \<Rightarrow> remove_boundary_node_index old (indexes g));
          b = new_boundary_node nid owner labels props version
      in (Inr (), g\<lparr>indexes := index_boundary_node b ix,
                    boundary_nodes := fmupd nid b (boundary_nodes g)\<rparr>))"

text \<open>The shared shape of the four node updates: unindex the node, change it, index it again.\<close>

definition reindex_node :: "node_id \<Rightarrow> node \<Rightarrow> node \<Rightarrow> graph_state \<Rightarrow> graph_state" where
  "reindex_node nid old n g =
     g\<lparr>indexes := index_node n (remove_node_index old (indexes g)),
       nodes := fmupd nid n (nodes g)\<rparr>"

definition set_node_property :: "node_id \<Rightarrow> string \<Rightarrow> val \<Rightarrow> graph_state \<Rightarrow> graph_result" where
  "set_node_property nid key v g =
     (case fmlookup (nodes g) nid of
        None \<Rightarrow> (Inl (NodeNotFound nid), g)
      | Some n \<Rightarrow>
          (Inr (), reindex_node nid n (n\<lparr>node_properties := fmupd key v (node_properties n)\<rparr>) g))"

definition remove_node_property :: "node_id \<Rightarrow> string \<Rightarrow> graph_state \<Rightarrow> graph_result" where
  "remove_node_property nid key g =
     (case fmlookup (nodes g) nid of
        None \<Rightarrow> (Inl (NodeNotFound nid), g)
      | Some n \<Rightarrow>
          (Inr (), reindex_node nid n (n\<lparr>node_properties := fmdrop key (node_properties n)\<rparr>) g))"

definition add_node_label :: "node_id \<Rightarrow> string \<Rightarrow> graph_state \<Rightarrow> graph_result" where
  "add_node_label nid label g =
     (case fmlookup (nodes g) nid of
        None \<Rightarrow> (Inl (NodeNotFound nid), g)
      | Some n \<Rightarrow>
          if list_ex (\<lambda>existing. existing = label) (node_labels n) then (Inr (), g)
          else (Inr (), reindex_node nid n (n\<lparr>node_labels := node_labels n @ [label]\<rparr>) g))"

definition remove_node_label :: "node_id \<Rightarrow> string \<Rightarrow> graph_state \<Rightarrow> graph_result" where
  "remove_node_label nid label g =
     (case fmlookup (nodes g) nid of
        None \<Rightarrow> (Inl (NodeNotFound nid), g)
      | Some n \<Rightarrow>
          if \<not> list_ex (\<lambda>existing. existing = label) (node_labels n) then (Inr (), g)
          else (Inr (), reindex_node nid n
                  (n\<lparr>node_labels := filter (\<lambda>existing. existing \<noteq> label) (node_labels n)\<rparr>) g))"

definition set_relationship_property ::
  "relationship_id \<Rightarrow> string \<Rightarrow> val \<Rightarrow> graph_state \<Rightarrow> graph_result" where
  "set_relationship_property rid key v g =
     (case fmlookup (relationships g) rid of
        None \<Rightarrow> (Inl (RelationshipNotFound rid), g)
      | Some r \<Rightarrow> (Inr (), g\<lparr>relationships :=
          fmupd rid (r\<lparr>rel_properties := fmupd key v (rel_properties r)\<rparr>) (relationships g)\<rparr>))"

definition remove_relationship_property ::
  "relationship_id \<Rightarrow> string \<Rightarrow> graph_state \<Rightarrow> graph_result" where
  "remove_relationship_property rid key g =
     (case fmlookup (relationships g) rid of
        None \<Rightarrow> (Inl (RelationshipNotFound rid), g)
      | Some r \<Rightarrow> (Inr (), g\<lparr>relationships :=
          fmupd rid (r\<lparr>rel_properties := fmdrop key (rel_properties r)\<rparr>) (relationships g)\<rparr>))"

definition delete_relationship :: "relationship_id \<Rightarrow> graph_state \<Rightarrow> graph_result" where
  "delete_relationship rid g =
     (case fmlookup (relationships g) rid of
        None \<Rightarrow> (Inl (RelationshipNotFound rid), g)
      | Some r \<Rightarrow>
          (Inr (), g\<lparr>relationships := fmdrop rid (relationships g),
                     indexes := remove_relationship_index r (rel_to r |\<in>| fmdom (nodes g)) (indexes g),
                     outgoing := entry_retain (rel_from r) rid (outgoing g),
                     incoming := entry_retain (rel_to r) rid (incoming g)\<rparr>))"

fun delete_relationships :: "relationship_id list \<Rightarrow> graph_state \<Rightarrow> graph_result" where
  "delete_relationships [] g = (Inr (), g)"
| "delete_relationships (rid # rids) g =
     (case delete_relationship rid g of
        (Inl e, g') \<Rightarrow> (Inl e, g')
      | (Inr _, g') \<Rightarrow> delete_relationships rids g')"

definition delete_node :: "node_id \<Rightarrow> graph_state \<Rightarrow> graph_result" where
  "delete_node nid g =
     (case ensure_node_exists nid g of
        Inl e \<Rightarrow> (Inl e, g)
      | Inr _ \<Rightarrow>
          let relationship_ids =
                dedup (sort (look_list (outgoing g) nid @ look_list (incoming g) nid))
          in case delete_relationships relationship_ids g of
               (Inl e, g') \<Rightarrow> (Inl e, g')
             | (Inr _, g') \<Rightarrow>
                 let g'' = (case fmlookup (nodes g') nid of
                              None \<Rightarrow> g'
                            | Some n \<Rightarrow> g'\<lparr>nodes := fmdrop nid (nodes g'),
                                           indexes := remove_node_index n (indexes g')\<rparr>)
                 in (Inr (), g''\<lparr>outgoing := fmdrop nid (outgoing g''),
                                 incoming := fmdrop nid (incoming g'')\<rparr>))"

fun apply_command :: "command \<Rightarrow> graph_state \<Rightarrow> graph_result" where
  "apply_command (CreateNode nid labels props) g = create_node nid labels props g"
| "apply_command (CreateRelationship rid from to ty props) g =
     create_relationship rid from to ty props g"
| "apply_command (UpsertBoundaryNode nid owner labels props version) g =
     upsert_boundary_node nid owner labels props version g"
| "apply_command (SetNodeProperty nid key v) g = set_node_property nid key v g"
| "apply_command (RemoveNodeProperty nid key) g = remove_node_property nid key g"
| "apply_command (AddNodeLabel nid label) g = add_node_label nid label g"
| "apply_command (RemoveNodeLabel nid label) g = remove_node_label nid label g"
| "apply_command (SetRelationshipProperty rid key v) g = set_relationship_property rid key v g"
| "apply_command (RemoveRelationshipProperty rid key) g = remove_relationship_property rid key g"
| "apply_command (DeleteRelationship rid) g = delete_relationship rid g"
| "apply_command (DeleteNode nid) g = delete_node nid g"
| "apply_command (ClusterConfigChange phase description voters table) g = (Inr (), g)"

end
