(* ===== verification/Graph_Inv.thy ===== *)
theory Graph_Inv
  imports Graph
begin

text \<open>
  The representation invariant of \<open>GraphState\<close> and its preservation by every command: records sit
  under their own identifiers, the three posting indexes are coherent with the stored records, the
  adjacency lists and the typed adjacency lists agree with the relationships, and every
  relationship has a local source and a local or boundary target.
\<close>

section \<open>Closed forms of the index updates\<close>

definition lp_keys_of_label :: "(string \<times> val) list \<Rightarrow> string \<Rightarrow> label_property_key list" where
  "lp_keys_of_label es l = map (\<lambda>(pk, pv). new_label_property_key l pk (value_key pv)) es"

definition lp_keys :: "(string \<times> val) list \<Rightarrow> string list \<Rightarrow> label_property_key list" where
  "lp_keys es labels = concat (map (lp_keys_of_label es) labels)"

lemma set_lp_keys:
  "set (lp_keys es labels) =
     {new_label_property_key l pk (value_key pv) | l pk pv. l \<in> set labels \<and> (pk, pv) \<in> set es}"
  by (force simp: lp_keys_def lp_keys_of_label_def)

lemma all_simps:
  "insert_all [] x m = m" "remove_all [] x m = m"
  "insert_all (k # ks) x m = insert_all ks x (entry_insert k x m)"
  "remove_all (k # ks) x m = remove_all ks x (entry_remove k x m)"
  "insert_all (ks @ ls) x m = insert_all ls x (insert_all ks x m)"
  "remove_all (ks @ ls) x m = remove_all ls x (remove_all ks x m)"
  by (simp_all add: insert_all_def remove_all_def)

lemma index_node_label_eq:
  "index_node_label es nid l ix =
     ix\<lparr>label_nodes := entry_insert l nid (label_nodes ix),
        label_property_nodes := insert_all (lp_keys_of_label es l) nid (label_property_nodes ix)\<rparr>"
proof -
  have "fold (\<lambda>(pk, pv) ix. ix\<lparr>label_property_nodes :=
          entry_insert (new_label_property_key l pk (value_key pv)) nid (label_property_nodes ix)\<rparr>) es ix
        = ix\<lparr>label_property_nodes := insert_all (lp_keys_of_label es l) nid (label_property_nodes ix)\<rparr>"
    for ix :: graph_indexes
    by (induction es arbitrary: ix) (auto simp: lp_keys_of_label_def all_simps)
  then show ?thesis by (simp add: index_node_label_def)
qed

lemma remove_node_index_label_eq:
  "remove_node_index_label es nid l ix =
     ix\<lparr>label_nodes := entry_remove l nid (label_nodes ix),
        label_property_nodes := remove_all (lp_keys_of_label es l) nid (label_property_nodes ix)\<rparr>"
proof -
  have "fold (\<lambda>(pk, pv) ix. ix\<lparr>label_property_nodes :=
          entry_remove (new_label_property_key l pk (value_key pv)) nid (label_property_nodes ix)\<rparr>) es ix
        = ix\<lparr>label_property_nodes := remove_all (lp_keys_of_label es l) nid (label_property_nodes ix)\<rparr>"
    for ix :: graph_indexes
    by (induction es arbitrary: ix) (auto simp: lp_keys_of_label_def all_simps)
  then show ?thesis by (simp add: remove_node_index_label_def)
qed

lemma index_boundary_node_label_eq:
  "index_boundary_node_label es nid l ix =
     ix\<lparr>boundary_label_property_nodes :=
          insert_all (lp_keys_of_label es l) nid (boundary_label_property_nodes ix)\<rparr>"
  unfolding index_boundary_node_label_def
  by (induction es arbitrary: ix) (auto simp: lp_keys_of_label_def all_simps)

lemma remove_boundary_node_index_label_eq:
  "remove_boundary_node_index_label es nid l ix =
     ix\<lparr>boundary_label_property_nodes :=
          remove_all (lp_keys_of_label es l) nid (boundary_label_property_nodes ix)\<rparr>"
  unfolding remove_boundary_node_index_label_def
  by (induction es arbitrary: ix) (auto simp: lp_keys_of_label_def all_simps)

lemma index_node_with_eq:
  "index_node_with es n ix =
     ix\<lparr>label_nodes := insert_all (node_labels n) (node_id n) (label_nodes ix),
        label_property_nodes :=
          insert_all (lp_keys es (node_labels n)) (node_id n) (label_property_nodes ix)\<rparr>"
proof -
  have "fold (index_node_label es i) ls ix =
     ix\<lparr>label_nodes := insert_all ls i (label_nodes ix),
        label_property_nodes := insert_all (lp_keys es ls) i (label_property_nodes ix)\<rparr>" for ls i
    by (induction ls arbitrary: ix) (simp_all add: index_node_label_eq all_simps lp_keys_def)
  then show ?thesis by (simp add: index_node_with_def)
qed

lemma remove_node_index_with_eq:
  "remove_node_index_with es n ix =
     ix\<lparr>label_nodes := remove_all (node_labels n) (node_id n) (label_nodes ix),
        label_property_nodes :=
          remove_all (lp_keys es (node_labels n)) (node_id n) (label_property_nodes ix)\<rparr>"
proof -
  have "fold (remove_node_index_label es i) ls ix =
     ix\<lparr>label_nodes := remove_all ls i (label_nodes ix),
        label_property_nodes := remove_all (lp_keys es ls) i (label_property_nodes ix)\<rparr>" for ls i
    by (induction ls arbitrary: ix) (simp_all add: remove_node_index_label_eq all_simps lp_keys_def)
  then show ?thesis by (simp add: remove_node_index_with_def)
qed

lemma index_boundary_node_eq:
  "index_boundary_node n ix =
     ix\<lparr>boundary_label_property_nodes := insert_all (lp_keys (hm_iter (bn_properties n)) (bn_labels n))
          (bn_id n) (boundary_label_property_nodes ix)\<rparr>"
proof -
  have "fold (index_boundary_node_label es i) ls ix =
     ix\<lparr>boundary_label_property_nodes :=
          insert_all (lp_keys es ls) i (boundary_label_property_nodes ix)\<rparr>" for es ls i
    by (induction ls arbitrary: ix) (simp_all add: index_boundary_node_label_eq all_simps lp_keys_def)
  then show ?thesis by (simp add: index_boundary_node_def)
qed

lemma remove_boundary_node_index_eq:
  "remove_boundary_node_index n ix =
     ix\<lparr>boundary_label_property_nodes := remove_all (lp_keys (hm_iter (bn_properties n)) (bn_labels n))
          (bn_id n) (boundary_label_property_nodes ix)\<rparr>"
proof -
  have "fold (remove_boundary_node_index_label es i) ls ix =
     ix\<lparr>boundary_label_property_nodes :=
          remove_all (lp_keys es ls) i (boundary_label_property_nodes ix)\<rparr>" for es ls i
    by (induction ls arbitrary: ix)
       (simp_all add: remove_boundary_node_index_label_eq all_simps lp_keys_def)
  then show ?thesis by (simp add: remove_boundary_node_index_def)
qed

lemmas index_node_eq = index_node_def [unfolded index_node_with_eq]
lemmas remove_node_index_eq = remove_node_index_def [unfolded remove_node_index_with_eq]

section \<open>The posting indexes\<close>

definition node_lp_keys :: "node \<Rightarrow> label_property_key set" where
  "node_lp_keys n = {new_label_property_key l pk (value_key pv) | l pk pv.
     l \<in> set (node_labels n) \<and> fmlookup (node_properties n) pk = Some pv}"

definition boundary_lp_keys :: "boundary_node \<Rightarrow> label_property_key set" where
  "boundary_lp_keys n = {new_label_property_key l pk (value_key pv) | l pk pv.
     l \<in> set (bn_labels n) \<and> fmlookup (bn_properties n) pk = Some pv}"

lemma set_lp_keys_node:
  "set (lp_keys (hm_iter (node_properties n)) (node_labels n)) = node_lp_keys n"
  by (simp add: set_lp_keys node_lp_keys_def set_hm_iter)

lemma set_lp_keys_boundary:
  "set (lp_keys (hm_iter (bn_properties n)) (bn_labels n)) = boundary_lp_keys n"
  by (simp add: set_lp_keys boundary_lp_keys_def set_hm_iter)

interpretation label_ix: posting_index "\<lambda>n. set (node_labels n)" node_id index_node remove_node_index
    "\<lambda>ix. look (label_nodes ix)"
  by unfold_locales (simp_all add: index_node_eq remove_node_index_eq look_simps)

interpretation label_property_ix: posting_index node_lp_keys node_id index_node remove_node_index
    "\<lambda>ix. look (label_property_nodes ix)"
  by unfold_locales
     (simp_all add: index_node_eq remove_node_index_eq look_simps set_lp_keys_node)

interpretation boundary_ix: posting_index boundary_lp_keys bn_id index_boundary_node
    remove_boundary_node_index "\<lambda>ix. look (boundary_label_property_nodes ix)"
  by unfold_locales
     (simp_all add: index_boundary_node_eq remove_boundary_node_index_eq look_simps
        set_lp_keys_boundary)

section \<open>The invariant\<close>

definition keyed_by_id :: "graph_state \<Rightarrow> bool" where
  "keyed_by_id g \<longleftrightarrow>
     (\<forall>x n. fmlookup (nodes g) x = Some n \<longrightarrow> node_id n = x) \<and>
     (\<forall>x b. fmlookup (boundary_nodes g) x = Some b \<longrightarrow> bn_id b = x) \<and>
     (\<forall>x r. fmlookup (relationships g) x = Some r \<longrightarrow> rel_id r = x)"

definition postings_inv :: "graph_state \<Rightarrow> bool" where
  "postings_inv g \<longleftrightarrow>
     posting_coherent (\<lambda>n. set (node_labels n)) (\<lambda>ix. look (label_nodes ix)) (nodes g) (indexes g) \<and>
     posting_coherent node_lp_keys (\<lambda>ix. look (label_property_nodes ix)) (nodes g) (indexes g) \<and>
     posting_coherent boundary_lp_keys (\<lambda>ix. look (boundary_label_property_nodes ix))
       (boundary_nodes g) (indexes g)"

definition has_type :: "(relationship_id, relationship) fmap \<Rightarrow> string \<Rightarrow> relationship_id \<Rightarrow> bool" where
  "has_type rels ty rid \<longleftrightarrow> (\<exists>r. fmlookup rels rid = Some r \<and> rel_type r = ty)"

definition out_ids :: "graph_state \<Rightarrow> node_id \<Rightarrow> relationship_id list" where
  "out_ids g nid = look_list (outgoing g) nid"

definition in_ids :: "graph_state \<Rightarrow> node_id \<Rightarrow> relationship_id list" where
  "in_ids g nid = look_list (incoming g) nid"

definition adjacency_inv :: "graph_state \<Rightarrow> bool" where
  "adjacency_inv g \<longleftrightarrow>
     fmdom (outgoing g) = fmdom (nodes g) \<and> fmdom (incoming g) = fmdom (nodes g) \<and>
     (\<forall>n. distinct (out_ids g n) \<and> distinct (in_ids g n)) \<and>
     (\<forall>n rid. rid \<in> set (out_ids g n) \<longleftrightarrow>
        (\<exists>r. fmlookup (relationships g) rid = Some r \<and> rel_from r = n)) \<and>
     (\<forall>n rid. rid \<in> set (in_ids g n) \<longrightarrow>
        (\<exists>r. fmlookup (relationships g) rid = Some r \<and> rel_to r = n))"

definition typed_adjacency_inv :: "graph_state \<Rightarrow> bool" where
  "typed_adjacency_inv g \<longleftrightarrow>
     (\<forall>n ty. look_list (ix_outgoing_by_type (indexes g)) (new_relationship_type_key n ty) =
        filter (has_type (relationships g) ty) (out_ids g n)) \<and>
     (\<forall>n ty. look_list (ix_incoming_by_type (indexes g)) (new_relationship_type_key n ty) =
        filter (has_type (relationships g) ty) (in_ids g n))"

definition endpoints_inv :: "graph_state \<Rightarrow> bool" where
  "endpoints_inv g \<longleftrightarrow>
     (\<forall>rid r. fmlookup (relationships g) rid = Some r \<longrightarrow>
        rel_from r |\<in>| fmdom (nodes g) \<and>
        (rid \<in> set (in_ids g (rel_to r)) \<or> rel_to r |\<in>| fmdom (boundary_nodes g)))"

definition fresh_ids_inv :: "graph_state \<Rightarrow> bool" where
  "fresh_ids_inv g \<longleftrightarrow>
     (\<forall>x. x |\<in>| fmdom (nodes g) \<longrightarrow> x < next_node_id g \<or> x = - 1) \<and>
     (\<forall>x. x |\<in>| fmdom (relationships g) \<longrightarrow> x < next_relationship_id g \<or> x = - 1)"

definition graph_inv :: "graph_state \<Rightarrow> bool" where
  "graph_inv g \<longleftrightarrow> keyed_by_id g \<and> postings_inv g \<and> adjacency_inv g \<and> typed_adjacency_inv g \<and>
     endpoints_inv g \<and> fresh_ids_inv g"

lemmas inv_defs = keyed_by_id_def postings_inv_def adjacency_inv_def typed_adjacency_inv_def
  endpoints_inv_def fresh_ids_inv_def

lemma graph_invI:
  "keyed_by_id g \<Longrightarrow> postings_inv g \<Longrightarrow> adjacency_inv g \<Longrightarrow> typed_adjacency_inv g \<Longrightarrow>
     endpoints_inv g \<Longrightarrow> fresh_ids_inv g \<Longrightarrow> graph_inv g"
  by (simp add: graph_inv_def)

lemma graph_invD:
  assumes "graph_inv g"
  shows "keyed_by_id g" "postings_inv g" "adjacency_inv g" "typed_adjacency_inv g"
    "endpoints_inv g" "fresh_ids_inv g"
  using assms by (simp_all add: graph_inv_def)

lemma graph_inv_new_graph: "graph_inv new_graph"
  by (simp add: graph_inv_def inv_defs new_graph_def empty_indexes_def posting_coherent_def
      out_ids_def in_ids_def)

subsection \<open>Node updates\<close>

text \<open>An update that keeps the set of nodes and touches no adjacency keeps the rest of the invariant.\<close>

lemma adjacency_frame:
  assumes "graph_inv g" and "fmdom (nodes h) = fmdom (nodes g)"
    and "fmdom (boundary_nodes g) |\<subseteq>| fmdom (boundary_nodes h)"
    and "relationships h = relationships g" and "outgoing h = outgoing g" and "incoming h = incoming g"
    and "ix_outgoing_by_type (indexes h) = ix_outgoing_by_type (indexes g)"
    and "ix_incoming_by_type (indexes h) = ix_incoming_by_type (indexes g)"
    and "next_node_id h = next_node_id g" and "next_relationship_id h = next_relationship_id g"
  shows "adjacency_inv h \<and> typed_adjacency_inv h \<and> endpoints_inv h \<and> fresh_ids_inv h"
  using graph_invD(3-6) [OF assms(1)] assms(2-)
  by (auto simp: inv_defs out_ids_def in_ids_def dest: fsubsetD)

lemma typed_indexes_unchanged [simp]:
  "ix_outgoing_by_type (index_node n ix) = ix_outgoing_by_type ix"
  "ix_incoming_by_type (index_node n ix) = ix_incoming_by_type ix"
  "ix_outgoing_by_type (remove_node_index n ix) = ix_outgoing_by_type ix"
  "ix_incoming_by_type (remove_node_index n ix) = ix_incoming_by_type ix"
  "ix_outgoing_by_type (index_boundary_node b ix) = ix_outgoing_by_type ix"
  "ix_incoming_by_type (index_boundary_node b ix) = ix_incoming_by_type ix"
  "ix_outgoing_by_type (remove_boundary_node_index b ix) = ix_outgoing_by_type ix"
  "ix_incoming_by_type (remove_boundary_node_index b ix) = ix_incoming_by_type ix"
  by (simp_all add: index_node_eq remove_node_index_eq index_boundary_node_eq
      remove_boundary_node_index_eq)

lemma other_postings_unchanged [simp]:
  "boundary_label_property_nodes (index_node n ix) = boundary_label_property_nodes ix"
  "boundary_label_property_nodes (remove_node_index n ix) = boundary_label_property_nodes ix"
  "label_nodes (index_boundary_node b ix) = label_nodes ix"
  "label_nodes (remove_boundary_node_index b ix) = label_nodes ix"
  "label_property_nodes (index_boundary_node b ix) = label_property_nodes ix"
  "label_property_nodes (remove_boundary_node_index b ix) = label_property_nodes ix"
  by (simp_all add: index_node_eq remove_node_index_eq index_boundary_node_eq
      remove_boundary_node_index_eq)

lemma finsert_fmdom: "fmlookup m k = Some v \<Longrightarrow> finsert k (fmdom m) = fmdom m"
  by (simp add: finsert_absorb fmdomI)

lemma posting_coherent_cong:
  "lk ix = lk' ix' \<Longrightarrow> posting_coherent keys lk recs ix = posting_coherent keys lk' recs ix'"
  by (simp add: posting_coherent_def)

lemma reindex_node_inv:
  assumes g: "graph_inv g" and old: "fmlookup (nodes g) nid = Some old" and nid: "node_id n = nid"
  shows "graph_inv (reindex_node nid old n g)"
proof -
  have k: "keyed_by_id g" and p: "postings_inv g" using g by (simp_all add: graph_inv_def)
  have oid: "node_id old = nid" using k old by (simp add: keyed_by_id_def)
  have "keyed_by_id (reindex_node nid old n g)"
    using k nid by (simp add: keyed_by_id_def reindex_node_def)
  moreover have "postings_inv (reindex_node nid old n g)"
    using p label_ix.coherent_replace [OF _ old oid nid] label_property_ix.coherent_replace [OF _ old oid nid]
    by (simp add: postings_inv_def reindex_node_def posting_coherent_def)
  moreover have "adjacency_inv (reindex_node nid old n g) \<and> typed_adjacency_inv (reindex_node nid old n g) \<and>
      endpoints_inv (reindex_node nid old n g) \<and> fresh_ids_inv (reindex_node nid old n g)"
    by (rule adjacency_frame [OF g]) (simp_all add: reindex_node_def finsert_fmdom [OF old])
  ultimately show ?thesis by (simp add: graph_inv_def)
qed

lemma upsert_boundary_node_inv:
  assumes g: "graph_inv g"
  shows "graph_inv (snd (upsert_boundary_node nid owner labels props version g))"
    (is "graph_inv ?h")
proof -
  let ?b = "new_boundary_node nid owner labels props version"
  have k: "keyed_by_id g" and p: "postings_inv g" using g by (simp_all add: graph_inv_def)
  have bid: "bn_id ?b = nid" by (simp add: new_boundary_node_def)
  have "posting_coherent boundary_lp_keys (\<lambda>ix. look (boundary_label_property_nodes ix))
          (fmupd nid ?b (boundary_nodes g)) (indexes ?h)"
  proof (cases "fmlookup (boundary_nodes g) nid")
    case None
    then show ?thesis
      using p boundary_ix.coherent_insert [OF _ None bid]
      by (simp add: postings_inv_def upsert_boundary_node_def Let_def)
  next
    case (Some old)
    then have "bn_id old = nid" using k by (simp add: keyed_by_id_def)
    then show ?thesis
      using p boundary_ix.coherent_replace [OF _ Some _ bid] Some
      by (simp add: postings_inv_def upsert_boundary_node_def Let_def)
  qed
  then have "postings_inv ?h"
    using p by (simp add: postings_inv_def posting_coherent_def upsert_boundary_node_def Let_def
        split: option.splits)
  moreover have "keyed_by_id ?h"
    using k bid by (simp add: keyed_by_id_def upsert_boundary_node_def Let_def)
  moreover have "adjacency_inv ?h \<and> typed_adjacency_inv ?h \<and> endpoints_inv ?h \<and> fresh_ids_inv ?h"
    by (rule adjacency_frame [OF g]) (auto simp: upsert_boundary_node_def Let_def split: option.splits)
  ultimately show ?thesis by (simp add: graph_inv_def)
qed

lemma adjacency_invD:
  assumes "adjacency_inv g"
  shows "fmdom (outgoing g) = fmdom (nodes g)" and "fmdom (incoming g) = fmdom (nodes g)"
    and "distinct (out_ids g n)" and "distinct (in_ids g n)"
    and "rid \<in> set (out_ids g n) \<longleftrightarrow>
      (\<exists>r. fmlookup (relationships g) rid = Some r \<and> rel_from r = n)"
    and "rid \<in> set (in_ids g n) \<Longrightarrow>
      \<exists>r. fmlookup (relationships g) rid = Some r \<and> rel_to r = n"
  using assms by (simp_all add: adjacency_inv_def)

lemma notin_adjacency:
  assumes "adjacency_inv g" and "fmlookup (relationships g) rid = None"
  shows "rid \<notin> set (out_ids g n)" and "rid \<notin> set (in_ids g n)"
  using adjacency_invD(5,6) [OF assms(1), of rid n] assms(2) by auto

lemma no_node_no_ids:
  assumes "adjacency_inv g" and "fmlookup (nodes g) n = None"
  shows "out_ids g n = []" and "in_ids g n = []"
proof -
  have "n |\<notin>| fmdom (outgoing g)" "n |\<notin>| fmdom (incoming g)"
    using assms by (auto simp: adjacency_inv_def fmdom_notI)
  then show "out_ids g n = []" "in_ids g n = []"
    by (simp_all add: out_ids_def in_ids_def look_list_def fmdom_notD)
qed

lemma create_node_inv:
  assumes g: "graph_inv g"
  shows "graph_inv (snd (create_node nid labels props g))"
proof (cases "nid |\<in>| fmdom (nodes g)")
  case True
  with g show ?thesis by (simp add: create_node_def)
next
  case False
  let ?n = "new_node nid labels props"
  let ?h = "snd (create_node nid labels props g)"
  have fresh: "fmlookup (nodes g) nid = None" using False by (simp add: fmdom_notD)
  have nid: "node_id ?n = nid" by (simp add: new_node_def)
  note inv = graph_invD [OF g]
  note h = create_node_def Let_def
  have "keyed_by_id ?h" using inv(1) False nid by (simp add: keyed_by_id_def h)
  moreover have "postings_inv ?h"
    using inv(2) False label_ix.coherent_insert [OF _ fresh nid]
      label_property_ix.coherent_insert [OF _ fresh nid]
    by (simp add: postings_inv_def h posting_coherent_def)
  moreover have ids: "out_ids ?h n = out_ids g n" "in_ids ?h n = in_ids g n" for n
    using False by (simp_all add: out_ids_def in_ids_def h)
  have "adjacency_inv ?h"
    using inv(3) False by (simp add: adjacency_inv_def ids) (simp add: h)
  moreover have "typed_adjacency_inv ?h"
    using inv(4) False by (simp add: typed_adjacency_inv_def ids) (simp add: h)
  moreover have "endpoints_inv ?h"
    using inv(5) False by (simp add: endpoints_inv_def ids) (auto simp: h)
  moreover have "fresh_ids_inv ?h"
    using inv(6) False saturating_add_one_cases [of nid]
    by (auto simp: fresh_ids_inv_def h less_max_iff_disj)
  ultimately show ?thesis by (intro graph_invI)
qed

lemma has_type_fmupd_fresh:
  "fmlookup rels rid = None \<Longrightarrow> rid \<notin> set xs \<Longrightarrow>
     filter (has_type (fmupd rid r rels) ty) xs = filter (has_type rels ty) xs"
  by (rule filter_cong) (auto simp: has_type_def)

lemma typed_key_eq_iff [simp]:
  "new_relationship_type_key n ty = new_relationship_type_key n' ty' \<longleftrightarrow> n = n' \<and> ty = ty'"
  by (simp add: new_relationship_type_key_def)

lemma create_relationship_inv:
  assumes g: "graph_inv g"
  shows "graph_inv (snd (create_relationship rid from to ty props g))"
proof (cases "rid |\<in>| fmdom (relationships g) \<or> from |\<notin>| fmdom (nodes g) \<or>
              to |\<notin>| fmdom (nodes g) \<and> to |\<notin>| fmdom (boundary_nodes g)")
  case True
  then show ?thesis using g by (auto simp: create_relationship_def Let_def)
next
  case False
  define r where "r = new_relationship rid from to ty props"
  define h where "h = snd (create_relationship rid from to ty props g)"
  define local where "local \<longleftrightarrow> to |\<in>| fmdom (nodes g)"
  have fresh: "fmlookup (relationships g) rid = None" using False by (simp add: fmdom_notD)
  have r: "rel_id r = rid" "rel_from r = from" "rel_to r = to" "rel_type r = ty"
    by (simp_all add: r_def new_relationship_def)
  have h: "h = g\<lparr>next_relationship_id := max (next_relationship_id g) (saturating_add rid 1),
                 indexes := index_relationship r local (indexes g),
                 relationships := fmupd rid r (relationships g),
                 outgoing := entry_push from rid (outgoing g),
                 incoming := (if local then entry_push to rid (incoming g) else incoming g)\<rparr>"
    using False by (auto simp: h_def create_relationship_def Let_def local_def r_def)
  note inv = graph_invD [OF g]
  note out = notin_adjacency [OF inv(3) fresh]
  have ids: "out_ids h n = (if n = from then out_ids g n @ [rid] else out_ids g n)"
    "in_ids h n = (if local \<and> n = to then in_ids g n @ [rid] else in_ids g n)" for n
    by (auto simp: out_ids_def in_ids_def h)
  have hf: "relationships h = fmupd rid r (relationships g)" "nodes h = nodes g"
    "boundary_nodes h = boundary_nodes g" by (simp_all add: h)
  have "keyed_by_id h" using inv(1) r by (simp add: keyed_by_id_def h)
  moreover have "postings_inv h"
    using inv(2) by (simp add: postings_inv_def h posting_coherent_def index_relationship_def Let_def)
  moreover have "adjacency_inv h"
  proof -
    have "fmdom (outgoing h) = fmdom (nodes h)" "fmdom (incoming h) = fmdom (nodes h)"
      using inv(3) False by (auto simp: adjacency_inv_def h entry_push_def local_def)
    moreover have "distinct (out_ids h n) \<and> distinct (in_ids h n)" for n
      using inv(3) out by (auto simp: adjacency_inv_def ids)
    moreover have "x \<in> set (out_ids h n) \<longleftrightarrow> (\<exists>q. fmlookup (relationships h) x = Some q \<and> rel_from q = n)"
      for n x
      using adjacency_invD(5) [OF inv(3), of x n] out(1) [of n] r(2) fresh by (auto simp: ids hf)
    moreover have "x \<in> set (in_ids h n) \<Longrightarrow> \<exists>q. fmlookup (relationships h) x = Some q \<and> rel_to q = n"
      for n x
      using adjacency_invD(6) [OF inv(3), of x n] out(2) [of n] r(3)
      by (auto simp: ids hf split: if_splits)
    ultimately show ?thesis by (simp add: adjacency_inv_def)
  qed
  moreover have "typed_adjacency_inv h"
  proof -
    have ty: "has_type (relationships h) ty' rid \<longleftrightarrow> ty' = ty" for ty'
      using r by (auto simp: has_type_def hf)
    have f: "filter (has_type (relationships h) ty') (out_ids g n) = filter (has_type (relationships g) ty') (out_ids g n)"
      "filter (has_type (relationships h) ty') (in_ids g n) = filter (has_type (relationships g) ty') (in_ids g n)" for ty' n
      unfolding hf(1) using fresh out by (simp_all add: has_type_fmupd_fresh)
    have ixo: "look_list (ix_outgoing_by_type (indexes h)) (new_relationship_type_key n ty') =
        look_list (ix_outgoing_by_type (indexes g)) (new_relationship_type_key n ty') @
          (if n = from \<and> ty' = ty then [rid] else [])" for n ty'
      using r by (auto simp: h index_relationship_def Let_def)
    have ixi: "look_list (ix_incoming_by_type (indexes h)) (new_relationship_type_key n ty') =
        look_list (ix_incoming_by_type (indexes g)) (new_relationship_type_key n ty') @
          (if local \<and> n = to \<and> ty' = ty then [rid] else [])" for n ty'
      using r by (auto simp: h index_relationship_def Let_def)
    show ?thesis
      using inv(4) by (auto simp: typed_adjacency_inv_def ixo ixi ids f ty)
  qed
  moreover have "endpoints_inv h"
    unfolding endpoints_inv_def
  proof (intro allI impI)
    fix x q
    assume q: "fmlookup (relationships h) x = Some q"
    show "rel_from q |\<in>| fmdom (nodes h) \<and>
        (x \<in> set (in_ids h (rel_to q)) \<or> rel_to q |\<in>| fmdom (boundary_nodes h))"
    proof (cases "x = rid")
      case True
      then show ?thesis using q False r by (auto simp: hf ids local_def)
    next
      case neq: False
      then have "fmlookup (relationships g) x = Some q" using q by (simp add: hf)
      then show ?thesis using inv(5) unfolding endpoints_inv_def hf ids by fastforce
    qed
  qed
  moreover have "fresh_ids_inv h"
    using inv(6) saturating_add_one_cases [of rid]
    by (auto simp: fresh_ids_inv_def h less_max_iff_disj)
  ultimately show ?thesis unfolding h_def [symmetric] by (intro graph_invI)
qed

lemma relationship_update_inv:
  assumes g: "graph_inv g" and old: "fmlookup (relationships g) rid = Some r"
    and same: "rel_id r' = rel_id r" "rel_from r' = rel_from r" "rel_to r' = rel_to r" "rel_type r' = rel_type r"
  shows "graph_inv (g\<lparr>relationships := fmupd rid r' (relationships g)\<rparr>)" (is "graph_inv ?h")
proof -
  note inv = graph_invD [OF g]
  have ids: "out_ids ?h = out_ids g" "in_ids ?h = in_ids g"
    by (simp_all add: out_ids_def in_ids_def fun_eq_iff)
  have ty: "has_type (relationships ?h) = has_type (relationships g)"
    using old same by (auto simp: has_type_def fun_eq_iff)
  have "keyed_by_id ?h" using inv(1) old same by (auto simp: keyed_by_id_def)
  moreover have "postings_inv ?h" using inv(2) by (simp add: postings_inv_def)
  moreover have "adjacency_inv ?h"
  proof -
    have "rid \<in> set (in_ids g n) \<Longrightarrow> rel_to r = n" for n
      using adjacency_invD(6) [OF inv(3), of rid n] old by auto
    then show ?thesis using inv(3) old same by (simp add: adjacency_inv_def ids)
  qed
  moreover have "typed_adjacency_inv ?h"
    using inv(4) unfolding typed_adjacency_inv_def ids ty by simp
  moreover have "endpoints_inv ?h"
    using inv(5) old same unfolding endpoints_inv_def ids by simp
  moreover have "fresh_ids_inv ?h"
    using inv(6) old by (simp add: fresh_ids_inv_def finsert_fmdom [OF old] fmdomI)
  ultimately show ?thesis by (intro graph_invI)
qed

subsection \<open>Deletion\<close>

lemma filter_has_type_fmdrop:
  "filter (has_type (fmdrop rid rels) ty) (filter (\<lambda>x. x \<noteq> rid) xs) =
     filter (\<lambda>x. x \<noteq> rid) (filter (has_type rels ty) xs)"
  by (induction xs) (auto simp: has_type_def)

lemma delete_relationship_fields:
  assumes r: "fmlookup (relationships g) rid = Some r"
  shows "fst (delete_relationship rid g) = Inr ()"
    and "nodes (snd (delete_relationship rid g)) = nodes g"
    and "boundary_nodes (snd (delete_relationship rid g)) = boundary_nodes g"
    and "relationships (snd (delete_relationship rid g)) = fmdrop rid (relationships g)"
    and "next_node_id (snd (delete_relationship rid g)) = next_node_id g"
    and "next_relationship_id (snd (delete_relationship rid g)) = next_relationship_id g"
  using r by (simp_all add: delete_relationship_def)

lemma delete_relationship_ids:
  assumes g: "graph_inv g" and r: "fmlookup (relationships g) rid = Some r"
  shows "out_ids (snd (delete_relationship rid g)) n = filter (\<lambda>x. x \<noteq> rid) (out_ids g n)"
    and "in_ids (snd (delete_relationship rid g)) n = filter (\<lambda>x. x \<noteq> rid) (in_ids g n)"
proof -
  note adj = graph_invD(3) [OF g]
  have "rid \<notin> set (out_ids g n)" if "rel_from r \<noteq> n"
    using adjacency_invD(5) [OF adj, of rid n] r that by auto
  moreover have "rid \<notin> set (in_ids g n)" if "rel_to r \<noteq> n"
    using adjacency_invD(6) [OF adj, of rid n] r that by auto
  ultimately show "out_ids (snd (delete_relationship rid g)) n = filter (\<lambda>x. x \<noteq> rid) (out_ids g n)"
    "in_ids (snd (delete_relationship rid g)) n = filter (\<lambda>x. x \<noteq> rid) (in_ids g n)"
    using r by (auto simp: out_ids_def in_ids_def delete_relationship_def filter_neq_id)
qed

lemma delete_relationship_inv:
  assumes g: "graph_inv g" and r: "fmlookup (relationships g) rid = Some r"
  shows "graph_inv (snd (delete_relationship rid g))" (is "graph_inv ?h")
proof -
  note inv = graph_invD [OF g]
  note hf = delete_relationship_fields [OF r]
  note ids = delete_relationship_ids [OF g r]
  have "keyed_by_id ?h" using inv(1) by (simp add: keyed_by_id_def hf)
  moreover have "postings_inv ?h"
    using inv(2) r by (simp add: postings_inv_def posting_coherent_def delete_relationship_def
        remove_relationship_index_def Let_def)
  moreover have "adjacency_inv ?h"
  proof -
    have "fmdom (outgoing ?h) = fmdom (nodes ?h)" "fmdom (incoming ?h) = fmdom (nodes ?h)"
      using adjacency_invD(1,2) [OF inv(3)] r by (simp_all add: delete_relationship_def)
    then show ?thesis
      using inv(3) by (auto simp: adjacency_inv_def hf ids)
  qed
  moreover have "typed_adjacency_inv ?h"
  proof -
    have no_in: "in_ids g (rel_to r) = []" if "rel_to r |\<notin>| fmdom (nodes g)"
      using no_node_no_ids(2) [OF inv(3)] that by (simp add: fmdom_notD)
    have o: "look_list (ix_outgoing_by_type (indexes ?h)) (new_relationship_type_key n ty) =
        filter (\<lambda>x. x \<noteq> rid) (look_list (ix_outgoing_by_type (indexes g)) (new_relationship_type_key n ty))"
      for n ty
    proof (cases "n = rel_from r \<and> ty = rel_type r")
      case True
      then show ?thesis
        using r inv(1) by (auto simp: delete_relationship_def remove_relationship_index_def Let_def keyed_by_id_def)
    next
      case False
      have "rid \<notin> set (filter (has_type (relationships g) ty) (out_ids g n))"
        using False adjacency_invD(5) [OF inv(3), of rid n] r by (auto simp: has_type_def)
      then have "filter (\<lambda>x. x \<noteq> rid) (filter (has_type (relationships g) ty) (out_ids g n)) =
          filter (has_type (relationships g) ty) (out_ids g n)"
        by (rule filter_neq_id)
      with False r inv(4) show ?thesis
        by (auto simp: delete_relationship_def remove_relationship_index_def Let_def typed_adjacency_inv_def)
    qed
    have i: "look_list (ix_incoming_by_type (indexes ?h)) (new_relationship_type_key n ty) =
        filter (\<lambda>x. x \<noteq> rid) (look_list (ix_incoming_by_type (indexes g)) (new_relationship_type_key n ty))"
      for n ty
    proof (cases "n = rel_to r \<and> ty = rel_type r \<and> rel_to r |\<in>| fmdom (nodes g)")
      case True
      then show ?thesis
        using r inv(1) by (auto simp: delete_relationship_def remove_relationship_index_def Let_def keyed_by_id_def)
    next
      case False
      have "rid \<notin> set (filter (has_type (relationships g) ty) (in_ids g n))"
      proof
        assume m: "rid \<in> set (filter (has_type (relationships g) ty) (in_ids g n))"
        then have "n = rel_to r" "ty = rel_type r"
          using adjacency_invD(6) [OF inv(3), of rid n] r by (auto simp: has_type_def)
        with False no_in m show False by auto
      qed
      then have "filter (\<lambda>x. x \<noteq> rid) (filter (has_type (relationships g) ty) (in_ids g n)) =
          filter (has_type (relationships g) ty) (in_ids g n)"
        by (rule filter_neq_id)
      with False r inv(4) show ?thesis
        by (auto simp: delete_relationship_def remove_relationship_index_def Let_def typed_adjacency_inv_def)
    qed
    show ?thesis
      using inv(4) by (simp add: typed_adjacency_inv_def o i ids hf filter_has_type_fmdrop del: filter_filter)
  qed
  moreover have "endpoints_inv ?h"
    using inv(5) by (simp add: endpoints_inv_def hf ids)
  moreover have "fresh_ids_inv ?h"
    using inv(6) by (simp add: fresh_ids_inv_def hf)
  ultimately show ?thesis by (intro graph_invI)
qed

lemma delete_relationships_effect:
  assumes "graph_inv g" and "distinct rids" and "set rids \<subseteq> fset (fmdom (relationships g))"
  shows "\<exists>h. delete_relationships rids g = (Inr (), h) \<and> graph_inv h \<and>
    nodes h = nodes g \<and> boundary_nodes h = boundary_nodes g \<and>
    relationships h = fmdrop_set (set rids) (relationships g) \<and>
    next_node_id h = next_node_id g \<and> next_relationship_id h = next_relationship_id g \<and>
    (\<forall>n. out_ids h n = filter (\<lambda>x. x \<notin> set rids) (out_ids g n)) \<and>
    (\<forall>n. in_ids h n = filter (\<lambda>x. x \<notin> set rids) (in_ids g n))"
  using assms
proof (induction rids arbitrary: g)
  case Nil
  then show ?case by simp
next
  case (Cons rid rids)
  then obtain r where r: "fmlookup (relationships g) rid = Some r"
    by (auto simp: fmlookup_dom_iff)
  define k where "k = snd (delete_relationship rid g)"
  note kf = delete_relationship_fields [OF r, folded k_def]
  note ids = delete_relationship_ids [OF Cons.prems(1) r, folded k_def]
  have step: "delete_relationships (rid # rids) g = delete_relationships rids k"
    using kf(1) by (simp add: k_def prod.case_eq_if)
  have "graph_inv k" using delete_relationship_inv [OF Cons.prems(1) r] by (simp add: k_def)
  moreover have "set rids \<subseteq> fset (fmdom (relationships k))"
    using Cons.prems(2,3) by (auto simp: kf)
  ultimately obtain h where h: "delete_relationships rids k = (Inr (), h)" "graph_inv h"
    "nodes h = nodes k" "boundary_nodes h = boundary_nodes k"
    "relationships h = fmdrop_set (set rids) (relationships k)"
    "next_node_id h = next_node_id k" "next_relationship_id h = next_relationship_id k"
    "\<And>n. out_ids h n = filter (\<lambda>x. x \<notin> set rids) (out_ids k n)"
    "\<And>n. in_ids h n = filter (\<lambda>x. x \<notin> set rids) (in_ids k n)"
    using Cons.IH [of k] Cons.prems(2) by auto
  have "fmdrop_set (set rids) (fmdrop rid (relationships g)) = fmdrop_set (set (rid # rids)) (relationships g)"
    by (rule fmap_ext) auto
  with h have "delete_relationships (rid # rids) g = (Inr (), h)" "graph_inv h" "nodes h = nodes g"
    "boundary_nodes h = boundary_nodes g"
    "relationships h = fmdrop_set (set (rid # rids)) (relationships g)"
    "next_node_id h = next_node_id g" "next_relationship_id h = next_relationship_id g"
    "\<And>n. out_ids h n = filter (\<lambda>x. x \<notin> set (rid # rids)) (out_ids g n)"
    "\<And>n. in_ids h n = filter (\<lambda>x. x \<notin> set (rid # rids)) (in_ids g n)"
    by (simp_all add: step kf ids del: delete_relationships.simps)
  then show ?case by blast
qed

text \<open>The relationships a \<open>DeleteNode\<close> takes with it.\<close>

definition attached :: "graph_state \<Rightarrow> node_id \<Rightarrow> relationship_id set" where
  "attached g nid = set (out_ids g nid) \<union> set (in_ids g nid)"

lemma attached_subset:
  assumes "graph_inv g"
  shows "attached g nid \<subseteq> fset (fmdom (relationships g))"
  using adjacency_invD(5,6) [OF graph_invD(3) [OF assms]]
  by (fastforce simp: attached_def intro: fmdomI)

lemma delete_node_effect:
  assumes g: "graph_inv g" and n: "fmlookup (nodes g) nid = Some n"
  shows "\<exists>h. delete_node nid g = (Inr (), h) \<and> graph_inv h \<and>
    nodes h = fmdrop nid (nodes g) \<and> boundary_nodes h = boundary_nodes g \<and>
    relationships h = fmdrop_set (attached g nid) (relationships g) \<and>
    next_node_id h = next_node_id g \<and> next_relationship_id h = next_relationship_id g \<and>
    (\<forall>x. in_ids h x = (if x = nid then [] else filter (\<lambda>y. y \<notin> attached g nid) (in_ids g x)))"
proof -
  let ?rids = "dedup (sort (look_list (outgoing g) nid @ look_list (incoming g) nid))"
  have rids: "set ?rids = attached g nid" "distinct ?rids"
    by (simp_all add: attached_def out_ids_def in_ids_def distinct_dedup_sorted)
  obtain k where k: "delete_relationships ?rids g = (Inr (), k)" "graph_inv k"
    "nodes k = nodes g" "boundary_nodes k = boundary_nodes g"
    "relationships k = fmdrop_set (attached g nid) (relationships g)"
    "next_node_id k = next_node_id g" "next_relationship_id k = next_relationship_id g"
    "\<And>x. out_ids k x = filter (\<lambda>y. y \<notin> attached g nid) (out_ids g x)"
    "\<And>x. in_ids k x = filter (\<lambda>y. y \<notin> attached g nid) (in_ids g x)"
    using delete_relationships_effect [OF g rids(2)] attached_subset [OF g] unfolding rids(1) by blast
  have nil: "out_ids k nid = []" "in_ids k nid = []"
    by (auto simp: k attached_def filter_empty_conv)
  define h where "h = k\<lparr>nodes := fmdrop nid (nodes k), indexes := remove_node_index n (indexes k),
    outgoing := fmdrop nid (outgoing k), incoming := fmdrop nid (incoming k)\<rparr>"
  have del: "delete_node nid g = (Inr (), h)"
    using k(1,3) n by (simp add: delete_node_def ensure_node_exists_def fmdomI Let_def h_def)
  note inv = graph_invD [OF k(2)]
  have nk: "fmlookup (nodes k) nid = Some n" "node_id n = nid"
    using n k(3) inv(1) by (auto simp: keyed_by_id_def)
  have ids: "out_ids h x = out_ids k x" "in_ids h x = in_ids k x" for x
    using nil by (auto simp: h_def out_ids_def in_ids_def)
  have hf: "relationships h = relationships k" "nodes h = fmdrop nid (nodes k)"
    "boundary_nodes h = boundary_nodes k" by (simp_all add: h_def)
  have no_from: "rel_from r \<noteq> nid" if "fmlookup (relationships k) x = Some r" for x r
    using adjacency_invD(5) [OF inv(3), of x nid] nil(1) that by auto
  have "graph_inv h"
  proof (rule graph_invI)
    show "keyed_by_id h" using inv(1) by (simp add: keyed_by_id_def hf)
    show "postings_inv h"
      using inv(2) label_ix.coherent_delete [OF _ nk] label_property_ix.coherent_delete [OF _ nk]
      by (simp add: postings_inv_def h_def posting_coherent_def)
    show "adjacency_inv h"
      using inv(3) unfolding adjacency_inv_def ids hf by (simp add: h_def)
    show "typed_adjacency_inv h"
      using inv(4) unfolding typed_adjacency_inv_def ids hf by (simp add: h_def)
    show "endpoints_inv h"
      using inv(5) no_from unfolding endpoints_inv_def ids hf by auto
    show "fresh_ids_inv h"
      using inv(6) by (simp add: fresh_ids_inv_def h_def)
  qed
  moreover have "in_ids h x = (if x = nid then [] else filter (\<lambda>y. y \<notin> attached g nid) (in_ids g x))" for x
    using nil k(9) by (simp add: ids)
  ultimately show ?thesis
    using del k by (intro exI [of _ h]) (simp add: h_def)
qed

lemma delete_node_missing:
  "fmlookup (nodes g) nid = None \<Longrightarrow> delete_node nid g = (Inl (NodeNotFound nid), g)"
  by (simp add: delete_node_def ensure_node_exists_def fmdom_notI)

subsection \<open>Every command\<close>

lemma node_update_inv:
  assumes "graph_inv g" and "fmlookup (nodes g) nid = Some n"
  shows "graph_inv (reindex_node nid n (n\<lparr>node_properties := p\<rparr>) g)"
    and "graph_inv (reindex_node nid n (n\<lparr>node_labels := l\<rparr>) g)"
  using assms graph_invD(1) [OF assms(1)] by (auto simp: keyed_by_id_def intro!: reindex_node_inv)

lemma apply_command_graph_inv:
  assumes g: "graph_inv g"
  shows "graph_inv (snd (apply_command c g))"
proof (cases c)
  case (CreateNode x1 x2 x3)
  then show ?thesis using create_node_inv [OF g] by simp
next
  case (CreateRelationship x1 x2 x3 x4 x5)
  then show ?thesis using create_relationship_inv [OF g] by simp
next
  case (UpsertBoundaryNode x1 x2 x3 x4 x5)
  then show ?thesis using upsert_boundary_node_inv [OF g] by simp
next
  case (SetNodeProperty x1 x2 x3)
  then show ?thesis using node_update_inv [OF g] g
    by (simp add: set_node_property_def split: option.splits)
next
  case (RemoveNodeProperty x1 x2)
  then show ?thesis using node_update_inv [OF g] g
    by (simp add: remove_node_property_def split: option.splits)
next
  case (AddNodeLabel x1 x2)
  then show ?thesis using node_update_inv [OF g] g
    by (simp add: add_node_label_def split: option.splits)
next
  case (RemoveNodeLabel x1 x2)
  then show ?thesis using node_update_inv [OF g] g
    by (simp add: remove_node_label_def split: option.splits)
next
  case (SetRelationshipProperty x1 x2 x3)
  then show ?thesis using relationship_update_inv [OF g] g
    by (simp add: set_relationship_property_def split: option.splits)
next
  case (RemoveRelationshipProperty x1 x2)
  then show ?thesis using relationship_update_inv [OF g] g
    by (simp add: remove_relationship_property_def split: option.splits)
next
  case (DeleteRelationship x)
  show ?thesis
  proof (cases "fmlookup (relationships g) x")
    case None
    then show ?thesis using g DeleteRelationship by (simp add: delete_relationship_def)
  next
    case (Some r)
    then show ?thesis using delete_relationship_inv [OF g] DeleteRelationship by simp
  qed
next
  case (DeleteNode x)
  show ?thesis
  proof (cases "fmlookup (nodes g) x")
    case None
    then show ?thesis using g DeleteNode by (simp add: delete_node_missing)
  next
    case (Some n)
    then show ?thesis using delete_node_effect [OF g] DeleteNode by fastforce
  qed
next
  case (ClusterConfigChange x1 x2 x3 x4)
  then show ?thesis using g by simp
qed

end
