(* ===== verification/Graph_Spec.thy ===== *)
theory Graph_Spec
  imports Graph_Inv Decimal
begin

text \<open>
  What the graph promises: an abstract property graph without indexes, one specification step per
  command, and the refinement of \<open>GraphState::apply\<close> to it. Below it, the read interface of
  \<open>neo4r-core/src/read.rs\<close> (trait \<open>GraphRead\<close>) as a locale, with what a client may conclude from
  its laws, and its interpretation on \<open>GraphState\<close>.
\<close>

section \<open>The abstract property graph\<close>

text \<open>
  \<open>ag_linked\<close> are the relationships listed at their target: those whose target was a local node
  when they were created. A relationship to a boundary node is not listed there, even if the node
  later becomes local.
\<close>

record agraph =
  ag_nodes :: "node_id \<rightharpoonup> node"
  ag_boundary :: "node_id \<rightharpoonup> boundary_node"
  ag_rels :: "relationship_id \<rightharpoonup> relationship"
  ag_linked :: "relationship_id set"

definition abs_graph :: "graph_state \<Rightarrow> agraph" where
  "abs_graph g =
     \<lparr>ag_nodes = fmlookup (nodes g), ag_boundary = fmlookup (boundary_nodes g),
      ag_rels = fmlookup (relationships g),
      ag_linked = {rid. \<exists>r. fmlookup (relationships g) rid = Some r \<and> rid \<in> set (in_ids g (rel_to r))}\<rparr>"

definition update_node ::
  "node_id \<Rightarrow> (node \<Rightarrow> node) \<Rightarrow> agraph \<Rightarrow> (graph_error + unit) \<times> agraph" where
  "update_node nid f a =
     (case ag_nodes a nid of
        None \<Rightarrow> (Inl (NodeNotFound nid), a)
      | Some n \<Rightarrow> (Inr (), a\<lparr>ag_nodes := (ag_nodes a)(nid \<mapsto> f n)\<rparr>))"

definition update_rel ::
  "relationship_id \<Rightarrow> (relationship \<Rightarrow> relationship) \<Rightarrow> agraph \<Rightarrow> (graph_error + unit) \<times> agraph" where
  "update_rel rid f a =
     (case ag_rels a rid of
        None \<Rightarrow> (Inl (RelationshipNotFound rid), a)
      | Some r \<Rightarrow> (Inr (), a\<lparr>ag_rels := (ag_rels a)(rid \<mapsto> f r)\<rparr>))"

definition drop_rels :: "relationship_id set \<Rightarrow> agraph \<Rightarrow> agraph" where
  "drop_rels R a = a\<lparr>ag_rels := (ag_rels a) |` (- R), ag_linked := ag_linked a - R\<rparr>"

definition ag_attached :: "agraph \<Rightarrow> node_id \<Rightarrow> relationship_id set" where
  "ag_attached a nid = {rid. \<exists>r. ag_rels a rid = Some r \<and>
     (rel_from r = nid \<or> rel_to r = nid \<and> rid \<in> ag_linked a)}"

fun spec_apply :: "command \<Rightarrow> agraph \<Rightarrow> (graph_error + unit) \<times> agraph" where
  "spec_apply (CreateNode nid labels props) a =
     (if ag_nodes a nid \<noteq> None then (Inl (NodeAlreadyExists nid), a)
      else (Inr (), a\<lparr>ag_nodes := (ag_nodes a)(nid \<mapsto> new_node nid labels props)\<rparr>))"
| "spec_apply (CreateRelationship rid from to ty props) a =
     (if ag_rels a rid \<noteq> None then (Inl (RelationshipAlreadyExists rid), a)
      else if ag_nodes a from = None then (Inl (RelationshipEndpointNotFound rid from), a)
      else if ag_nodes a to = None \<and> ag_boundary a to = None
        then (Inl (RelationshipEndpointNotFound rid to), a)
      else (Inr (), a\<lparr>ag_rels := (ag_rels a)(rid \<mapsto> new_relationship rid from to ty props),
                      ag_linked := (if ag_nodes a to = None then ag_linked a
                                    else insert rid (ag_linked a))\<rparr>))"
| "spec_apply (UpsertBoundaryNode nid owner labels props version) a =
     (Inr (), a\<lparr>ag_boundary :=
        (ag_boundary a)(nid \<mapsto> new_boundary_node nid owner labels props version)\<rparr>)"
| "spec_apply (SetNodeProperty nid key v) a =
     update_node nid (\<lambda>n. n\<lparr>node_properties := fmupd key v (node_properties n)\<rparr>) a"
| "spec_apply (RemoveNodeProperty nid key) a =
     update_node nid (\<lambda>n. n\<lparr>node_properties := fmdrop key (node_properties n)\<rparr>) a"
| "spec_apply (AddNodeLabel nid label) a =
     update_node nid (\<lambda>n. if label \<in> set (node_labels n) then n
                          else n\<lparr>node_labels := node_labels n @ [label]\<rparr>) a"
| "spec_apply (RemoveNodeLabel nid label) a =
     update_node nid (\<lambda>n. n\<lparr>node_labels := removeAll label (node_labels n)\<rparr>) a"
| "spec_apply (SetRelationshipProperty rid key v) a =
     update_rel rid (\<lambda>r. r\<lparr>rel_properties := fmupd key v (rel_properties r)\<rparr>) a"
| "spec_apply (RemoveRelationshipProperty rid key) a =
     update_rel rid (\<lambda>r. r\<lparr>rel_properties := fmdrop key (rel_properties r)\<rparr>) a"
| "spec_apply (DeleteRelationship rid) a =
     (case ag_rels a rid of
        None \<Rightarrow> (Inl (RelationshipNotFound rid), a)
      | Some _ \<Rightarrow> (Inr (), drop_rels {rid} a))"
| "spec_apply (DeleteNode nid) a =
     (case ag_nodes a nid of
        None \<Rightarrow> (Inl (NodeNotFound nid), a)
      | Some _ \<Rightarrow> (Inr (), (drop_rels (ag_attached a nid) a)
                             \<lparr>ag_nodes := (ag_nodes a)(nid := None)\<rparr>))"
| "spec_apply (ClusterConfigChange phase description voters table) a = (Inr (), a)"

text \<open>
  A relationship created towards a boundary node is not listed at a local node created later under that identifier.
  In \<open>link_all a\<close> every relationship with a local target is listed there.
\<close>

definition link_all :: "agraph \<Rightarrow> agraph" where
  "link_all a = a\<lparr>ag_linked := {rid. \<exists>r. ag_rels a rid = Some r \<and> ag_nodes a (rel_to r) \<noteq> None}\<rparr>"

section \<open>Refinement\<close>

lemma in_fmdom_iff: "x |\<in>| fmdom m \<longleftrightarrow> fmlookup m x \<noteq> None"
  by (auto simp: fmlookup_dom_iff)

lemma fmlookup_fmupd_fun: "fmlookup (fmupd k v m) = (fmlookup m)(k \<mapsto> v)"
  by (rule ext) simp

lemma abs_graph_simps [simp]:
  "ag_nodes (abs_graph g) = fmlookup (nodes g)"
  "ag_boundary (abs_graph g) = fmlookup (boundary_nodes g)"
  "ag_rels (abs_graph g) = fmlookup (relationships g)"
  by (simp_all add: abs_graph_def)

lemma abs_graph_eqI:
  assumes "fmlookup (nodes h) = ag_nodes a" and "fmlookup (boundary_nodes h) = ag_boundary a"
    and "fmlookup (relationships h) = ag_rels a"
    and "\<And>rid r. ag_rels a rid = Some r \<Longrightarrow> rid \<in> set (in_ids h (rel_to r)) \<longleftrightarrow> rid \<in> ag_linked a"
    and "ag_linked a \<subseteq> dom (ag_rels a)"
  shows "abs_graph h = a"
proof -
  have "{rid. \<exists>r. fmlookup (relationships h) rid = Some r \<and> rid \<in> set (in_ids h (rel_to r))} = ag_linked a"
    using assms(3-5) by fastforce
  with assms(1-3) show ?thesis by (simp add: abs_graph_def)
qed

lemma linked_abs:
  "fmlookup (relationships g) rid = Some r \<Longrightarrow>
     rid \<in> ag_linked (abs_graph g) \<longleftrightarrow> rid \<in> set (in_ids g (rel_to r))"
  by (auto simp: abs_graph_def)

lemma in_ids_iff_linked:
  assumes "graph_inv g"
  shows "rid \<in> set (in_ids g n) \<longleftrightarrow>
    (\<exists>r. fmlookup (relationships g) rid = Some r \<and> rel_to r = n \<and> rid \<in> ag_linked (abs_graph g))"
  using adjacency_invD(6) [OF graph_invD(3) [OF assms], of rid n] by (auto simp: abs_graph_def)

lemma attached_abs:
  assumes "graph_inv g"
  shows "attached g nid = ag_attached (abs_graph g) nid"
proof -
  have "rid \<in> attached g nid \<longleftrightarrow> rid \<in> ag_attached (abs_graph g) nid" for rid
    using adjacency_invD(5) [OF graph_invD(3) [OF assms], of rid nid] in_ids_iff_linked [OF assms, of rid nid]
    by (auto simp: attached_def ag_attached_def abs_graph_def)
  then show ?thesis by blast
qed

lemma abs_reindex_node:
  "abs_graph (reindex_node nid old n g) = (abs_graph g)\<lparr>ag_nodes := (fmlookup (nodes g))(nid \<mapsto> n)\<rparr>"
  by (simp add: abs_graph_def reindex_node_def in_ids_def fmlookup_fmupd_fun)

lemma abs_relationship_update:
  assumes "fmlookup (relationships g) rid = Some r" and "rel_to r' = rel_to r"
  shows "abs_graph (g\<lparr>relationships := fmupd rid r' (relationships g)\<rparr>) =
    (abs_graph g)\<lparr>ag_rels := (fmlookup (relationships g))(rid \<mapsto> r')\<rparr>"
  using assms by (auto simp: abs_graph_def in_ids_def fmlookup_fmupd_fun)

lemma abs_create_relationship:
  assumes g: "graph_inv g" and ok: "fst (create_relationship rid from to ty props g) = Inr ()"
  shows "abs_graph (snd (create_relationship rid from to ty props g)) =
    (abs_graph g)\<lparr>ag_rels := (fmlookup (relationships g))(rid \<mapsto> new_relationship rid from to ty props),
       ag_linked := (if fmlookup (nodes g) to = None then ag_linked (abs_graph g)
                     else insert rid (ag_linked (abs_graph g)))\<rparr>"
    (is "abs_graph ?h = ?a")
proof -
  let ?r = "new_relationship rid from to ty props"
  have fresh: "fmlookup (relationships g) rid = None"
    using ok by (auto simp: create_relationship_def in_fmdom_iff split: if_splits)
  note out = notin_adjacency [OF graph_invD(3) [OF g] fresh]
  have hf: "nodes ?h = nodes g" "boundary_nodes ?h = boundary_nodes g"
    "relationships ?h = fmupd rid ?r (relationships g)"
    using ok by (auto simp: create_relationship_def Let_def split: if_splits)
  have ids: "in_ids ?h n = (if fmlookup (nodes g) to \<noteq> None \<and> n = to then in_ids g n @ [rid] else in_ids g n)"
    for n
    using ok by (auto simp: create_relationship_def Let_def in_ids_def in_fmdom_iff split: if_splits)
  have r: "rel_to ?r = to" by (simp add: new_relationship_def)
  show ?thesis
  proof (rule abs_graph_eqI)
    show "ag_linked ?a \<subseteq> dom (ag_rels ?a)"
      by (auto simp: abs_graph_def)
  next
    fix x q
    assume "ag_rels ?a x = Some q"
    then show "x \<in> set (in_ids ?h (rel_to q)) \<longleftrightarrow> x \<in> ag_linked ?a"
      using fresh out(2) r by (auto simp: ids abs_graph_def split: if_splits)
  qed (simp_all add: hf fmlookup_fmupd_fun)
qed

lemma abs_delete_relationship:
  assumes g: "graph_inv g" and r: "fmlookup (relationships g) rid = Some r"
  shows "abs_graph (snd (delete_relationship rid g)) = drop_rels {rid} (abs_graph g)"
    (is "abs_graph ?h = ?a")
proof (rule abs_graph_eqI)
  note hf = delete_relationship_fields [OF r] and ids = delete_relationship_ids [OF g r]
  show "fmlookup (nodes ?h) = ag_nodes ?a" "fmlookup (boundary_nodes ?h) = ag_boundary ?a"
    by (simp_all add: hf drop_rels_def abs_graph_def)
  show "fmlookup (relationships ?h) = ag_rels ?a"
    by (auto simp: hf drop_rels_def abs_graph_def restrict_map_def)
  show "ag_linked ?a \<subseteq> dom (ag_rels ?a)"
    by (auto simp: drop_rels_def abs_graph_def restrict_map_def)
  fix x q
  assume "ag_rels ?a x = Some q"
  then show "x \<in> set (in_ids ?h (rel_to q)) \<longleftrightarrow> x \<in> ag_linked ?a"
    by (auto simp: ids drop_rels_def abs_graph_def restrict_map_def split: if_splits)
qed

lemma abs_delete_node:
  assumes g: "graph_inv g" and n: "fmlookup (nodes g) nid = Some n"
  shows "fst (delete_node nid g) = Inr ()" and "abs_graph (snd (delete_node nid g)) =
    (drop_rels (ag_attached (abs_graph g) nid) (abs_graph g))
       \<lparr>ag_nodes := (fmlookup (nodes g))(nid := None)\<rparr>" (is "_ = ?a")
proof -
  obtain h where h: "delete_node nid g = (Inr (), h)" "nodes h = fmdrop nid (nodes g)"
    "boundary_nodes h = boundary_nodes g" "relationships h = fmdrop_set (attached g nid) (relationships g)"
    "\<And>x. in_ids h x = (if x = nid then [] else filter (\<lambda>y. y \<notin> attached g nid) (in_ids g x))"
    using delete_node_effect [OF g n] by blast
  show "fst (delete_node nid g) = Inr ()" by (simp add: h)
  have "abs_graph h = ?a"
  proof (rule abs_graph_eqI)
    show "fmlookup (nodes h) = ag_nodes ?a" "fmlookup (boundary_nodes h) = ag_boundary ?a"
      by (auto simp: h drop_rels_def abs_graph_def)
    show "fmlookup (relationships h) = ag_rels ?a"
      unfolding h attached_abs [OF g] by (rule ext) (simp add: drop_rels_def restrict_map_def)
    show "ag_linked ?a \<subseteq> dom (ag_rels ?a)"
      by (auto simp: drop_rels_def abs_graph_def restrict_map_def)
    fix x q
    assume "ag_rels ?a x = Some q"
    then have q: "fmlookup (relationships g) x = Some q" "x \<notin> attached g nid"
      by (auto simp: drop_rels_def restrict_map_def attached_abs [OF g] split: if_splits)
    then show "x \<in> set (in_ids h (rel_to q)) \<longleftrightarrow> x \<in> ag_linked ?a"
      using linked_abs [OF q(1)] by (auto simp: h attached_def drop_rels_def attached_abs [OF g, symmetric])
  qed
  then show "abs_graph (snd (delete_node nid g)) = ?a" by (simp add: h)
qed

lemma abs_simple_updates:
  "abs_graph (g\<lparr>next_node_id := x, indexes := ix, nodes := ns, outgoing := os, incoming := entry_default k (incoming g)\<rparr>) =
     (abs_graph g)\<lparr>ag_nodes := fmlookup ns\<rparr>"
  "abs_graph (g\<lparr>indexes := ix, boundary_nodes := bs\<rparr>) = (abs_graph g)\<lparr>ag_boundary := fmlookup bs\<rparr>"
  by (simp_all add: abs_graph_def in_ids_def)

lemma filter_neq_removeAll: "filter (\<lambda>x. x \<noteq> a) xs = removeAll a xs"
  by (induction xs) auto

lemma node_self_update [simp]:
  "n\<lparr>node_labels := node_labels n\<rparr> = (n :: node)"
  by simp

lemma update_node_id:
  "fmlookup (nodes g) nid = Some n \<Longrightarrow>
     (abs_graph g)\<lparr>ag_nodes := (fmlookup (nodes g))(nid \<mapsto> n)\<rparr> = abs_graph g"
  by (simp add: abs_graph_def fun_upd_idem)

lemma apply_command_abs:
  assumes g: "graph_inv g"
  shows "fst (apply_command c g) = fst (spec_apply c (abs_graph g)) \<and>
         abs_graph (snd (apply_command c g)) = snd (spec_apply c (abs_graph g))"
proof (cases c)
  case (CreateNode x1 x2 x3)
  then show ?thesis
    by (simp add: create_node_def in_fmdom_iff Let_def abs_simple_updates fmlookup_fmupd_fun)
next
  case (CreateRelationship rid a b ty props)
  show ?thesis
  proof (cases "fst (create_relationship rid a b ty props g)")
    case (Inl e)
    then show ?thesis
      using CreateRelationship by (auto simp: create_relationship_def in_fmdom_iff Let_def split: if_splits)
  next
    case (Inr u)
    then have "fst (create_relationship rid a b ty props g) = Inr ()" by simp
    from abs_create_relationship [OF g this] this show ?thesis
      using CreateRelationship
      by (auto simp: create_relationship_def in_fmdom_iff Let_def split: if_splits)
  qed
next
  case (UpsertBoundaryNode x1 x2 x3 x4 x5)
  then show ?thesis
    by (simp add: upsert_boundary_node_def Let_def abs_simple_updates fmlookup_fmupd_fun)
next
  case (SetNodeProperty x1 x2 x3)
  then show ?thesis
    by (simp add: set_node_property_def update_node_def abs_reindex_node split: option.splits)
next
  case (RemoveNodeProperty x1 x2)
  then show ?thesis
    by (simp add: remove_node_property_def update_node_def abs_reindex_node split: option.splits)
next
  case (AddNodeLabel x1 x2)
  then show ?thesis
    by (auto simp: add_node_label_def update_node_def abs_reindex_node list_ex_iff update_node_id
        split: option.splits)
next
  case (RemoveNodeLabel x1 x2)
  then show ?thesis
    by (auto simp: remove_node_label_def update_node_def abs_reindex_node list_ex_iff update_node_id
        filter_neq_removeAll removeAll_id split: option.splits)
next
  case (SetRelationshipProperty x1 x2 x3)
  then show ?thesis
    by (simp add: set_relationship_property_def update_rel_def abs_relationship_update split: option.splits)
next
  case (RemoveRelationshipProperty x1 x2)
  then show ?thesis
    by (simp add: remove_relationship_property_def update_rel_def abs_relationship_update split: option.splits)
next
  case (DeleteRelationship rid)
  show ?thesis
  proof (cases "fmlookup (relationships g) rid")
    case None
    then show ?thesis using DeleteRelationship by (simp add: delete_relationship_def)
  next
    case (Some r)
    then show ?thesis
      using DeleteRelationship abs_delete_relationship [OF g Some] delete_relationship_fields(1) [OF Some]
      by simp
  qed
next
  case (DeleteNode nid)
  show ?thesis
  proof (cases "fmlookup (nodes g) nid")
    case None
    then show ?thesis using DeleteNode by (simp add: delete_node_missing)
  next
    case (Some n)
    then show ?thesis using DeleteNode abs_delete_node [OF g Some] by simp
  qed
next
  case (ClusterConfigChange x1 x2 x3 x4)
  then show ?thesis by simp
qed

lemma apply_command_error_unchanged:
  assumes g: "graph_inv g" and e: "fst (apply_command c g) = Inl e"
  shows "snd (apply_command c g) = g"
proof (cases c)
  case (DeleteNode nid)
  then show ?thesis
    using e abs_delete_node(1) [OF g] delete_node_missing [of g nid]
    by (cases "fmlookup (nodes g) nid") auto
qed (use e in \<open>auto simp: create_node_def create_relationship_def upsert_boundary_node_def Let_def
   set_node_property_def remove_node_property_def add_node_label_def remove_node_label_def
   set_relationship_property_def remove_relationship_property_def delete_relationship_def
   split: if_splits option.splits\<close>)

section \<open>Properties of the graph state machine\<close>

text \<open>
  C1. \<open>GraphState::apply\<close> implements the abstract property graph: from a state that satisfies the
  representation invariant, every command keeps the invariant, reports exactly the success or the
  error the specification reports, and reaches exactly the abstract graph the specification reaches.
\<close>

theorem apply_refines_spec:
  assumes "graph_inv g"
  shows "graph_inv (snd (apply_command c g)) \<and>
    fst (apply_command c g) = fst (spec_apply c (abs_graph g)) \<and>
    abs_graph (snd (apply_command c g)) = snd (spec_apply c (abs_graph g))"
  using apply_command_graph_inv [OF assms] apply_command_abs [OF assms] by blast

theorem apply_refines_spec_witness:
  "graph_inv (snd (apply_command (CreateNode 7 [''Person''] fmempty) new_graph)) \<and>
   fst (apply_command (CreateNode 7 [''Person''] fmempty) new_graph) = Inr () \<and>
   ag_nodes (abs_graph (snd (apply_command (CreateNode 7 [''Person''] fmempty) new_graph))) 7 =
     Some (new_node 7 [''Person''] fmempty)"
  using apply_refines_spec [OF graph_inv_new_graph, of "CreateNode 7 [''Person''] fmempty"]
  by (simp add: new_graph_def)

text \<open>
  C21. A command that fails changes nothing: whenever \<open>apply\<close> returns an error from a state that
  satisfies the invariant, the state is the one it started from. In particular \<open>DeleteNode\<close>, which
  deletes relationships one by one with an early return on error, never stops half-way.
\<close>

theorem apply_error_is_atomic:
  assumes "graph_inv g" and "fst (apply_command c g) = Inl e"
  shows "apply_command c g = (Inl e, g)"
  using apply_command_error_unchanged [OF assms] assms(2) by (metis prod.collapse)

theorem apply_error_is_atomic_witness:
  "apply_command (DeleteNode 3) new_graph = (Inl (NodeNotFound 3), new_graph)"
proof -
  have "fst (apply_command (DeleteNode 3) new_graph) = Inl (NodeNotFound 3)"
    by (simp add: delete_node_def ensure_node_exists_def new_graph_def)
  from apply_error_is_atomic [OF graph_inv_new_graph this] show ?thesis .
qed

end
