(* ===== verification/Graph_Read.thy ===== *)
theory Graph_Read
  imports Graph_Spec
begin

text \<open>
  The read interface of \<open>neo4r-core/src/read.rs\<close> (trait \<open>GraphRead\<close>) as a locale over the abstract
  graph, what a client may conclude from its laws, and its interpretation on \<open>GraphState\<close>. The
  storage graph interprets the same locale, so the two answer index reads alike.
\<close>

section \<open>What the reads should answer\<close>

definition ag_by_label :: "agraph \<Rightarrow> string \<Rightarrow> node_id set" where
  "ag_by_label a l = {x. \<exists>n. ag_nodes a x = Some n \<and> l \<in> set (node_labels n)}"

definition ag_by_label_property :: "agraph \<Rightarrow> string \<Rightarrow> string \<Rightarrow> val \<Rightarrow> node_id set" where
  "ag_by_label_property a l pk v =
     {x. \<exists>n. ag_nodes a x = Some n \<and> l \<in> set (node_labels n) \<and> fmlookup (node_properties n) pk = Some v}"

definition ag_boundary_by_label_property :: "agraph \<Rightarrow> string \<Rightarrow> string \<Rightarrow> val \<Rightarrow> node_id set" where
  "ag_boundary_by_label_property a l pk v =
     {x. \<exists>n. ag_boundary a x = Some n \<and> l \<in> set (bn_labels n) \<and> fmlookup (bn_properties n) pk = Some v}"

definition ag_outgoing :: "agraph \<Rightarrow> node_id \<Rightarrow> relationship set" where
  "ag_outgoing a nid = {r. ag_rels a (rel_id r) = Some r \<and> rel_from r = nid}"

definition ag_incoming :: "agraph \<Rightarrow> node_id \<Rightarrow> relationship set" where
  "ag_incoming a nid = {r. ag_rels a (rel_id r) = Some r \<and> rel_to r = nid \<and> rel_id r \<in> ag_linked a}"

definition lists_rels :: "'e + relationship list \<Rightarrow> relationship set \<Rightarrow> bool" where
  "lists_rels res R \<longleftrightarrow> (\<exists>rs. res = Inr rs \<and> set rs = R \<and> distinct (map rel_id rs))"

section \<open>The interface\<close>

text \<open>\<open>text_ok\<close> and \<open>prop_ok\<close> delimit the query texts and values an implementation answers exactly.\<close>

locale graph_read =
  fixes ok :: "'s \<Rightarrow> bool"
    and text_ok :: "string \<Rightarrow> bool"
    and prop_ok :: "string \<Rightarrow> string \<Rightarrow> val \<Rightarrow> bool"
    and view :: "'s \<Rightarrow> agraph"
    and r_node :: "'s \<Rightarrow> node_id \<Rightarrow> 'e + node option"
    and r_node_ids :: "'s \<Rightarrow> 'e + node_id list"
    and r_by_label :: "'s \<Rightarrow> string \<Rightarrow> 'e + node_id list"
    and r_by_label_property :: "'s \<Rightarrow> string \<Rightarrow> string \<Rightarrow> val \<Rightarrow> 'e + node_id list"
    and r_boundary_by_label_property :: "'s \<Rightarrow> string \<Rightarrow> string \<Rightarrow> val \<Rightarrow> 'e + node_id list"
    and r_outgoing :: "'s \<Rightarrow> node_id \<Rightarrow> 'e + relationship list"
    and r_outgoing_by_type :: "'s \<Rightarrow> node_id \<Rightarrow> string \<Rightarrow> 'e + relationship list"
    and r_incoming :: "'s \<Rightarrow> node_id \<Rightarrow> 'e + relationship list"
    and r_incoming_by_type :: "'s \<Rightarrow> node_id \<Rightarrow> string \<Rightarrow> 'e + relationship list"
  assumes node_law: "ok s \<Longrightarrow> r_node s x = Inr (ag_nodes (view s) x)"
    and finite_law: "ok s \<Longrightarrow> finite (dom (ag_nodes (view s)))"
    and node_ids_law: "ok s \<Longrightarrow> r_node_ids s = Inr (sorted_list_of_set (dom (ag_nodes (view s))))"
    and by_label_law: "ok s \<Longrightarrow> text_ok l \<Longrightarrow> r_by_label s l = Inr (sorted_list_of_set (ag_by_label (view s) l))"
    and by_label_property_law:
      "ok s \<Longrightarrow> prop_ok l k v \<Longrightarrow> r_by_label_property s l k v =
         Inr (sorted_list_of_set (ag_by_label_property (view s) l k v))"
    and boundary_law:
      "ok s \<Longrightarrow> prop_ok l k v \<Longrightarrow> r_boundary_by_label_property s l k v =
         Inr (sorted_list_of_set (ag_boundary_by_label_property (view s) l k v))"
    and outgoing_law:
      "ok s \<Longrightarrow> x \<in> dom (ag_nodes (view s)) \<Longrightarrow> lists_rels (r_outgoing s x) (ag_outgoing (view s) x)"
    and outgoing_by_type_law:
      "ok s \<Longrightarrow> text_ok ty \<Longrightarrow> x \<in> dom (ag_nodes (view s)) \<Longrightarrow>
         lists_rels (r_outgoing_by_type s x ty) {r \<in> ag_outgoing (view s) x. rel_type r = ty}"
    and incoming_law:
      "ok s \<Longrightarrow> x \<in> dom (ag_nodes (view s)) \<Longrightarrow> lists_rels (r_incoming s x) (ag_incoming (view s) x)"
    and incoming_by_type_law:
      "ok s \<Longrightarrow> text_ok ty \<Longrightarrow> x \<in> dom (ag_nodes (view s)) \<Longrightarrow>
         lists_rels (r_incoming_by_type s x ty) {r \<in> ag_incoming (view s) x. rel_type r = ty}"
begin

definition has_label :: "'s \<Rightarrow> string \<Rightarrow> node_id \<Rightarrow> bool" where
  "has_label s l x \<longleftrightarrow> (\<exists>n. r_node s x = Inr (Some n) \<and> l \<in> set (node_labels n))"

definition has_property :: "'s \<Rightarrow> string \<Rightarrow> val \<Rightarrow> node_id \<Rightarrow> bool" where
  "has_property s k v x \<longleftrightarrow> (\<exists>n. r_node s x = Inr (Some n) \<and> fmlookup (node_properties n) k = Some v)"

lemma finite_by_label: "ok s \<Longrightarrow> finite (ag_by_label (view s) l)"
  by (rule finite_subset [OF _ finite_law]) (auto simp: ag_by_label_def)

text \<open>The label index answers what a scan of all nodes would.\<close>

lemma by_label_is_scan:
  assumes "ok s" and "r_node_ids s = Inr ids" and "text_ok l"
  shows "r_by_label s l = Inr (filter (has_label s l) ids)"
proof -
  have ids: "ids = sorted_list_of_set (dom (ag_nodes (view s)))"
    using assms node_ids_law by simp
  have "sorted_list_of_set (ag_by_label (view s) l) = filter (has_label s l) ids"
    unfolding ids using finite_law [OF assms(1)] finite_by_label [OF assms(1)]
    by (intro sorted_distinct_set_unique)
       (auto simp: sorted_wrt_filter ag_by_label_def has_label_def node_law [OF assms(1)])
  then show ?thesis using by_label_law [OF assms(1,3)] by simp
qed

text \<open>The label-property index answers what filtering the label index by the property would.\<close>

lemma by_label_property_is_filter:
  assumes "ok s" and "r_by_label s l = Inr ids" and "text_ok l" and "prop_ok l k v"
  shows "r_by_label_property s l k v = Inr (filter (has_property s k v) ids)"
proof -
  have ids: "ids = sorted_list_of_set (ag_by_label (view s) l)"
    using assms by_label_law by simp
  have fin: "finite (ag_by_label_property (view s) l k v)"
    by (rule finite_subset [OF _ finite_by_label [OF assms(1)]])
       (auto simp: ag_by_label_def ag_by_label_property_def)
  have "sorted_list_of_set (ag_by_label_property (view s) l k v) = filter (has_property s k v) ids"
    unfolding ids using fin finite_by_label [OF assms(1)]
    by (intro sorted_distinct_set_unique)
       (auto simp: sorted_wrt_filter ag_by_label_def ag_by_label_property_def has_property_def
          node_law [OF assms(1)])
  then show ?thesis using by_label_property_law [OF assms(1,4)] by simp
qed

lemma by_type_is_filter:
  assumes "ok s" and "x \<in> dom (ag_nodes (view s))"
    and "r_outgoing s x = Inr rs" and "r_outgoing_by_type s x ty = Inr ts" and "text_ok ty"
  shows "mset ts = filter_mset (\<lambda>r. rel_type r = ty) (mset rs)"
proof -
  from outgoing_law [OF assms(1,2)] outgoing_by_type_law [OF assms(1,5,2)] assms(3,4)
  have "set ts = set (filter (\<lambda>r. rel_type r = ty) rs)" "distinct ts"
    "distinct (filter (\<lambda>r. rel_type r = ty) rs)"
    by (auto simp: lists_rels_def distinct_map)
  then have "mset ts = mset (filter (\<lambda>r. rel_type r = ty) rs)"
    using set_eq_iff_mset_eq_distinct by blast
  then show ?thesis by simp
qed

end

section \<open>\<open>impl GraphRead for GraphState\<close>\<close>

datatype graph_read_error = Store string

fun display_graph_error :: "graph_error \<Rightarrow> string" where
  "display_graph_error (NodeAlreadyExists x) = ''node already exists: '' @ show_u64 x"
| "display_graph_error (NodeNotFound x) = ''node not found: '' @ show_u64 x"
| "display_graph_error (RelationshipAlreadyExists x) = ''relationship already exists: '' @ show_u64 x"
| "display_graph_error (RelationshipNotFound x) = ''relationship not found: '' @ show_u64 x"
| "display_graph_error (RelationshipEndpointNotFound r x) =
     ''relationship '' @ show_u64 r @ '' refers to missing node '' @ show_u64 x"

definition read_error_from :: "graph_error + 'a \<Rightarrow> graph_read_error + 'a" where
  "read_error_from r = (case r of Inl e \<Rightarrow> Inl (Store (display_graph_error e)) | Inr x \<Rightarrow> Inr x)"

definition read_node :: "graph_state \<Rightarrow> node_id \<Rightarrow> graph_read_error + node option" where
  "read_node g x = Inr (fmlookup (nodes g) x)"

definition read_boundary_node :: "graph_state \<Rightarrow> node_id \<Rightarrow> graph_read_error + boundary_node option" where
  "read_boundary_node g x = Inr (fmlookup (boundary_nodes g) x)"

definition read_nodes :: "graph_state \<Rightarrow> graph_read_error + node list" where
  "read_nodes g = Inr (map snd (hm_iter (nodes g)))"

definition read_node_ids :: "graph_state \<Rightarrow> graph_read_error + node_id list" where
  "read_node_ids g = Inr (node_ids g)"

definition read_relationship ::
  "graph_state \<Rightarrow> relationship_id \<Rightarrow> graph_read_error + relationship option" where
  "read_relationship g x = Inr (fmlookup (relationships g) x)"

definition read_node_ids_by_label :: "graph_state \<Rightarrow> string \<Rightarrow> graph_read_error + node_id list" where
  "read_node_ids_by_label g l = Inr (node_ids_by_label g l)"

definition read_node_ids_by_label_property ::
  "graph_state \<Rightarrow> string \<Rightarrow> string \<Rightarrow> val \<Rightarrow> graph_read_error + node_id list" where
  "read_node_ids_by_label_property g l k v = Inr (node_ids_by_label_property g l k v)"

definition read_boundary_node_ids_by_label_property ::
  "graph_state \<Rightarrow> string \<Rightarrow> string \<Rightarrow> val \<Rightarrow> graph_read_error + node_id list" where
  "read_boundary_node_ids_by_label_property g l k v = Inr (boundary_node_ids_by_label_property g l k v)"

definition read_outgoing :: "graph_state \<Rightarrow> node_id \<Rightarrow> graph_read_error + relationship list" where
  "read_outgoing g x = read_error_from (outgoing_rels g x)"

definition read_outgoing_by_type ::
  "graph_state \<Rightarrow> node_id \<Rightarrow> string \<Rightarrow> graph_read_error + relationship list" where
  "read_outgoing_by_type g x ty = read_error_from (outgoing_by_type g x ty)"

definition read_incoming :: "graph_state \<Rightarrow> node_id \<Rightarrow> graph_read_error + relationship list" where
  "read_incoming g x = read_error_from (incoming_rels g x)"

definition read_incoming_by_type ::
  "graph_state \<Rightarrow> node_id \<Rightarrow> string \<Rightarrow> graph_read_error + relationship list" where
  "read_incoming_by_type g x ty = read_error_from (incoming_by_type g x ty)"

subsection \<open>The laws hold\<close>

lemma sorted_ids_look: "sorted_ids (fmlookup m k) = sorted_list_of_fset (look m k)"
  by (auto simp: sorted_ids_def look_def sorted_list_of_fset.rep_eq split: option.splits)

lemma fmlookup_dom_set: "fset (fmdom m) = dom (fmlookup m)"
  by (auto simp: fmdom.rep_eq)

lemma read_index_laws:
  assumes "graph_inv g"
  shows "node_ids_by_label g l = sorted_list_of_set (ag_by_label (abs_graph g) l)"
    and "node_ids_by_label_property g l k v = sorted_list_of_set (ag_by_label_property (abs_graph g) l k v)"
    and "boundary_node_ids_by_label_property g l k v =
           sorted_list_of_set (ag_boundary_by_label_property (abs_graph g) l k v)"
proof -
  note p = graph_invD(2) [OF assms, unfolded postings_inv_def]
  note c = posting_coherentD [OF conjunct1 [OF p]] posting_coherentD [OF conjunct1 [OF conjunct2 [OF p]]]
    posting_coherentD [OF conjunct2 [OF conjunct2 [OF p]]]
  have "fset (look (label_nodes (indexes g)) l) = ag_by_label (abs_graph g) l"
    by (auto simp: c ag_by_label_def)
  then show "node_ids_by_label g l = sorted_list_of_set (ag_by_label (abs_graph g) l)"
    by (simp add: node_ids_by_label_def sorted_ids_look sorted_list_of_fset.rep_eq)
  have "fset (look (label_property_nodes (indexes g)) (new_label_property_key l k (value_key v))) =
      ag_by_label_property (abs_graph g) l k v"
    by (auto simp: c ag_by_label_property_def node_lp_keys_def new_label_property_key_def)
  then show "node_ids_by_label_property g l k v = sorted_list_of_set (ag_by_label_property (abs_graph g) l k v)"
    by (simp add: node_ids_by_label_property_def sorted_ids_look sorted_list_of_fset.rep_eq)
  have "fset (look (boundary_label_property_nodes (indexes g)) (new_label_property_key l k (value_key v))) =
      ag_boundary_by_label_property (abs_graph g) l k v"
    by (auto simp: c ag_boundary_by_label_property_def boundary_lp_keys_def new_label_property_key_def)
  then show "boundary_node_ids_by_label_property g l k v =
      sorted_list_of_set (ag_boundary_by_label_property (abs_graph g) l k v)"
    by (simp add: boundary_node_ids_by_label_property_def sorted_ids_look sorted_list_of_fset.rep_eq)
qed

lemma map_filter_lookup:
  assumes "keyed_by_id g" and "distinct ids" and "\<And>x. x \<in> set ids \<Longrightarrow> fmlookup (relationships g) x \<noteq> None"
  shows "lists_rels (Inr (List.map_filter (fmlookup (relationships g)) ids))
           {r. fmlookup (relationships g) (rel_id r) = Some r \<and> rel_id r \<in> set ids}"
proof -
  have key: "fmlookup (relationships g) x = Some r \<Longrightarrow> rel_id r = x" for x r
    using assms(1) by (simp add: keyed_by_id_def)
  have "map rel_id (List.map_filter (fmlookup (relationships g)) ids) = ids \<and>
      set (List.map_filter (fmlookup (relationships g)) ids) =
        {r. fmlookup (relationships g) (rel_id r) = Some r \<and> rel_id r \<in> set ids}"
    using assms(3)
  proof (induction ids)
    case (Cons x xs)
    then obtain r where r: "fmlookup (relationships g) x = Some r" by fastforce
    have "{q. fmlookup (relationships g) (rel_id q) = Some q \<and> rel_id q \<in> set (x # xs)} =
        insert r {q. fmlookup (relationships g) (rel_id q) = Some q \<and> rel_id q \<in> set xs}"
      using r key [OF r] by auto
    with Cons r key [OF r] show ?case by simp
  qed simp
  then show ?thesis using assms(2) by (simp add: lists_rels_def)
qed

lemma rels_in_subset:
  assumes "lists_rels res {r. P r \<and> rel_id r \<in> A}" and "\<And>r. P r \<Longrightarrow> rel_id r \<in> A \<longleftrightarrow> Q r"
  shows "lists_rels res {r. P r \<and> Q r}"
proof -
  have "{r. P r \<and> rel_id r \<in> A} = {r. P r \<and> Q r}" using assms(2) by blast
  with assms(1) show ?thesis by simp
qed

lemma read_adjacency_laws:
  assumes g: "graph_inv g" and x: "x \<in> dom (fmlookup (nodes g))"
  shows "lists_rels (outgoing_rels g x) (ag_outgoing (abs_graph g) x)"
    and "lists_rels (outgoing_by_type g x ty) {r \<in> ag_outgoing (abs_graph g) x. rel_type r = ty}"
    and "lists_rels (incoming_rels g x) (ag_incoming (abs_graph g) x)"
    and "lists_rels (incoming_by_type g x ty) {r \<in> ag_incoming (abs_graph g) x. rel_type r = ty}"
proof -
  note k = graph_invD(1) [OF g] and adj = adjacency_invD [OF graph_invD(3) [OF g]]
    and typed = conjunct1 [OF graph_invD(4) [OF g, unfolded typed_adjacency_inv_def], rule_format]
      conjunct2 [OF graph_invD(4) [OF g, unfolded typed_adjacency_inv_def], rule_format]
  have e: "ensure_node_exists x g = Inr ()"
    using x by (auto simp: ensure_node_exists_def in_fmdom_iff fmlookup_dom'_iff)
  have outs: "y \<in> set (out_ids g x) \<Longrightarrow> fmlookup (relationships g) y \<noteq> None"
    and ins: "y \<in> set (in_ids g x) \<Longrightarrow> fmlookup (relationships g) y \<noteq> None" for y
    using adj(5) [of y x] adj(6) [of y x] by auto
  show "lists_rels (outgoing_rels g x) (ag_outgoing (abs_graph g) x)"
    unfolding ag_outgoing_def outgoing_rels_def e rbind.simps out_ids_def [symmetric] abs_graph_simps
    by (rule rels_in_subset [OF map_filter_lookup [OF k _ outs]]) (use adj in auto)
  show "lists_rels (incoming_rels g x) (ag_incoming (abs_graph g) x)"
    unfolding ag_incoming_def incoming_rels_def e rbind.simps in_ids_def [symmetric] abs_graph_simps
    by (rule rels_in_subset [OF map_filter_lookup [OF k _ ins]])
       (use adj in \<open>auto simp: in_ids_iff_linked [OF g]\<close>)
  show "lists_rels (outgoing_by_type g x ty) {r \<in> ag_outgoing (abs_graph g) x. rel_type r = ty}"
    unfolding ag_outgoing_def outgoing_by_type_def e rbind.simps typed mem_Collect_eq conj_assoc
      abs_graph_simps
    by (rule rels_in_subset [OF map_filter_lookup [OF k]])
       (use adj outs in \<open>auto simp: has_type_def\<close>)
  show "lists_rels (incoming_by_type g x ty) {r \<in> ag_incoming (abs_graph g) x. rel_type r = ty}"
    unfolding ag_incoming_def incoming_by_type_def e rbind.simps typed mem_Collect_eq conj_assoc
      abs_graph_simps
    by (rule rels_in_subset [OF map_filter_lookup [OF k]])
       (use adj ins in \<open>auto simp: has_type_def in_ids_iff_linked [OF g]\<close>)
qed

lemma lists_rels_read: "lists_rels (read_error_from res) R = lists_rels res R"
  by (auto simp: lists_rels_def read_error_from_def split: sum.splits)

interpretation graph_state_read: graph_read graph_inv "\<lambda>_. True" "\<lambda>_ _ _. True" abs_graph read_node read_node_ids
    read_node_ids_by_label read_node_ids_by_label_property read_boundary_node_ids_by_label_property
    read_outgoing read_outgoing_by_type read_incoming read_incoming_by_type
  by unfold_locales
     (simp_all add: read_node_def read_node_ids_def node_ids_def sorted_list_of_fset.rep_eq
        fmlookup_dom_set read_node_ids_by_label_def read_node_ids_by_label_property_def
        read_boundary_node_ids_by_label_property_def read_index_laws read_outgoing_def
        read_outgoing_by_type_def read_incoming_def read_incoming_by_type_def lists_rels_read
        read_adjacency_laws)

section \<open>Properties of the graph reads\<close>

definition sample_graph :: graph_state where
  "sample_graph = snd (apply_command (CreateRelationship 1 7 7 ''KNOWS'' fmempty)
     (snd (apply_command (CreateNode 7 [''Person''] fmempty) new_graph)))"

lemma sample_graph_inv: "graph_inv sample_graph"
  by (simp only: sample_graph_def apply_command_graph_inv graph_inv_new_graph)

text \<open>
  C13. The secondary indexes of the graph never go stale: in every state that satisfies the invariant
  the label lookup returns exactly the identifiers a scan of all nodes for the label would return, in
  the same ascending order, and the label-property lookup exactly the members of the label lookup
  whose property has the value.
\<close>

theorem index_reads_equal_scan:
  assumes "graph_inv g"
  shows "node_ids_by_label g l =
           filter (\<lambda>x. \<exists>n. fmlookup (nodes g) x = Some n \<and> l \<in> set (node_labels n)) (node_ids g)
       \<and> node_ids_by_label_property g l k v =
           filter (\<lambda>x. \<exists>n. fmlookup (nodes g) x = Some n \<and> fmlookup (node_properties n) k = Some v)
             (node_ids_by_label g l)"
  using graph_state_read.by_label_is_scan [OF assms, of "node_ids g" l]
    graph_state_read.by_label_property_is_filter [OF assms, of l "node_ids_by_label g l" k v]
  by (simp add: read_node_ids_def read_node_ids_by_label_def read_node_ids_by_label_property_def
      graph_state_read.has_label_def [abs_def] graph_state_read.has_property_def [abs_def] read_node_def)

theorem index_reads_equal_scan_witness:
  "node_ids_by_label sample_graph ''Person'' = [7]"
proof -
  have "node_ids sample_graph = [7]" and "fmlookup (nodes sample_graph) 7 = Some (new_node 7 [''Person''] fmempty)"
    by code_simp+
  then show ?thesis
    using conjunct1 [OF index_reads_equal_scan [OF sample_graph_inv, where l = "''Person''"]]
    by (simp add: new_node_def)
qed

text \<open>
  Expanding a node by relationship type returns each relationship of that type once: in every
  state that satisfies the invariant the typed adjacency of an existing node is exactly the
  sub-multiset of its outgoing relationships with that type, both lists hold stored relationships
  starting at the node, and reading a missing node is an error.
\<close>

lemma outgoing_by_type_exact:
  assumes "graph_inv g" and "fmlookup (nodes g) x \<noteq> None"
    and "outgoing_rels g x = Inr rs" and "outgoing_by_type g x ty = Inr ts"
  shows "mset ts = filter_mset (\<lambda>r. rel_type r = ty) (mset rs) \<and> distinct rs \<and>
    set rs = {r. fmlookup (relationships g) (rel_id r) = Some r \<and> rel_from r = x}"
proof -
  have x: "x \<in> dom (fmlookup (nodes g))" "x \<in> dom (ag_nodes (abs_graph g))"
    using assms(2) by (auto simp: fmlookup_dom'_iff)
  show ?thesis
    using graph_state_read.by_type_is_filter [OF assms(1) x(2), of rs ty ts] assms(3,4)
      read_adjacency_laws(1) [OF assms(1) x(1)]
    by (simp add: read_outgoing_def read_outgoing_by_type_def read_error_from_def lists_rels_def
        ag_outgoing_def distinct_map)
qed

text \<open>
  C24. Identifier allocation is fresh until the \<open>u64\<close> space is used up: if the next identifier is not
  \<open>u64::MAX\<close>, the allocated identifier is not in use, the counter strictly advances, the invariant is
  kept, and creating a node under the allocated identifier succeeds.
\<close>

theorem allocate_node_id_fresh:
  assumes "graph_inv g" and "next_node_id g \<noteq> - 1" and "allocate_node_id g = (x, h)"
  shows "fmlookup (nodes g) x = None \<and> x < next_node_id h \<and> graph_inv h \<and>
    fst (create_node x labels props h) = Inr ()"
proof -
  have x: "x = next_node_id g" and h: "h = g\<lparr>next_node_id := next_node_id g + 1\<rparr>"
    using assms(3) by (auto simp: allocate_node_id_def)
  have lt: "next_node_id g < next_node_id g + 1"
    using assms(2) by (rule word_less_add_one)
  have fresh: "fmlookup (nodes g) x = None"
    using graph_invD(6) [OF assms(1)] assms(2) unfolding x
    by (auto simp: fresh_ids_inv_def in_fmdom_iff)
  have "graph_inv h"
  proof -
    have "keyed_by_id h = keyed_by_id g" "postings_inv h = postings_inv g" "adjacency_inv h = adjacency_inv g"
      "typed_adjacency_inv h = typed_adjacency_inv g" "endpoints_inv h = endpoints_inv g"
      by (simp_all add: h inv_defs in_ids_def out_ids_def)
    moreover have "fresh_ids_inv h"
      using graph_invD(6) [OF assms(1)] order.strict_trans [OF _ lt]
      unfolding h fresh_ids_inv_def by simp blast
    ultimately show ?thesis using assms(1) by (simp add: graph_inv_def)
  qed
  then show ?thesis using fresh lt by (simp add: h x create_node_def in_fmdom_iff Let_def)
qed

theorem allocate_node_id_fresh_witness:
  "fst (create_node (fst (allocate_node_id sample_graph)) [] fmempty (snd (allocate_node_id sample_graph))) = Inr ()
   \<and> fst (allocate_node_id sample_graph) = 8"
proof -
  have "next_node_id sample_graph \<noteq> - 1" "fst (allocate_node_id sample_graph) = 8" by code_simp+
  then show ?thesis
    using allocate_node_id_fresh [OF sample_graph_inv _ surjective_pairing, of "[]" fmempty] by simp
qed

end
