(* ===== verification/Graph_Store.thy ===== *)
theory Graph_Store
  imports Store_Keys Graph_Read
begin

text \<open>
  The persistent graph of \<open>neo4r-storage/src/graph_store.rs\<close>: \<open>KvGraphStore\<close> over the in-memory
  key-value store. Nodes, boundary nodes and relationships are stored as encoded commands; every
  index is a set of keys with empty values. \<open>apply\<close> writes one batch per command; \<open>apply_batch\<close>
  collects the writes of many commands against a staged state and writes them at once.
\<close>

type_synonym 'a store_result = "storage_error fault + 'a"

record kv_graph_store =
  gs_kv :: memory_kv

definition new_store :: "memory_kv \<Rightarrow> kv_graph_store" where
  "new_store kv = \<lparr>gs_kv = kv\<rparr>"

section \<open>Records\<close>

definition decode_node :: "bytes \<Rightarrow> storage_error + node" where
  "decode_node payload = rbind (decode_command payload) (\<lambda>c.
     case c of CreateNode x labels props \<Rightarrow> Inr (new_node x labels props)
             | _ \<Rightarrow> Inl (CorruptStore ''expected node record''))"

definition decode_boundary_node :: "bytes \<Rightarrow> storage_error + boundary_node" where
  "decode_boundary_node payload = rbind (decode_command payload) (\<lambda>c.
     case c of UpsertBoundaryNode x owner labels props version \<Rightarrow>
                 Inr (new_boundary_node x owner labels props version)
             | _ \<Rightarrow> Inl (CorruptStore ''expected boundary node record''))"

definition decode_relationship :: "bytes \<Rightarrow> storage_error + relationship" where
  "decode_relationship payload = rbind (decode_command payload) (\<lambda>c.
     case c of CreateRelationship r from to ty props \<Rightarrow> Inr (new_relationship r from to ty props)
             | _ \<Rightarrow> Inl (CorruptStore ''expected relationship record''))"

text \<open>
  \<open>key.get(key.len().saturating_sub(8)..)\<close> is never \<open>None\<close>; for a key of fewer than eight bytes the
  conversion to an array of eight panics.
\<close>

definition id_from_key :: "bytes \<Rightarrow> u64 store_result" where
  "id_from_key key =
     (let bs = drop (length key - 8) key
      in if length bs = 8 then Inr (from_be_u64 bs)
         else Inl (Panic ''called `Result::unwrap()` on an `Err` value: TryFromSliceError(())''))"

definition ids_from_keys :: "(bytes \<times> bytes) list \<Rightarrow> u64 list store_result" where
  "ids_from_keys entries =
     rbind (collect_results (map (\<lambda>(key, _). id_from_key key) entries)) (\<lambda>ids. Inr (sort ids))"

section \<open>Reads\<close>

definition optional :: "('a \<Rightarrow> 'e + 'b) \<Rightarrow> 'a option \<Rightarrow> 'e + 'b option" where
  "optional f x = (case x of None \<Rightarrow> Inr None | Some a \<Rightarrow> rbind (f a) (\<lambda>b. Inr (Some b)))"

definition gs_scan :: "kv_graph_store \<Rightarrow> bytes \<Rightarrow> (bytes \<times> bytes) list store_result" where
  "gs_scan s p = lift_err (kv_scan_prefix (gs_kv s) p)"

definition gs_node :: "kv_graph_store \<Rightarrow> node_id \<Rightarrow> node option store_result" where
  "gs_node s x = lift_err (rbind (kv_get (gs_kv s) (node_key x)) (optional decode_node))"

definition gs_nodes :: "kv_graph_store \<Rightarrow> node list store_result" where
  "gs_nodes s = rbind (gs_scan s node_prefix) (\<lambda>es.
     lift_err (collect_results (map (\<lambda>(_, value). decode_node value) es)))"

definition gs_node_ids :: "kv_graph_store \<Rightarrow> node_id list store_result" where
  "gs_node_ids s = rbind (gs_scan s node_prefix) ids_from_keys"

definition gs_boundary_node :: "kv_graph_store \<Rightarrow> node_id \<Rightarrow> boundary_node option store_result" where
  "gs_boundary_node s x =
     lift_err (rbind (kv_get (gs_kv s) (boundary_node_key x)) (optional decode_boundary_node))"

definition gs_boundary_nodes :: "kv_graph_store \<Rightarrow> boundary_node list store_result" where
  "gs_boundary_nodes s = rbind (gs_scan s boundary_node_prefix) (\<lambda>es.
     lift_err (collect_results (map (\<lambda>(_, value). decode_boundary_node value) es)))"

definition gs_relationship :: "kv_graph_store \<Rightarrow> relationship_id \<Rightarrow> relationship option store_result" where
  "gs_relationship s r =
     lift_err (rbind (kv_get (gs_kv s) (relationship_key r)) (optional decode_relationship))"

definition gs_relationships :: "kv_graph_store \<Rightarrow> relationship list store_result" where
  "gs_relationships s = rbind (gs_scan s relationship_prefix) (\<lambda>es.
     lift_err (collect_results (map (\<lambda>(_, value). decode_relationship value) es)))"

definition gs_node_ids_by_label :: "kv_graph_store \<Rightarrow> string \<Rightarrow> node_id list store_result" where
  "gs_node_ids_by_label s l = rbind (gs_scan s (label_prefix l)) ids_from_keys"

definition gs_node_ids_by_label_property ::
  "kv_graph_store \<Rightarrow> string \<Rightarrow> string \<Rightarrow> val \<Rightarrow> node_id list store_result" where
  "gs_node_ids_by_label_property s l pk v =
     rbind (gs_scan s (label_property_prefix l pk v)) ids_from_keys"

definition gs_boundary_node_ids_by_label_property ::
  "kv_graph_store \<Rightarrow> string \<Rightarrow> string \<Rightarrow> val \<Rightarrow> node_id list store_result" where
  "gs_boundary_node_ids_by_label_property s l pk v =
     rbind (gs_scan s (boundary_label_property_prefix l pk v)) ids_from_keys"

definition relationships_from_index :: "kv_graph_store \<Rightarrow> bytes \<Rightarrow> relationship list store_result" where
  "relationships_from_index s p = rbind (gs_scan s p) (\<lambda>es.
     collect_results (map (\<lambda>(key, _). rbind (id_from_key key) (\<lambda>r. rbind (gs_relationship s r) (\<lambda>rel.
       case rel of Some rel \<Rightarrow> Inr rel
                 | None \<Rightarrow> Inl (Err (CorruptStore (''missing relationship '' @ show_u64 r)))))) es))"

definition gs_outgoing_by_type :: "kv_graph_store \<Rightarrow> node_id \<Rightarrow> string \<Rightarrow> relationship list store_result" where
  "gs_outgoing_by_type s n ty = relationships_from_index s (outgoing_type_prefix n ty)"

definition gs_outgoing :: "kv_graph_store \<Rightarrow> node_id \<Rightarrow> relationship list store_result" where
  "gs_outgoing s n = relationships_from_index s (outgoing_prefix n)"

definition gs_incoming_by_type :: "kv_graph_store \<Rightarrow> node_id \<Rightarrow> string \<Rightarrow> relationship list store_result" where
  "gs_incoming_by_type s n ty = relationships_from_index s (incoming_type_prefix n ty)"

definition gs_incoming :: "kv_graph_store \<Rightarrow> node_id \<Rightarrow> relationship list store_result" where
  "gs_incoming s n = relationships_from_index s (incoming_prefix n)"

section \<open>Batches\<close>

definition put_node_into_batch ::
  "node_id \<Rightarrow> string list \<Rightarrow> properties \<Rightarrow> kv_write_batch \<Rightarrow> kv_write_batch" where
  "put_node_into_batch x labels props b =
     batch_put (node_key x) (encode_command (CreateNode x labels props)) b"

definition index_node_into_batch ::
  "node_id \<Rightarrow> string list \<Rightarrow> properties \<Rightarrow> kv_write_batch \<Rightarrow> kv_write_batch" where
  "index_node_into_batch x labels props b =
     fold (\<lambda>l b. fold (\<lambda>(pk, pv) b. batch_put (label_property_key l pk pv x) [] b) (hm_iter props)
                   (batch_put (label_key l x) [] b)) labels b"

definition remove_node_indexes_into_batch :: "node \<Rightarrow> kv_write_batch \<Rightarrow> kv_write_batch" where
  "remove_node_indexes_into_batch n b =
     fold (\<lambda>l b. fold (\<lambda>(pk, pv) b. batch_delete (label_property_key l pk pv (node_id n)) b)
                   (hm_iter (node_properties n))
                   (batch_delete (label_key l (node_id n)) b)) (node_labels n) b"

definition index_boundary_node_into_batch ::
  "node_id \<Rightarrow> string list \<Rightarrow> properties \<Rightarrow> kv_write_batch \<Rightarrow> kv_write_batch" where
  "index_boundary_node_into_batch x labels props b =
     fold (\<lambda>l b. fold (\<lambda>(pk, pv) b. batch_put (boundary_label_property_key l pk pv x) [] b)
                   (hm_iter props) b) labels b"

definition remove_boundary_node_indexes_into_batch ::
  "boundary_node \<Rightarrow> kv_write_batch \<Rightarrow> kv_write_batch" where
  "remove_boundary_node_indexes_into_batch n b =
     fold (\<lambda>l b. fold (\<lambda>(pk, pv) b. batch_delete (boundary_label_property_key l pk pv (bn_id n)) b)
                   (hm_iter (bn_properties n)) b) (bn_labels n) b"

definition relationship_record :: "relationship \<Rightarrow> command" where
  "relationship_record r =
     CreateRelationship (rel_id r) (rel_from r) (rel_to r) (rel_type r) (rel_properties r)"

definition create_relationship_value_into_batch ::
  "relationship \<Rightarrow> kv_write_batch \<Rightarrow> kv_write_batch" where
  "create_relationship_value_into_batch r b =
     batch_put (outgoing_type_key (rel_from r) (rel_type r) (rel_id r)) []
       (batch_put (outgoing_key (rel_from r) (rel_id r)) []
         (batch_put (relationship_key (rel_id r)) (encode_command (relationship_record r)) b))"

definition create_relationship_into_batch ::
  "kv_graph_store \<Rightarrow> relationship_id \<Rightarrow> node_id \<Rightarrow> node_id \<Rightarrow> string \<Rightarrow> properties \<Rightarrow> kv_write_batch
     \<Rightarrow> kv_write_batch store_result" where
  "create_relationship_into_batch s r from to ty props b =
     (let b' = create_relationship_value_into_batch (new_relationship r from to ty props) b
      in rbind (gs_node s to) (\<lambda>n.
           Inr (if n \<noteq> None
                then batch_put (incoming_type_key to ty r) [] (batch_put (incoming_key to r) [] b')
                else b')))"

definition delete_keys_into_batch ::
  "relationship \<Rightarrow> relationship_id \<Rightarrow> kv_write_batch \<Rightarrow> kv_write_batch" where
  "delete_keys_into_batch rel r b =
     batch_delete (incoming_type_key (rel_to rel) (rel_type rel) r)
       (batch_delete (incoming_key (rel_to rel) r)
         (batch_delete (outgoing_type_key (rel_from rel) (rel_type rel) r)
           (batch_delete (outgoing_key (rel_from rel) r)
             (batch_delete (relationship_key r) b))))"

definition delete_relationship_into_batch ::
  "kv_graph_store \<Rightarrow> relationship_id \<Rightarrow> kv_write_batch \<Rightarrow> kv_write_batch store_result" where
  "delete_relationship_into_batch s r b =
     rbind (gs_relationship s r) (\<lambda>rel.
       Inr (case rel of None \<Rightarrow> b | Some rel \<Rightarrow> delete_keys_into_batch rel r b))"

section \<open>Applying one command\<close>

type_synonym store_step = "unit store_result \<times> kv_graph_store"

definition gs_write :: "kv_write_batch \<Rightarrow> kv_graph_store \<Rightarrow> store_step" where
  "gs_write b s = (case kv_write_batch b (gs_kv s) of (res, kv) \<Rightarrow> (lift_err res, s\<lparr>gs_kv := kv\<rparr>))"

text \<open>A computed batch is written; an error before that leaves the store as it was.\<close>

definition gs_commit :: "kv_graph_store \<Rightarrow> kv_write_batch store_result \<Rightarrow> store_step" where
  "gs_commit s r = (case r of Inl e \<Rightarrow> (Inl e, s) | Inr b \<Rightarrow> gs_write b s)"

definition gs_create_node ::
  "node_id \<Rightarrow> string list \<Rightarrow> properties \<Rightarrow> kv_graph_store \<Rightarrow> store_step" where
  "gs_create_node x labels props s =
     gs_write (index_node_into_batch x labels props (put_node_into_batch x labels props new_batch)) s"

definition gs_create_relationship ::
  "relationship_id \<Rightarrow> node_id \<Rightarrow> node_id \<Rightarrow> string \<Rightarrow> properties \<Rightarrow> kv_graph_store \<Rightarrow> store_step" where
  "gs_create_relationship r from to ty props s =
     gs_commit s (create_relationship_into_batch s r from to ty props new_batch)"

definition gs_upsert_boundary_node ::
  "node_id \<Rightarrow> shard_id \<Rightarrow> string list \<Rightarrow> properties \<Rightarrow> u64 \<Rightarrow> kv_graph_store \<Rightarrow> store_step" where
  "gs_upsert_boundary_node x owner labels props version s =
     gs_commit s (rbind (gs_boundary_node s x) (\<lambda>old.
       let b = (case old of None \<Rightarrow> new_batch
                          | Some old \<Rightarrow> remove_boundary_node_indexes_into_batch old new_batch);
           b' = batch_put (boundary_node_key x)
                  (encode_command (UpsertBoundaryNode x owner labels props version)) b
       in Inr (index_boundary_node_into_batch x labels props b')))"

definition rewrite_node_into_batch :: "node \<Rightarrow> node \<Rightarrow> kv_write_batch \<Rightarrow> kv_write_batch" where
  "rewrite_node_into_batch old n b =
     index_node_into_batch (node_id n) (node_labels n) (node_properties n)
       (put_node_into_batch (node_id n) (node_labels n) (node_properties n)
         (remove_node_indexes_into_batch old b))"

text \<open>
  The four node updates share one shape: read the node, return \<open>Ok\<close> when it is missing or the update
  does not apply, otherwise rewrite it and its index keys in one batch.
\<close>

definition gs_update_node ::
  "node_id \<Rightarrow> (node \<Rightarrow> bool) \<Rightarrow> (node \<Rightarrow> node) \<Rightarrow> kv_graph_store \<Rightarrow> store_step" where
  "gs_update_node x applies f s =
     (case gs_node s x of
        Inl e \<Rightarrow> (Inl e, s)
      | Inr None \<Rightarrow> (Inr (), s)
      | Inr (Some n) \<Rightarrow>
          if applies n then gs_write (rewrite_node_into_batch n (f n) new_batch) s else (Inr (), s))"

definition gs_set_node_property :: "node_id \<Rightarrow> string \<Rightarrow> val \<Rightarrow> kv_graph_store \<Rightarrow> store_step" where
  "gs_set_node_property x key v =
     gs_update_node x (\<lambda>_. True) (\<lambda>n. n\<lparr>node_properties := fmupd key v (node_properties n)\<rparr>)"

definition gs_remove_node_property :: "node_id \<Rightarrow> string \<Rightarrow> kv_graph_store \<Rightarrow> store_step" where
  "gs_remove_node_property x key =
     gs_update_node x (\<lambda>_. True) (\<lambda>n. n\<lparr>node_properties := fmdrop key (node_properties n)\<rparr>)"

definition gs_add_node_label :: "node_id \<Rightarrow> string \<Rightarrow> kv_graph_store \<Rightarrow> store_step" where
  "gs_add_node_label x l =
     gs_update_node x (\<lambda>n. \<not> list_ex (\<lambda>existing. existing = l) (node_labels n))
       (\<lambda>n. n\<lparr>node_labels := node_labels n @ [l]\<rparr>)"

definition gs_remove_node_label :: "node_id \<Rightarrow> string \<Rightarrow> kv_graph_store \<Rightarrow> store_step" where
  "gs_remove_node_label x l =
     gs_update_node x (\<lambda>n. list_ex (\<lambda>existing. existing = l) (node_labels n))
       (\<lambda>n. n\<lparr>node_labels := filter (\<lambda>existing. existing \<noteq> l) (node_labels n)\<rparr>)"

definition gs_update_relationship ::
  "relationship_id \<Rightarrow> (properties \<Rightarrow> properties) \<Rightarrow> kv_graph_store \<Rightarrow> store_step" where
  "gs_update_relationship r f s =
     (case gs_relationship s r of
        Inl e \<Rightarrow> (Inl e, s)
      | Inr None \<Rightarrow> (Inr (), s)
      | Inr (Some rel) \<Rightarrow>
          gs_write (batch_put (relationship_key r)
            (encode_command (relationship_record (rel\<lparr>rel_properties := f (rel_properties rel)\<rparr>)))
            new_batch) s)"

definition gs_set_relationship_property ::
  "relationship_id \<Rightarrow> string \<Rightarrow> val \<Rightarrow> kv_graph_store \<Rightarrow> store_step" where
  "gs_set_relationship_property r key v = gs_update_relationship r (fmupd key v)"

definition gs_remove_relationship_property ::
  "relationship_id \<Rightarrow> string \<Rightarrow> kv_graph_store \<Rightarrow> store_step" where
  "gs_remove_relationship_property r key = gs_update_relationship r (fmdrop key)"

definition gs_delete_relationship :: "relationship_id \<Rightarrow> kv_graph_store \<Rightarrow> store_step" where
  "gs_delete_relationship r s = gs_commit s (delete_relationship_into_batch s r new_batch)"

definition gs_delete_node :: "node_id \<Rightarrow> kv_graph_store \<Rightarrow> store_step" where
  "gs_delete_node x s =
     (case gs_node s x of
        Inl e \<Rightarrow> (Inl e, s)
      | Inr None \<Rightarrow> (Inr (), s)
      | Inr (Some n) \<Rightarrow>
          gs_commit s (
            rbind (rbind (gs_scan s (outgoing_prefix x)) ids_from_keys) (\<lambda>outs.
            rbind (rbind (gs_scan s (incoming_prefix x)) ids_from_keys) (\<lambda>ins.
            rbind (for_each (dedup (sort (outs @ ins))) (delete_relationship_into_batch s) new_batch) (\<lambda>b.
            Inr (batch_delete (node_key x) (remove_node_indexes_into_batch n b)))))))"

fun gs_apply :: "command \<Rightarrow> kv_graph_store \<Rightarrow> store_step" where
  "gs_apply (CreateNode x labels props) s = gs_create_node x labels props s"
| "gs_apply (CreateRelationship r from to ty props) s = gs_create_relationship r from to ty props s"
| "gs_apply (UpsertBoundaryNode x owner labels props version) s =
     gs_upsert_boundary_node x owner labels props version s"
| "gs_apply (SetNodeProperty x key v) s = gs_set_node_property x key v s"
| "gs_apply (RemoveNodeProperty x key) s = gs_remove_node_property x key s"
| "gs_apply (AddNodeLabel x l) s = gs_add_node_label x l s"
| "gs_apply (RemoveNodeLabel x l) s = gs_remove_node_label x l s"
| "gs_apply (SetRelationshipProperty r key v) s = gs_set_relationship_property r key v s"
| "gs_apply (RemoveRelationshipProperty r key) s = gs_remove_relationship_property r key s"
| "gs_apply (DeleteRelationship r) s = gs_delete_relationship r s"
| "gs_apply (DeleteNode x) s = gs_delete_node x s"
| "gs_apply (ClusterConfigChange phase description voters table) s = (Inr (), s)"

section \<open>Applying a batch of commands\<close>

record staged_batch_state =
  staged_nodes :: "(node_id, node option) fmap"
  staged_boundary_nodes :: "(node_id, boundary_node option) fmap"
  staged_relationships :: "(relationship_id, relationship option) fmap"

definition new_staged :: staged_batch_state where
  "new_staged = \<lparr>staged_nodes = fmempty, staged_boundary_nodes = fmempty, staged_relationships = fmempty\<rparr>"

type_synonym batch_state = "kv_write_batch \<times> staged_batch_state"

definition staged_node :: "kv_graph_store \<Rightarrow> staged_batch_state \<Rightarrow> node_id \<Rightarrow> node option store_result" where
  "staged_node s st x = (case fmlookup (staged_nodes st) x of Some n \<Rightarrow> Inr n | None \<Rightarrow> gs_node s x)"

definition staged_boundary_node ::
  "kv_graph_store \<Rightarrow> staged_batch_state \<Rightarrow> node_id \<Rightarrow> boundary_node option store_result" where
  "staged_boundary_node s st x =
     (case fmlookup (staged_boundary_nodes st) x of Some n \<Rightarrow> Inr n | None \<Rightarrow> gs_boundary_node s x)"

definition staged_relationship ::
  "kv_graph_store \<Rightarrow> staged_batch_state \<Rightarrow> relationship_id \<Rightarrow> relationship option store_result" where
  "staged_relationship s st r =
     (case fmlookup (staged_relationships st) r of Some rel \<Rightarrow> Inr rel | None \<Rightarrow> gs_relationship s r)"

definition stage_node :: "node_id \<Rightarrow> node option \<Rightarrow> staged_batch_state \<Rightarrow> staged_batch_state" where
  "stage_node x n st = st\<lparr>staged_nodes := fmupd x n (staged_nodes st)\<rparr>"

definition stage_boundary_node ::
  "node_id \<Rightarrow> boundary_node option \<Rightarrow> staged_batch_state \<Rightarrow> staged_batch_state" where
  "stage_boundary_node x n st = st\<lparr>staged_boundary_nodes := fmupd x n (staged_boundary_nodes st)\<rparr>"

definition stage_relationship ::
  "relationship_id \<Rightarrow> relationship option \<Rightarrow> staged_batch_state \<Rightarrow> staged_batch_state" where
  "stage_relationship r rel st = st\<lparr>staged_relationships := fmupd r rel (staged_relationships st)\<rparr>"

definition delete_relationship_staged_into_batch ::
  "kv_graph_store \<Rightarrow> relationship_id \<Rightarrow> batch_state \<Rightarrow> batch_state store_result" where
  "delete_relationship_staged_into_batch s r = (\<lambda>(b, st).
     rbind (staged_relationship s st r) (\<lambda>rel.
       Inr (case rel of
              None \<Rightarrow> (b, st)
            | Some rel \<Rightarrow> (delete_keys_into_batch rel r b, stage_relationship r None st))))"

definition staged_attached :: "staged_batch_state \<Rightarrow> node_id \<Rightarrow> relationship_id list" where
  "staged_attached st x =
     List.map_filter (\<lambda>(r, rel).
       case rel of
         None \<Rightarrow> None
       | Some rel \<Rightarrow> if rel_from rel = x \<or> rel_to rel = x then Some r else None)
     (hm_iter (staged_relationships st))"

definition delete_node_staged_into_batch ::
  "kv_graph_store \<Rightarrow> node_id \<Rightarrow> batch_state \<Rightarrow> batch_state store_result" where
  "delete_node_staged_into_batch s x = (\<lambda>(b, st).
     rbind (staged_node s st x) (\<lambda>node.
       case node of
         None \<Rightarrow> Inr (b, st)
       | Some n \<Rightarrow>
           rbind (rbind (gs_scan s (outgoing_prefix x)) ids_from_keys) (\<lambda>outs.
           rbind (rbind (gs_scan s (incoming_prefix x)) ids_from_keys) (\<lambda>ins.
           rbind (for_each (dedup (sort (outs @ ins @ staged_attached st x)))
                    (delete_relationship_staged_into_batch s) (b, st)) (\<lambda>(b', st').
           Inr (batch_delete (node_key x) (remove_node_indexes_into_batch n b'),
                stage_node x None st'))))))"

definition update_node_staged ::
  "kv_graph_store \<Rightarrow> node_id \<Rightarrow> (node \<Rightarrow> bool) \<Rightarrow> (node \<Rightarrow> node) \<Rightarrow> batch_state \<Rightarrow> batch_state store_result" where
  "update_node_staged s x applies f = (\<lambda>(b, st).
     rbind (staged_node s st x) (\<lambda>node.
       case node of
         None \<Rightarrow> Inr (b, st)
       | Some n \<Rightarrow>
           if applies n then Inr (rewrite_node_into_batch n (f n) b, stage_node x (Some (f n)) st)
           else Inr (b, st)))"

definition update_relationship_staged ::
  "kv_graph_store \<Rightarrow> relationship_id \<Rightarrow> (properties \<Rightarrow> properties) \<Rightarrow> batch_state \<Rightarrow> batch_state store_result" where
  "update_relationship_staged s r f = (\<lambda>(b, st).
     rbind (staged_relationship s st r) (\<lambda>rel.
       case rel of
         None \<Rightarrow> Inr (b, st)
       | Some rel \<Rightarrow>
           let rel' = rel\<lparr>rel_properties := f (rel_properties rel)\<rparr>
           in Inr (create_relationship_value_into_batch rel' b, stage_relationship r (Some rel') st)))"

fun apply_into_batch :: "kv_graph_store \<Rightarrow> command \<Rightarrow> batch_state \<Rightarrow> batch_state store_result" where
  "apply_into_batch s (CreateNode x labels props) (b, st) =
     Inr (index_node_into_batch x labels props (put_node_into_batch x labels props b),
          stage_node x (Some (new_node x labels props)) st)"
| "apply_into_batch s (CreateRelationship r from to ty props) (b, st) =
     (let rel = new_relationship r from to ty props;
          b' = create_relationship_value_into_batch rel b
      in rbind (staged_node s st to) (\<lambda>n.
           Inr (if n \<noteq> None
                then batch_put (incoming_type_key to ty r) [] (batch_put (incoming_key to r) [] b')
                else b',
                stage_relationship r (Some rel) st)))"
| "apply_into_batch s (UpsertBoundaryNode x owner labels props version) (b, st) =
     rbind (staged_boundary_node s st x) (\<lambda>old.
       let b' = (case old of None \<Rightarrow> b | Some old \<Rightarrow> remove_boundary_node_indexes_into_batch old b);
           b'' = batch_put (boundary_node_key x)
                   (encode_command (UpsertBoundaryNode x owner labels props version)) b'
       in Inr (index_boundary_node_into_batch x labels props b'',
               stage_boundary_node x (Some (new_boundary_node x owner labels props version)) st))"
| "apply_into_batch s (SetNodeProperty x key v) bst =
     update_node_staged s x (\<lambda>_. True) (\<lambda>n. n\<lparr>node_properties := fmupd key v (node_properties n)\<rparr>) bst"
| "apply_into_batch s (RemoveNodeProperty x key) bst =
     update_node_staged s x (\<lambda>_. True) (\<lambda>n. n\<lparr>node_properties := fmdrop key (node_properties n)\<rparr>) bst"
| "apply_into_batch s (AddNodeLabel x l) bst =
     update_node_staged s x (\<lambda>n. \<not> list_ex (\<lambda>existing. existing = l) (node_labels n))
       (\<lambda>n. n\<lparr>node_labels := node_labels n @ [l]\<rparr>) bst"
| "apply_into_batch s (RemoveNodeLabel x l) bst =
     update_node_staged s x (\<lambda>n. list_ex (\<lambda>existing. existing = l) (node_labels n))
       (\<lambda>n. n\<lparr>node_labels := filter (\<lambda>existing. existing \<noteq> l) (node_labels n)\<rparr>) bst"
| "apply_into_batch s (SetRelationshipProperty r key v) bst = update_relationship_staged s r (fmupd key v) bst"
| "apply_into_batch s (RemoveRelationshipProperty r key) bst = update_relationship_staged s r (fmdrop key) bst"
| "apply_into_batch s (DeleteRelationship r) bst = delete_relationship_staged_into_batch s r bst"
| "apply_into_batch s (DeleteNode x) bst = delete_node_staged_into_batch s x bst"
| "apply_into_batch s (ClusterConfigChange phase description voters table) bst = Inr bst"

definition gs_apply_batch :: "command list \<Rightarrow> kv_graph_store \<Rightarrow> store_step" where
  "gs_apply_batch commands s =
     (if commands = [] then (Inr (), s)
      else gs_commit s (rbind (for_each commands (apply_into_batch s) (new_batch, new_staged)) (\<lambda>(b, _). Inr b)))"

section \<open>Index verification and repair\<close>

record graph_invariant_report =
  missing_index_keys :: "bytes list"
  unexpected_index_keys :: "bytes list"

definition is_clean :: "graph_invariant_report \<Rightarrow> bool" where
  "is_clean r \<longleftrightarrow> missing_index_keys r = [] \<and> unexpected_index_keys r = []"

text \<open>A \<open>BTreeSet\<close> of keys; iterating it is \<open>sorted_list_of_fset\<close>.\<close>

definition expected_node_index_keys :: "node \<Rightarrow> bytes fset \<Rightarrow> bytes fset" where
  "expected_node_index_keys n keys =
     fold (\<lambda>l keys. fold (\<lambda>(pk, pv) keys. finsert (label_property_key l pk pv (node_id n)) keys)
                      (hm_iter (node_properties n))
                      (finsert (label_key l (node_id n)) keys)) (node_labels n) keys"

definition expected_boundary_node_index_keys :: "boundary_node \<Rightarrow> bytes fset \<Rightarrow> bytes fset" where
  "expected_boundary_node_index_keys n keys =
     fold (\<lambda>l keys. fold (\<lambda>(pk, pv) keys. finsert (boundary_label_property_key l pk pv (bn_id n)) keys)
                      (hm_iter (bn_properties n)) keys) (bn_labels n) keys"

definition expected_relationship_index_keys ::
  "kv_graph_store \<Rightarrow> relationship \<Rightarrow> bytes fset \<Rightarrow> bytes fset store_result" where
  "expected_relationship_index_keys s r keys =
     (let keys' = finsert (outgoing_type_key (rel_from r) (rel_type r) (rel_id r))
                    (finsert (outgoing_key (rel_from r) (rel_id r)) keys)
      in rbind (gs_node s (rel_to r)) (\<lambda>n.
           Inr (if n \<noteq> None
                then finsert (incoming_type_key (rel_to r) (rel_type r) (rel_id r))
                       (finsert (incoming_key (rel_to r) (rel_id r)) keys')
                else keys')))"

definition expected_index_keys :: "kv_graph_store \<Rightarrow> bytes fset store_result" where
  "expected_index_keys s =
     rbind (gs_nodes s) (\<lambda>ns.
     let keys = fold expected_node_index_keys ns {||}
     in rbind (gs_boundary_nodes s) (\<lambda>bs.
     let keys' = fold expected_boundary_node_index_keys bs keys
     in rbind (gs_relationships s) (\<lambda>rs. for_each rs (expected_relationship_index_keys s) keys')))"

definition actual_index_keys :: "kv_graph_store \<Rightarrow> bytes fset store_result" where
  "actual_index_keys s =
     for_each index_prefixes
       (\<lambda>p keys. rbind (gs_scan s p) (\<lambda>es. Inr (keys |\<union>| fset_of_list (map fst es)))) {||}"

definition verify_invariants :: "kv_graph_store \<Rightarrow> graph_invariant_report store_result" where
  "verify_invariants s =
     rbind (expected_index_keys s) (\<lambda>expected.
     rbind (actual_index_keys s) (\<lambda>actual.
     Inr \<lparr>missing_index_keys = sorted_list_of_fset (expected |-| actual),
          unexpected_index_keys = sorted_list_of_fset (actual |-| expected)\<rparr>))"

definition repair_batch :: "bytes fset \<Rightarrow> bytes fset \<Rightarrow> kv_write_batch" where
  "repair_batch actual expected =
     fold (\<lambda>key b. batch_put key [] b) (sorted_list_of_fset expected)
       (fold batch_delete (sorted_list_of_fset actual) new_batch)"

definition repair_indexes ::
  "kv_graph_store \<Rightarrow> graph_invariant_report store_result \<times> kv_graph_store" where
  "repair_indexes s =
     (case verify_invariants s of
        Inl e \<Rightarrow> (Inl e, s)
      | Inr before \<Rightarrow>
          if is_clean before then (Inr before, s)
          else
            (case gs_commit s (rbind (actual_index_keys s) (\<lambda>actual.
                    rbind (expected_index_keys s) (\<lambda>expected. Inr (repair_batch actual expected)))) of
               (Inl e, s') \<Rightarrow> (Inl e, s')
             | (Inr _, s') \<Rightarrow> (Inr before, s')))"

end
