(* ===== verification/Store_Refine.thy ===== *)
theory Store_Refine
  imports Graph_Store
begin

text \<open>
  The persistent graph against the abstract property graph: \<open>content\<close> gives, for each structured key,
  what a store that represents an abstract graph holds there; \<open>store_rel\<close> says a store holds exactly
  that. Every command the graph accepts takes related states to related states.
\<close>

section \<open>What a store holds\<close>

definition node_record :: "node \<Rightarrow> command" where
  "node_record n = CreateNode (node_id n) (node_labels n) (node_properties n)"

definition boundary_record :: "boundary_node \<Rightarrow> command" where
  "boundary_record b = UpsertBoundaryNode (bn_id b) (bn_owner_shard b) (bn_labels b) (bn_properties b) (bn_version b)"

text \<open>A record that survives encoding, with property values short enough for an index key.\<close>

definition encodable :: "command \<Rightarrow> bool" where
  "encodable c \<longleftrightarrow> wf_command c \<and> length (encode_command c) < 2 ^ 64"

definition key_values_fit :: "properties \<Rightarrow> bool" where
  "key_values_fit m \<longleftrightarrow> (\<forall>k v. fmlookup m k = Some v \<longrightarrow> fits_u32 (length (encode_value_for_key v)))"

definition store_ok :: "agraph \<Rightarrow> bool" where
  "store_ok a \<longleftrightarrow>
     (\<forall>x n. ag_nodes a x = Some n \<longrightarrow> node_id n = x \<and> encodable (node_record n) \<and> key_values_fit (node_properties n)) \<and>
     (\<forall>x b. ag_boundary a x = Some b \<longrightarrow> bn_id b = x \<and> encodable (boundary_record b) \<and> key_values_fit (bn_properties b)) \<and>
     (\<forall>x r. ag_rels a x = Some r \<longrightarrow> rel_id r = x \<and> encodable (relationship_record r)) \<and>
     ag_linked a \<subseteq> dom (ag_rels a)"

definition mark :: "bool \<Rightarrow> bytes option" where
  "mark b = (if b then Some [] else None)"

fun content :: "agraph \<Rightarrow> skey \<Rightarrow> bytes option" where
  "content a (SNode x) = map_option (\<lambda>n. encode_command (node_record n)) (ag_nodes a x)"
| "content a (SBoundary x) = map_option (\<lambda>b. encode_command (boundary_record b)) (ag_boundary a x)"
| "content a (SRel r) = map_option (\<lambda>rel. encode_command (relationship_record rel)) (ag_rels a r)"
| "content a (SOut n r) = mark (\<exists>rel. ag_rels a r = Some rel \<and> rel_from rel = n)"
| "content a (SOutT n ty r) = mark (\<exists>rel. ag_rels a r = Some rel \<and> rel_from rel = n \<and> rel_type rel = ty)"
| "content a (SIn n r) = mark (\<exists>rel. ag_rels a r = Some rel \<and> rel_to rel = n \<and> r \<in> ag_linked a)"
| "content a (SInT n ty r) =
     mark (\<exists>rel. ag_rels a r = Some rel \<and> rel_to rel = n \<and> rel_type rel = ty \<and> r \<in> ag_linked a)"
| "content a (SLabel l x) = mark (\<exists>n. ag_nodes a x = Some n \<and> l \<in> set (node_labels n))"
| "content a (SLP l pk v x) =
     mark (\<exists>n. ag_nodes a x = Some n \<and> l \<in> set (node_labels n) \<and> fmlookup (node_properties n) pk = Some v)"
| "content a (SBLP l pk v x) =
     mark (\<exists>b. ag_boundary a x = Some b \<and> l \<in> set (bn_labels b) \<and> fmlookup (bn_properties b) pk = Some v)"

definition store_rel :: "kv_graph_store \<Rightarrow> agraph \<Rightarrow> bool" where
  "store_rel s a \<longleftrightarrow> store_ok a \<and>
     (\<forall>k. wf_key k \<longrightarrow> fmlookup (kv_data (gs_kv s)) (enc_key k) = content a k) \<and>
     (\<forall>bs. bs |\<in>| fmdom (kv_data (gs_kv s)) \<longrightarrow> (\<exists>k. wf_key k \<and> bs = enc_key k))"

lemma mark_simps [simp]: "mark b = None \<longleftrightarrow> \<not> b" "mark b = Some v \<longleftrightarrow> b \<and> v = []" "(None = mark b) = (\<not> b)"
  by (auto simp: mark_def)

lemma store_relD:
  assumes "store_rel s a"
  shows "store_ok a" and "wf_key k \<Longrightarrow> fmlookup (kv_data (gs_kv s)) (enc_key k) = content a k"
    and "fmlookup (kv_data (gs_kv s)) bs = Some v \<Longrightarrow> \<exists>k. wf_key k \<and> bs = enc_key k"
  using assms by (auto simp: store_rel_def intro: fmdomI)

lemma store_okD:
  assumes "store_ok a"
  shows "ag_nodes a x = Some n \<Longrightarrow> node_id n = x \<and> encodable (node_record n) \<and> key_values_fit (node_properties n)"
    and "ag_boundary a x = Some b \<Longrightarrow> bn_id b = x \<and> encodable (boundary_record b) \<and> key_values_fit (bn_properties b)"
    and "ag_rels a y = Some r \<Longrightarrow> rel_id r = y \<and> encodable (relationship_record r)"
    and "ag_linked a \<subseteq> dom (ag_rels a)"
  using assms by (auto simp: store_ok_def)

section \<open>Reading records\<close>

lemma decode_records:
  "encodable (node_record n) \<Longrightarrow> decode_node (encode_command (node_record n)) = Inr n"
  "encodable (boundary_record b) \<Longrightarrow> decode_boundary_node (encode_command (boundary_record b)) = Inr b"
  "encodable (relationship_record r) \<Longrightarrow> decode_relationship (encode_command (relationship_record r)) = Inr r"
  by (simp_all add: encodable_def decode_command_ok decode_node_def decode_boundary_node_def decode_relationship_def)
     (simp_all add: node_record_def boundary_record_def relationship_record_def new_node_def new_boundary_node_def
        new_relationship_def)

lemma gs_node_ok: "store_rel s a \<Longrightarrow> gs_node s x = Inr (ag_nodes a x)"
  using store_relD(2) [of s a "SNode x"] store_okD(1) [OF store_relD(1), of s a x]
  by (cases "ag_nodes a x") (auto simp: gs_node_def kv_get_def optional_def decode_records)

lemma gs_boundary_node_ok: "store_rel s a \<Longrightarrow> gs_boundary_node s x = Inr (ag_boundary a x)"
  using store_relD(2) [of s a "SBoundary x"] store_okD(2) [OF store_relD(1), of s a x]
  by (cases "ag_boundary a x") (auto simp: gs_boundary_node_def kv_get_def optional_def decode_records)

lemma gs_relationship_ok: "store_rel s a \<Longrightarrow> gs_relationship s r = Inr (ag_rels a r)"
  using store_relD(2) [of s a "SRel r"] store_okD(3) [OF store_relD(1), of s a r]
  by (cases "ag_rels a r") (auto simp: gs_relationship_def kv_get_def optional_def decode_records)

section \<open>Scanning a family\<close>

lemma id_from_key_append: "id_from_key (p @ to_be_u64 x) = Inr x"
  by (simp add: id_from_key_def)

context key_family
begin

definition members :: "agraph \<Rightarrow> u64 set" where
  "members a = {x. content a (fam x) \<noteq> None}"

lemma finite_members:
  assumes "store_rel s a"
  shows "finite (members a)"
proof (rule finite_imageD)
  have "(\<lambda>x. enc_key (fam x)) ` members a \<subseteq> fset (fmdom (kv_data (gs_kv s)))"
    using store_relD(2) [OF assms wf_fam] by (auto simp: members_def fmlookup_dom_iff)
  then show "finite ((\<lambda>x. enc_key (fam x)) ` members a)" by (rule finite_subset) simp
  show "inj_on (\<lambda>x. enc_key (fam x)) (members a)" by (auto simp: inj_on_def enc_fam)
qed

lemma scan_family:
  assumes "store_rel s a"
  shows "gs_scan s pfx = Inr (map (\<lambda>x. (enc_key (fam x), the (content a (fam x)))) (sorted_list_of_set (members a)))"
proof -
  let ?d = "kv_data (gs_kv s)" and ?xs = "sorted_list_of_set (members a)"
  obtain kvs where kvs: "kv_scan_prefix (gs_kv s) pfx = Inr kvs" "sorted (map fst kvs)" "distinct (map fst kvs)"
    "set kvs = {(k, v). fmlookup ?d k = Some v \<and> prefix pfx k}"
    using mem_kv.scan_law [of "gs_kv s" pfx] by blast
  have look: "fmlookup ?d (enc_key (fam x)) = content a (fam x)" for x
    by (rule store_relD(2) [OF assms wf_fam])
  have "fst ` set kvs = (\<lambda>x. enc_key (fam x)) ` members a"
  proof (intro equalityI subsetI)
    fix bs assume "bs \<in> fst ` set kvs"
    then obtain v where v: "fmlookup ?d bs = Some v" "prefix pfx bs" by (auto simp: kvs(4))
    then obtain k where "wf_key k" "bs = enc_key k" using store_relD(3) [OF assms] by blast
    then show "bs \<in> (\<lambda>x. enc_key (fam x)) ` members a"
      using v look select [of k] by (auto simp: members_def)
  next
    fix bs assume "bs \<in> (\<lambda>x. enc_key (fam x)) ` members a"
    then show "bs \<in> fst ` set kvs"
      using look by (fastforce simp: kvs(4) members_def enc_fam image_iff)
  qed
  moreover have "sorted (map (\<lambda>x. enc_key (fam x)) ?xs)"
    using sorted_wrt_mono_rel [of ?xs "(<)" "\<lambda>x y. enc_key (fam x) \<le> enc_key (fam y)"]
    by (simp add: sorted_wrt_map fam_less less_imp_le)
  moreover have "distinct (map (\<lambda>x. enc_key (fam x)) ?xs)"
    by (auto simp: distinct_map inj_on_def enc_fam)
  ultimately have fsts: "map fst kvs = map (\<lambda>x. enc_key (fam x)) ?xs"
    using kvs(2,3) finite_members [OF assms] by (intro sorted_distinct_set_unique) simp_all
  have "kvs = map (\<lambda>k. (k, the (fmlookup ?d k))) (map fst kvs)"
    by (auto simp: kvs(4) intro!: map_idI [symmetric])
  then show ?thesis by (simp add: gs_scan_def kvs(1) fsts look comp_def)
qed

lemma scan_ids:
  assumes "store_rel s a"
  shows "rbind (gs_scan s pfx) ids_from_keys = Inr (sorted_list_of_set (members a))"
  by (simp add: scan_family [OF assms] ids_from_keys_def comp_def enc_fam id_from_key_append
      collect_results_map_Inr [where f = "\<lambda>x. x"] sorted_sort_id)

lemma scan_relationships:
  assumes "store_rel s a" and "members a \<subseteq> dom (ag_rels a)"
  shows "relationships_from_index s pfx = Inr (map (\<lambda>r. the (ag_rels a r)) (sorted_list_of_set (members a)))"
  unfolding relationships_from_index_def scan_family [OF assms(1)] rbind.simps map_map
  using assms(2) finite_members [OF assms(1)]
  by (intro collect_results_map_Inr) (auto simp: enc_fam id_from_key_append gs_relationship_ok [OF assms(1)])

end

section \<open>Writing structured keys\<close>

type_synonym sop = "skey \<times> bytes option"

definition enc_op :: "sop \<Rightarrow> kv_write" where
  "enc_op = (\<lambda>(k, ov). case ov of Some v \<Rightarrow> KvPut (enc_key k) v | None \<Rightarrow> KvDelete (enc_key k))"

definition overlay :: "sop list \<Rightarrow> (skey \<Rightarrow> bytes option) \<Rightarrow> skey \<Rightarrow> bytes option" where
  "overlay ops m = fold (\<lambda>(k, v) m. m(k := v)) ops m"

lemma overlay_simps [simp]:
  "overlay [] m = m" "overlay ((k, v) # ops) m = overlay ops (m(k := v))"
  "overlay (xs @ ys) m = overlay ys (overlay xs m)"
  by (simp_all add: overlay_def)

lemma overlay_const: "overlay (map (\<lambda>k. (k, v)) ks) m = (\<lambda>k. if k \<in> set ks then v else m k)"
  by (induction ks arbitrary: m) auto

lemma overlay_deletes: "\<forall>op\<in>set ops. snd op = None \<Longrightarrow> overlay ops m = (\<lambda>k. if k \<in> fst ` set ops then None else m k)"
  by (induction ops arbitrary: m) auto

lemma overlay_cong:
  assumes "\<And>j. wf_key j \<Longrightarrow> f j = g j" and "wf_key k"
  shows "overlay ops f k = overlay ops g k"
  using assms(1)
proof (induction ops arbitrary: f g)
  case (Cons op ops)
  obtain k' v where op: "op = (k', v)" by (cases op)
  show ?case unfolding op overlay_simps by (rule Cons.IH) (simp add: Cons.prems)
qed (simp add: assms(2))

lemma lookup_writes:
  assumes "\<forall>op\<in>set ops. wf_key (fst op)" and "wf_key k"
  shows "fmlookup (kv_apply_writes (map enc_op ops) d) (enc_key k) = overlay ops (\<lambda>k. fmlookup d (enc_key k)) k"
  using assms(1)
proof (induction ops arbitrary: d)
  case (Cons op ops)
  obtain k' v where op: "op = (k', v)" by (cases op)
  have "wf_key k'" using Cons.prems op by simp
  let ?d = "kv_apply_write (enc_op op) d" and ?m = "(\<lambda>k. fmlookup d (enc_key k))(k' := v)"
  have "fmlookup ?d (enc_key j) = ?m j" if "wf_key j" for j
    using enc_key_inject [OF \<open>wf_key k'\<close> that] by (cases v) (auto simp: op enc_op_def)
  then have "overlay ops (\<lambda>k. fmlookup ?d (enc_key k)) k = overlay ops ?m k"
    by (rule overlay_cong [OF _ assms(2)])
  moreover have "fmlookup (kv_apply_writes (map enc_op (op # ops)) d) (enc_key k) =
      overlay ops (\<lambda>k. fmlookup ?d (enc_key k)) k"
    using Cons.IH [of ?d] Cons.prems by (simp add: kv_apply_writes_def)
  ultimately show ?case unfolding op overlay_simps by simp
qed (simp add: kv_apply_writes_def)

lemma dom_writes:
  assumes "\<forall>op\<in>set ops. wf_key (fst op)" and "\<And>bs. bs |\<in>| fmdom d \<Longrightarrow> \<exists>k. wf_key k \<and> bs = enc_key k"
    and "bs |\<in>| fmdom (kv_apply_writes (map enc_op ops) d)"
  shows "\<exists>k. wf_key k \<and> bs = enc_key k"
  using assms
proof (induction ops arbitrary: d)
  case (Cons op ops)
  obtain k' v where op: "op = (k', v)" by (cases op)
  show ?case
    by (rule Cons.IH [of "kv_apply_write (enc_op op) d"])
       (use Cons.prems op in \<open>auto simp: kv_apply_writes_def enc_op_def split: option.splits\<close>)
qed (simp add: kv_apply_writes_def)

lemma gs_write_rel:
  assumes "store_rel s a" and "store_ok a'" and "operations b = map enc_op ops"
    and "\<forall>op\<in>set ops. wf_key (fst op)" and "\<And>k. wf_key k \<Longrightarrow> overlay ops (content a) k = content a' k"
  shows "fst (gs_write b s) = Inr () \<and> store_rel (snd (gs_write b s)) a'"
proof -
  let ?d = "kv_data (gs_kv s)"
  have "overlay ops (\<lambda>k. fmlookup ?d (enc_key k)) k = overlay ops (content a) k" if "wf_key k" for k
    by (rule overlay_cong [OF store_relD(2) [OF assms(1)] that])
  then have "wf_key k \<Longrightarrow> fmlookup (kv_apply_writes (map enc_op ops) ?d) (enc_key k) = content a' k" for k
    using lookup_writes [OF assms(4)] assms(5) by simp
  moreover have "bs |\<in>| fmdom (kv_apply_writes (map enc_op ops) ?d) \<Longrightarrow> \<exists>k. wf_key k \<and> bs = enc_key k" for bs
    using dom_writes [OF assms(4)] assms(1) unfolding store_rel_def by blast
  ultimately show ?thesis
    using assms(2) by (auto simp: gs_write_def kv_write_batch_def assms(3) store_rel_def)
qed

subsection \<open>The batch functions as structured writes\<close>

definition puts :: "skey list \<Rightarrow> sop list" where
  "puts ks = map (\<lambda>k. (k, Some [])) ks"

definition deletes :: "skey list \<Rightarrow> sop list" where
  "deletes ks = map (\<lambda>k. (k, None)) ks"

definition node_keys :: "node_id \<Rightarrow> string list \<Rightarrow> properties \<Rightarrow> skey list" where
  "node_keys x labels props =
     concat (map (\<lambda>l. SLabel l x # map (\<lambda>(pk, pv). SLP l pk pv x) (hm_iter props)) labels)"

definition boundary_keys :: "node_id \<Rightarrow> string list \<Rightarrow> properties \<Rightarrow> skey list" where
  "boundary_keys x labels props = concat (map (\<lambda>l. map (\<lambda>(pk, pv). SBLP l pk pv x) (hm_iter props)) labels)"

definition rel_keys :: "relationship \<Rightarrow> relationship_id \<Rightarrow> skey list" where
  "rel_keys rel r = [SRel r, SOut (rel_from rel) r, SOutT (rel_from rel) (rel_type rel) r, SIn (rel_to rel) r,
     SInT (rel_to rel) (rel_type rel) r]"

lemma set_node_keys:
  "set (node_keys x labels props) =
     {SLabel l x | l. l \<in> set labels} \<union> {SLP l pk pv x | l pk pv. l \<in> set labels \<and> fmlookup props pk = Some pv}"
  by (fastforce simp: node_keys_def set_hm_iter)

lemma set_boundary_keys:
  "set (boundary_keys x labels props) = {SBLP l pk pv x | l pk pv. l \<in> set labels \<and> fmlookup props pk = Some pv}"
  by (fastforce simp: boundary_keys_def set_hm_iter)

lemma operations_batch [simp]:
  "operations new_batch = []" "operations (batch_put k v b) = operations b @ [KvPut k v]"
  "operations (batch_delete k b) = operations b @ [KvDelete k]"
  by (simp_all add: new_batch_def batch_put_def batch_delete_def)

lemma fold_batch:
  assumes "\<And>x b. operations (f x b) = operations b @ g x"
  shows "operations (fold f xs b) = operations b @ concat (map g xs)"
  by (induction xs arbitrary: b) (simp_all add: assms)

lemma operations_index_node:
  "operations (index_node_into_batch x labels props b) = operations b @ map enc_op (puts (node_keys x labels props))"
  unfolding index_node_into_batch_def puts_def node_keys_def
  by (subst fold_batch, subst fold_batch)
     (auto simp: map_concat comp_def enc_op_def case_prod_unfold concat_map_singleton)

lemma operations_remove_node:
  "operations (remove_node_indexes_into_batch n b) =
     operations b @ map enc_op (deletes (node_keys (node_id n) (node_labels n) (node_properties n)))"
  unfolding remove_node_indexes_into_batch_def deletes_def node_keys_def
  by (subst fold_batch, subst fold_batch)
     (auto simp: map_concat comp_def enc_op_def case_prod_unfold concat_map_singleton)

lemma operations_index_boundary:
  "operations (index_boundary_node_into_batch x labels props b) =
     operations b @ map enc_op (puts (boundary_keys x labels props))"
  unfolding index_boundary_node_into_batch_def puts_def boundary_keys_def
  by (subst fold_batch, subst fold_batch)
     (auto simp: map_concat comp_def enc_op_def case_prod_unfold concat_map_singleton)

lemma operations_remove_boundary:
  "operations (remove_boundary_node_indexes_into_batch n b) =
     operations b @ map enc_op (deletes (boundary_keys (bn_id n) (bn_labels n) (bn_properties n)))"
  unfolding remove_boundary_node_indexes_into_batch_def deletes_def boundary_keys_def
  by (subst fold_batch, subst fold_batch)
     (auto simp: map_concat comp_def enc_op_def case_prod_unfold concat_map_singleton)

lemma operations_delete_keys:
  "operations (delete_keys_into_batch rel r b) = operations b @ map enc_op (deletes (rel_keys rel r))"
  by (simp add: delete_keys_into_batch_def deletes_def rel_keys_def enc_op_def)

subsection \<open>Well-formed keys\<close>

lemma wf_string_fits: "wf_string s \<Longrightarrow> fits_u32 (length s)"
  by (simp add: wf_string_def)

lemma wf_props_key: "wf_props m \<Longrightarrow> fmlookup m k = Some v \<Longrightarrow> wf_string k"
  unfolding wf_props_def using wf_val_entry by blast

lemma wf_props_key_fits: "wf_props m \<Longrightarrow> fmlookup m k = Some v \<Longrightarrow> fits_u32 (length k)"
  by (rule wf_string_fits [OF wf_props_key])

lemma wf_label_fits: "list_all wf_string ls \<Longrightarrow> l \<in> set ls \<Longrightarrow> fits_u32 (length l)"
  by (simp add: list_all_iff wf_string_def)

lemma node_keys_wf:
  assumes "encodable (node_record n)" and "key_values_fit (node_properties n)"
  shows "\<forall>k\<in>set (node_keys x (node_labels n) (node_properties n)). wf_key k"
  using assms unfolding set_node_keys encodable_def node_record_def
  by (auto simp: key_values_fit_def intro: wf_label_fits wf_props_key_fits)

lemma boundary_keys_wf:
  assumes "encodable (boundary_record b)" and "key_values_fit (bn_properties b)"
  shows "\<forall>k\<in>set (boundary_keys x (bn_labels b) (bn_properties b)). wf_key k"
  using assms unfolding set_boundary_keys encodable_def boundary_record_def
  by (auto simp: key_values_fit_def intro: wf_label_fits wf_props_key_fits)

lemma rel_keys_wf: "encodable (relationship_record rel) \<Longrightarrow> \<forall>k\<in>set (rel_keys rel r). wf_key k"
  by (auto simp: rel_keys_def encodable_def relationship_record_def intro: wf_string_fits)

lemma wf_ops [simp]:
  "(\<forall>op\<in>set (puts ks). wf_key (fst op)) = (\<forall>k\<in>set ks. wf_key k)"
  "(\<forall>op\<in>set (deletes ks). wf_key (fst op)) = (\<forall>k\<in>set ks. wf_key k)"
  by (simp_all add: puts_def deletes_def)

lemmas overlay_ops = overlay_const [of "Some []", folded puts_def] overlay_const [of None, folded deletes_def]

section \<open>Each command\<close>

definition old_node_keys :: "agraph \<Rightarrow> node_id \<Rightarrow> skey list" where
  "old_node_keys a x = (case ag_nodes a x of None \<Rightarrow> [] | Some n \<Rightarrow> node_keys x (node_labels n) (node_properties n))"

lemma content_put_node:
  "overlay (deletes (old_node_keys a x) @ (SNode x, Some (encode_command (node_record n))) #
       puts (node_keys x (node_labels n) (node_properties n))) (content a) k =
     content (a\<lparr>ag_nodes := (ag_nodes a)(x \<mapsto> n)\<rparr>) k"
  by (cases k) (auto simp: overlay_ops set_node_keys old_node_keys_def mark_def split: option.splits)

lemma put_node_rel:
  assumes "store_rel s a" and "store_ok (a\<lparr>ag_nodes := (ag_nodes a)(x \<mapsto> n)\<rparr>)"
    and "operations b = map enc_op (deletes (old_node_keys a x) @ (SNode x, Some (encode_command (node_record n))) #
       puts (node_keys x (node_labels n) (node_properties n)))"
  shows "fst (gs_write b s) = Inr () \<and> store_rel (snd (gs_write b s)) (a\<lparr>ag_nodes := (ag_nodes a)(x \<mapsto> n)\<rparr>)"
proof (rule gs_write_rel [OF assms])
  have "\<forall>k\<in>set (old_node_keys a x). wf_key k"
    using store_okD(1) [OF store_relD(1) [OF assms(1)], of x]
      node_keys_wf [of "the (ag_nodes a x)" x]
    by (cases "ag_nodes a x") (simp_all add: old_node_keys_def)
  moreover have "\<forall>k\<in>set (node_keys x (node_labels n) (node_properties n)). wf_key k"
    using store_okD(1) [OF assms(2), of x n] node_keys_wf [of n x] by simp
  ultimately show "\<forall>op\<in>set (deletes (old_node_keys a x) @ (SNode x, Some (encode_command (node_record n))) #
       puts (node_keys x (node_labels n) (node_properties n))). wf_key (fst op)"
    by (simp add: ball_Un)
qed (rule content_put_node)

lemma create_node_rel:
  assumes "store_rel s a" and "ag_nodes a x = None"
    and "store_ok (a\<lparr>ag_nodes := (ag_nodes a)(x \<mapsto> new_node x labels props)\<rparr>)"
  shows "fst (gs_create_node x labels props s) = Inr () \<and>
    store_rel (snd (gs_create_node x labels props s)) (a\<lparr>ag_nodes := (ag_nodes a)(x \<mapsto> new_node x labels props)\<rparr>)"
  unfolding gs_create_node_def
  by (rule put_node_rel [OF assms(1,3)])
     (simp add: operations_index_node put_node_into_batch_def old_node_keys_def assms(2) deletes_def enc_op_def
        new_node_def node_record_def)

lemma rewrite_node_rel:
  assumes "store_rel s a" and "ag_nodes a x = Some old" and "node_id n = x"
    and "store_ok (a\<lparr>ag_nodes := (ag_nodes a)(x \<mapsto> n)\<rparr>)"
  shows "fst (gs_write (rewrite_node_into_batch old n new_batch) s) = Inr () \<and>
    store_rel (snd (gs_write (rewrite_node_into_batch old n new_batch) s)) (a\<lparr>ag_nodes := (ag_nodes a)(x \<mapsto> n)\<rparr>)"
  using store_okD(1) [OF store_relD(1) [OF assms(1)] assms(2)]
  by (intro put_node_rel [OF assms(1,4)])
     (simp add: rewrite_node_into_batch_def operations_index_node operations_remove_node put_node_into_batch_def
        old_node_keys_def assms(2,3) enc_op_def node_record_def)

text \<open>A node update: the four handlers are instances of it.\<close>

lemma update_node_rel:
  assumes rel: "store_rel s a" and ok: "store_ok (snd (update_node x f a))"
    and f: "\<And>n. node_id (f n) = node_id n" and skip: "\<And>n. \<not> applies n \<Longrightarrow> f n = n"
  shows "fst (gs_update_node x applies f s) = Inr () \<and>
    store_rel (snd (gs_update_node x applies f s)) (snd (update_node x f a))"
proof (cases "ag_nodes a x")
  case None
  then show ?thesis using rel by (simp add: gs_update_node_def gs_node_ok [OF rel] update_node_def)
next
  case (Some n)
  have id: "node_id (f n) = x" using store_okD(1) [OF store_relD(1) [OF rel] Some] f by simp
  have same: "\<not> applies n \<Longrightarrow> a\<lparr>ag_nodes := (ag_nodes a)(x \<mapsto> f n)\<rparr> = a"
    using skip [of n] Some by (simp add: fun_upd_idem)
  show ?thesis
    using rewrite_node_rel [OF rel Some id] ok rel same Some
    by (auto simp: gs_update_node_def gs_node_ok [OF rel] update_node_def)
qed

definition old_boundary_keys :: "agraph \<Rightarrow> node_id \<Rightarrow> skey list" where
  "old_boundary_keys a x =
     (case ag_boundary a x of None \<Rightarrow> [] | Some b \<Rightarrow> boundary_keys x (bn_labels b) (bn_properties b))"

lemma content_put_boundary:
  "overlay (deletes (old_boundary_keys a x) @ (SBoundary x, Some (encode_command (boundary_record b))) #
       puts (boundary_keys x (bn_labels b) (bn_properties b))) (content a) k =
     content (a\<lparr>ag_boundary := (ag_boundary a)(x \<mapsto> b)\<rparr>) k"
  by (cases k) (auto simp: overlay_ops set_boundary_keys old_boundary_keys_def mark_def split: option.splits)

lemma upsert_boundary_rel:
  assumes rel: "store_rel s a" and b: "b = new_boundary_node x owner labels props version"
    and ok: "store_ok (a\<lparr>ag_boundary := (ag_boundary a)(x \<mapsto> b)\<rparr>)"
  shows "fst (gs_upsert_boundary_node x owner labels props version s) = Inr () \<and>
    store_rel (snd (gs_upsert_boundary_node x owner labels props version s)) (a\<lparr>ag_boundary := (ag_boundary a)(x \<mapsto> b)\<rparr>)"
proof -
  let ?ops = "deletes (old_boundary_keys a x) @ (SBoundary x, Some (encode_command (boundary_record b))) #
       puts (boundary_keys x (bn_labels b) (bn_properties b))"
  let ?b0 = "case ag_boundary a x of None \<Rightarrow> new_batch | Some old \<Rightarrow> remove_boundary_node_indexes_into_batch old new_batch"
  let ?batch = "index_boundary_node_into_batch x labels props
      (batch_put (boundary_node_key x) (encode_command (UpsertBoundaryNode x owner labels props version)) ?b0)"
  have "operations ?b0 = map enc_op (deletes (old_boundary_keys a x))"
    using store_okD(2) [OF store_relD(1) [OF rel], of x]
    by (auto simp: old_boundary_keys_def operations_remove_boundary deletes_def split: option.splits)
  then have ops: "operations ?batch = map enc_op ?ops"
    by (simp add: operations_index_boundary enc_op_def b new_boundary_node_def boundary_record_def)
  have "\<forall>k\<in>set (old_boundary_keys a x). wf_key k"
    using store_okD(2) [OF store_relD(1) [OF rel], of x]
      boundary_keys_wf [of "the (ag_boundary a x)" x]
    by (cases "ag_boundary a x") (simp_all add: old_boundary_keys_def)
  moreover have "\<forall>k\<in>set (boundary_keys x (bn_labels b) (bn_properties b)). wf_key k"
    using store_okD(2) [OF ok, of x b] boundary_keys_wf [of b x] by simp
  ultimately have "\<forall>op\<in>set ?ops. wf_key (fst op)" by (simp add: ball_Un)
  from gs_write_rel [OF rel ok ops this content_put_boundary] show ?thesis
    by (simp add: gs_upsert_boundary_node_def gs_boundary_node_ok [OF rel] gs_commit_def Let_def)
qed

subsection \<open>Relationships\<close>

definition add_rel :: "relationship \<Rightarrow> agraph \<Rightarrow> agraph" where
  "add_rel rel a = a\<lparr>ag_rels := (ag_rels a)(rel_id rel \<mapsto> rel),
     ag_linked := (if ag_nodes a (rel_to rel) = None then ag_linked a else insert (rel_id rel) (ag_linked a))\<rparr>"

definition link_keys :: "agraph \<Rightarrow> relationship \<Rightarrow> skey list" where
  "link_keys a rel = (if ag_nodes a (rel_to rel) = None then []
     else [SIn (rel_to rel) (rel_id rel), SInT (rel_to rel) (rel_type rel) (rel_id rel)])"

lemma content_add_rel:
  assumes "store_ok a" and "ag_rels a (rel_id rel) = None"
  shows "overlay ((SRel (rel_id rel), Some (encode_command (relationship_record rel))) #
      puts ([SOut (rel_from rel) (rel_id rel), SOutT (rel_from rel) (rel_type rel) (rel_id rel)] @ link_keys a rel))
      (content a) k = content (add_rel rel a) k"
  using assms(2) store_okD(4) [OF assms(1)]
  by (cases k) (auto simp: overlay_ops add_rel_def link_keys_def mark_def)

lemma create_relationship_rel:
  assumes rel: "store_rel s a" and fresh: "ag_rels a r = None"
    and ok: "store_ok (add_rel (new_relationship r from to ty props) a)"
  shows "fst (gs_create_relationship r from to ty props s) = Inr () \<and>
    store_rel (snd (gs_create_relationship r from to ty props s)) (add_rel (new_relationship r from to ty props) a)"
proof -
  let ?rel = "new_relationship r from to ty props"
  let ?ops = "(SRel r, Some (encode_command (relationship_record ?rel))) #
      puts ([SOut from r, SOutT from ty r] @ link_keys a ?rel)"
  have ids: "rel_id ?rel = r" "rel_from ?rel = from" "rel_to ?rel = to" "rel_type ?rel = ty"
    by (simp_all add: new_relationship_def)
  have "\<exists>b. create_relationship_into_batch s r from to ty props new_batch = Inr b \<and> operations b = map enc_op ?ops"
    by (cases "ag_nodes a to")
       (simp_all add: create_relationship_into_batch_def gs_node_ok [OF rel] Let_def
          create_relationship_value_into_batch_def ids link_keys_def puts_def enc_op_def)
  then obtain b where b: "create_relationship_into_batch s r from to ty props new_batch = Inr b"
    "operations b = map enc_op ?ops" by blast
  have "wf_string ty"
    using store_okD(3) [OF ok, of r ?rel]
    by (simp add: add_rel_def ids encodable_def relationship_record_def)
  then have "\<forall>op\<in>set ?ops. wf_key (fst op)"
    by (auto simp: puts_def link_keys_def ids intro: wf_string_fits)
  from gs_write_rel [OF rel ok b(2) this] content_add_rel [OF store_relD(1) [OF rel], of ?rel] fresh
  show ?thesis by (simp add: gs_create_relationship_def b(1) gs_commit_def ids)
qed

lemma content_update_rel:
  assumes "ag_rels a r = Some rel" and "rel_from rel' = rel_from rel" "rel_to rel' = rel_to rel" "rel_type rel' = rel_type rel"
  shows "overlay [(SRel r, Some (encode_command (relationship_record rel')))] (content a) k =
    content (a\<lparr>ag_rels := (ag_rels a)(r \<mapsto> rel')\<rparr>) k"
  using assms by (cases k) (auto simp: mark_def)

lemma update_relationship_rel:
  assumes rel: "store_rel s a"
    and ok: "store_ok (snd (update_rel r (\<lambda>rel. rel\<lparr>rel_properties := f (rel_properties rel)\<rparr>) a))"
  shows "fst (gs_update_relationship r f s) = Inr () \<and>
    store_rel (snd (gs_update_relationship r f s))
      (snd (update_rel r (\<lambda>rel. rel\<lparr>rel_properties := f (rel_properties rel)\<rparr>) a))"
proof (cases "ag_rels a r")
  case None
  then show ?thesis using rel by (simp add: gs_update_relationship_def gs_relationship_ok [OF rel] update_rel_def)
next
  case (Some q)
  let ?q = "q\<lparr>rel_properties := f (rel_properties q)\<rparr>"
  let ?b = "batch_put (relationship_key r) (encode_command (relationship_record ?q)) new_batch"
  have "fst (gs_write ?b s) = Inr () \<and> store_rel (snd (gs_write ?b s)) (a\<lparr>ag_rels := (ag_rels a)(r \<mapsto> ?q)\<rparr>)"
  proof (rule gs_write_rel [OF rel])
    show "store_ok (a\<lparr>ag_rels := (ag_rels a)(r \<mapsto> ?q)\<rparr>)" using ok Some by (simp add: update_rel_def)
    show "operations ?b = map enc_op [(SRel r, Some (encode_command (relationship_record ?q)))]"
      by (simp add: enc_op_def)
  qed (use content_update_rel [OF Some, of ?q] in simp_all)
  then show ?thesis using Some by (simp add: gs_update_relationship_def gs_relationship_ok [OF rel] update_rel_def)
qed

text \<open>Deleting a set of relationships removes every key that mentions one of them.\<close>

lemma content_drop_rels:
  assumes "\<forall>op\<in>set ops. snd op = None"
    and "fst ` set ops = (\<Union>r\<in>R. {k. \<exists>rel. ag_rels a r = Some rel \<and> k \<in> set (rel_keys rel r)})"
  shows "overlay ops (content a) k = content (drop_rels R a) k"
  unfolding overlay_deletes [OF assms(1)] assms(2)
  by (cases k) (auto simp: drop_rels_def rel_keys_def mark_def restrict_map_def)

definition delete_rel_op :: "agraph \<Rightarrow> relationship_id \<Rightarrow> kv_write_batch \<Rightarrow> kv_write_batch" where
  "delete_rel_op a r b = (case ag_rels a r of None \<Rightarrow> b | Some rel \<Rightarrow> delete_keys_into_batch rel r b)"

definition del_rel_ops :: "agraph \<Rightarrow> relationship_id \<Rightarrow> sop list" where
  "del_rel_ops a r = (case ag_rels a r of None \<Rightarrow> [] | Some rel \<Rightarrow> deletes (rel_keys rel r))"

lemma delete_relationship_into_batch_ok:
  "store_rel s a \<Longrightarrow> delete_relationship_into_batch s r b = Inr (delete_rel_op a r b)"
  by (simp add: delete_relationship_into_batch_def gs_relationship_ok delete_rel_op_def)

lemma operations_delete_rel_op: "operations (delete_rel_op a r b) = operations b @ map enc_op (del_rel_ops a r)"
  by (auto simp: delete_rel_op_def del_rel_ops_def operations_delete_keys split: option.splits)

lemma operations_delete_rels:
  "operations (fold (delete_rel_op a) rs b) = operations b @ map enc_op (concat (map (del_rel_ops a) rs))"
  by (induction rs arbitrary: b) (simp_all add: operations_delete_rel_op)

lemma del_rel_ops_facts:
  "\<forall>op\<in>set (concat (map (del_rel_ops a) rs)). snd op = None"
  "fst ` set (concat (map (del_rel_ops a) rs)) = (\<Union>r\<in>set rs. {k. \<exists>rel. ag_rels a r = Some rel \<and> k \<in> set (rel_keys rel r)})"
  by (auto simp: del_rel_ops_def deletes_def image_iff split: option.splits) force+

lemma del_rel_ops_wf:
  assumes "store_ok a"
  shows "\<forall>op\<in>set (concat (map (del_rel_ops a) rs)). wf_key (fst op)"
proof
  fix op assume "op \<in> set (concat (map (del_rel_ops a) rs))"
  then obtain r where "op \<in> set (del_rel_ops a r)" by auto
  then show "wf_key (fst op)"
    using store_okD(3) [OF assms, of r] rel_keys_wf [of _ r]
    by (cases "ag_rels a r") (auto simp: del_rel_ops_def deletes_def)
qed

lemma store_ok_drop_rels: "store_ok a \<Longrightarrow> store_ok (drop_rels R a)"
  by (auto simp: store_ok_def drop_rels_def restrict_map_def)

lemma delete_relationship_rel:
  assumes rel: "store_rel s a"
  shows "fst (gs_delete_relationship r s) = Inr () \<and> store_rel (snd (gs_delete_relationship r s)) (drop_rels {r} a)"
proof -
  have "fst (gs_write (delete_rel_op a r new_batch) s) = Inr () \<and>
      store_rel (snd (gs_write (delete_rel_op a r new_batch) s)) (drop_rels {r} a)"
  proof (rule gs_write_rel [OF rel store_ok_drop_rels [OF store_relD(1) [OF rel]]])
    show "operations (delete_rel_op a r new_batch) = map enc_op (concat (map (del_rel_ops a) [r]))"
      by (simp add: operations_delete_rel_op)
  qed (rule del_rel_ops_wf [OF store_relD(1) [OF rel]], rule content_drop_rels [OF del_rel_ops_facts(1)],
       use del_rel_ops_facts(2) [of a "[r]"] in simp)
  then show ?thesis
    by (simp add: gs_delete_relationship_def delete_relationship_into_batch_ok [OF rel] gs_commit_def)
qed

subsection \<open>Deleting a node\<close>

lemma content_drop_node:
  assumes "ag_nodes a x = Some n"
  shows "overlay (deletes (node_keys x (node_labels n) (node_properties n)) @ [(SNode x, None)]) (content a) k =
    content (a\<lparr>ag_nodes := (ag_nodes a)(x := None)\<rparr>) k"
  using assms by (cases k) (auto simp: overlay_ops set_node_keys mark_def)

lemma attached_ids:
  "set (dedup (sort (sorted_list_of_set (key_family.members (SOut x) a) @ sorted_list_of_set (key_family.members (SIn x) a)))) =
     ag_attached a x" if "store_rel s a"
  using outgoing_family.finite_members [OF that, of x] incoming_family.finite_members [OF that, of x]
  by (auto simp: outgoing_family.members_def incoming_family.members_def ag_attached_def)

lemma delete_node_rel:
  assumes rel: "store_rel s a"
  shows "fst (gs_delete_node x s) = Inr () \<and>
    store_rel (snd (gs_delete_node x s)) (snd (spec_apply (DeleteNode x) a))"
proof (cases "ag_nodes a x")
  case None
  then show ?thesis using rel by (simp add: gs_delete_node_def gs_node_ok [OF rel])
next
  case (Some n)
  let ?rs = "dedup (sort (sorted_list_of_set (key_family.members (SOut x) a) @ sorted_list_of_set (key_family.members (SIn x) a)))"
  let ?a = "drop_rels (ag_attached a x) a"
  let ?b = "batch_delete (node_key x) (remove_node_indexes_into_batch n (fold (delete_rel_op a) ?rs new_batch))"
  let ?dels = "concat (map (del_rel_ops a) ?rs)"
  let ?ops = "?dels @ deletes (node_keys x (node_labels n) (node_properties n)) @ [(SNode x, None)]"
  note okn = store_okD(1) [OF store_relD(1) [OF rel] Some]
  have step: "gs_delete_node x s = gs_write ?b s"
    by (simp add: gs_delete_node_def gs_node_ok [OF rel] Some outgoing_family.scan_ids [OF rel]
        incoming_family.scan_ids [OF rel] gs_commit_def
        for_each_Inr [OF delete_relationship_into_batch_ok [OF rel]])
  have "fst (gs_write ?b s) = Inr () \<and> store_rel (snd (gs_write ?b s)) (?a\<lparr>ag_nodes := (ag_nodes a)(x := None)\<rparr>)"
  proof (rule gs_write_rel [OF rel])
    show "store_ok (?a\<lparr>ag_nodes := (ag_nodes a)(x := None)\<rparr>)"
      using store_ok_drop_rels [OF store_relD(1) [OF rel], of "ag_attached a x"]
      by (simp add: store_ok_def drop_rels_def)
    show "operations ?b = map enc_op ?ops"
      by (simp add: operations_remove_node operations_delete_rels okn enc_op_def)
    show "\<forall>op\<in>set ?ops. wf_key (fst op)"
      using del_rel_ops_wf [OF store_relD(1) [OF rel], of ?rs] node_keys_wf [of n x] okn
      by (simp add: ball_Un)
    have "overlay ?dels (content a) = content ?a"
      by (rule ext, rule content_drop_rels [OF del_rel_ops_facts(1)])
         (simp only: del_rel_ops_facts(2) attached_ids [OF rel])
    then show "overlay ?ops (content a) k = content (?a\<lparr>ag_nodes := (ag_nodes a)(x := None)\<rparr>) k" for k
      using content_drop_node [of ?a x n k] Some
      unfolding overlay_simps(3) by (simp add: drop_rels_def)
  qed
  then show ?thesis unfolding step using Some by simp
qed

section \<open>Every command\<close>

lemma gs_apply_rel:
  assumes rel: "store_rel s a" and spec: "spec_apply c a = (Inr (), a')" and ok: "store_ok a'"
  shows "fst (gs_apply c s) = Inr () \<and> store_rel (snd (gs_apply c s)) a'"
proof (cases c)
  case (CreateNode x labels props)
  then have a': "ag_nodes a x = None" "a' = a\<lparr>ag_nodes := (ag_nodes a)(x \<mapsto> new_node x labels props)\<rparr>"
    using spec by (auto split: if_splits)
  show ?thesis using create_node_rel [OF rel a'(1)] ok by (simp add: CreateNode a'(2))
next
  case (CreateRelationship r x y ty props)
  then have a': "ag_rels a r = None" "a' = add_rel (new_relationship r x y ty props) a"
    using spec by (auto simp: add_rel_def new_relationship_def split: if_splits)
  show ?thesis using create_relationship_rel [OF rel a'(1)] ok by (simp add: CreateRelationship a'(2))
next
  case (UpsertBoundaryNode x owner labels props version)
  then show ?thesis using upsert_boundary_rel [OF rel refl] spec ok by auto
next
  case (SetNodeProperty x key v)
  then show ?thesis
    using update_node_rel [OF rel, of x "\<lambda>n. n\<lparr>node_properties := fmupd key v (node_properties n)\<rparr>" "\<lambda>_. True"] spec ok
    by (simp add: gs_set_node_property_def)
next
  case (RemoveNodeProperty x key)
  then show ?thesis
    using update_node_rel [OF rel, of x "\<lambda>n. n\<lparr>node_properties := fmdrop key (node_properties n)\<rparr>" "\<lambda>_. True"] spec ok
    by (simp add: gs_remove_node_property_def)
next
  case (AddNodeLabel x l)
  let ?f = "\<lambda>n. if l \<in> set (node_labels n) then n else n\<lparr>node_labels := node_labels n @ [l]\<rparr>"
  have "gs_add_node_label x l s = gs_update_node x (\<lambda>n. \<not> list_ex (\<lambda>e. e = l) (node_labels n)) ?f s"
    by (auto simp: gs_add_node_label_def gs_update_node_def list_ex_iff split: sum.splits option.splits)
  then show ?thesis
    using update_node_rel [OF rel, of x ?f "\<lambda>n. \<not> list_ex (\<lambda>e. e = l) (node_labels n)"] spec ok AddNodeLabel
    by (simp add: list_ex_iff)
next
  case (RemoveNodeLabel x l)
  then show ?thesis
    using update_node_rel [OF rel, of x "\<lambda>n. n\<lparr>node_labels := removeAll l (node_labels n)\<rparr>"
        "\<lambda>n. list_ex (\<lambda>e. e = l) (node_labels n)"] spec ok
    by (simp add: gs_remove_node_label_def list_ex_iff filter_neq_removeAll removeAll_id)
next
  case (SetRelationshipProperty r key v)
  then show ?thesis
    using update_relationship_rel [OF rel, of r "fmupd key v"] spec ok by (simp add: gs_set_relationship_property_def)
next
  case (RemoveRelationshipProperty r key)
  then show ?thesis
    using update_relationship_rel [OF rel, of r "fmdrop key"] spec ok by (simp add: gs_remove_relationship_property_def)
next
  case (DeleteRelationship r)
  then show ?thesis using delete_relationship_rel [OF rel, of r] spec by (auto split: option.splits)
next
  case (DeleteNode x)
  then show ?thesis using delete_node_rel [OF rel, of x] spec by simp
next
  case (ClusterConfigChange phase description voters table)
  then show ?thesis using rel spec by simp
qed

end
