(* ===== verification/Store_Read.thy ===== *)
theory Store_Read
  imports Store_Refine
begin

text \<open>
  The read side of the persistent graph: \<open>impl GraphRead for KvGraphStore\<close> as an interpretation of
  the read interface, and the properties of the store. A store is read together with the abstract
  graph it represents, a ghost component the operations do not look at.
\<close>

section \<open>\<open>impl GraphRead for KvGraphStore\<close>\<close>

fun display_storage_error :: "storage_error \<Rightarrow> string" where
  "display_storage_error (Io err) = err"
| "display_storage_error (CorruptLog message) = ''corrupt command log: '' @ message"
| "display_storage_error (CorruptSnapshot message) = ''corrupt snapshot: '' @ message"
| "display_storage_error (CorruptStore message) = ''corrupt graph store: '' @ message"
| "display_storage_error (WrongShard expected actual) =
     ''wrong shard entry: expected '' @ show_u64 expected @ '', got '' @ show_u64 actual"

fun store_read_error :: "storage_error fault \<Rightarrow> graph_read_error fault" where
  "store_read_error (Err e) = Err (Store (display_storage_error e))"
| "store_read_error (Panic m) = Panic m"

definition map_read_error :: "'a store_result \<Rightarrow> graph_read_error fault + 'a" where
  "map_read_error r = (case r of Inl e \<Rightarrow> Inl (store_read_error e) | Inr x \<Rightarrow> Inr x)"

definition store_read_node :: "kv_graph_store \<Rightarrow> node_id \<Rightarrow> graph_read_error fault + node option" where
  "store_read_node s x = map_read_error (gs_node s x)"

definition store_read_boundary_node ::
  "kv_graph_store \<Rightarrow> node_id \<Rightarrow> graph_read_error fault + boundary_node option" where
  "store_read_boundary_node s x = map_read_error (gs_boundary_node s x)"

definition store_read_nodes :: "kv_graph_store \<Rightarrow> graph_read_error fault + node list" where
  "store_read_nodes s = map_read_error (gs_nodes s)"

definition store_read_node_ids :: "kv_graph_store \<Rightarrow> graph_read_error fault + node_id list" where
  "store_read_node_ids s = map_read_error (gs_node_ids s)"

definition store_read_relationship ::
  "kv_graph_store \<Rightarrow> relationship_id \<Rightarrow> graph_read_error fault + relationship option" where
  "store_read_relationship s r = map_read_error (gs_relationship s r)"

definition store_read_node_ids_by_label ::
  "kv_graph_store \<Rightarrow> string \<Rightarrow> graph_read_error fault + node_id list" where
  "store_read_node_ids_by_label s l = map_read_error (gs_node_ids_by_label s l)"

definition store_read_node_ids_by_label_property ::
  "kv_graph_store \<Rightarrow> string \<Rightarrow> string \<Rightarrow> val \<Rightarrow> graph_read_error fault + node_id list" where
  "store_read_node_ids_by_label_property s l k v = map_read_error (gs_node_ids_by_label_property s l k v)"

definition store_read_boundary_node_ids_by_label_property ::
  "kv_graph_store \<Rightarrow> string \<Rightarrow> string \<Rightarrow> val \<Rightarrow> graph_read_error fault + node_id list" where
  "store_read_boundary_node_ids_by_label_property s l k v =
     map_read_error (gs_boundary_node_ids_by_label_property s l k v)"

definition store_read_outgoing :: "kv_graph_store \<Rightarrow> node_id \<Rightarrow> graph_read_error fault + relationship list" where
  "store_read_outgoing s x = map_read_error (gs_outgoing s x)"

definition store_read_outgoing_by_type ::
  "kv_graph_store \<Rightarrow> node_id \<Rightarrow> string \<Rightarrow> graph_read_error fault + relationship list" where
  "store_read_outgoing_by_type s x ty = map_read_error (gs_outgoing_by_type s x ty)"

definition store_read_incoming :: "kv_graph_store \<Rightarrow> node_id \<Rightarrow> graph_read_error fault + relationship list" where
  "store_read_incoming s x = map_read_error (gs_incoming s x)"

definition store_read_incoming_by_type ::
  "kv_graph_store \<Rightarrow> node_id \<Rightarrow> string \<Rightarrow> graph_read_error fault + relationship list" where
  "store_read_incoming_by_type s x ty = map_read_error (gs_incoming_by_type s x ty)"

section \<open>The laws of the read interface\<close>

definition text_fits :: "string \<Rightarrow> bool" where
  "text_fits l \<longleftrightarrow> fits_u32 (length l)"

definition prop_fits :: "string \<Rightarrow> string \<Rightarrow> val \<Rightarrow> bool" where
  "prop_fits l k v \<longleftrightarrow> fits_u32 (length l) \<and> fits_u32 (length k) \<and> fits_u32 (length (encode_value_for_key v))"

lemma store_ids:
  assumes "store_rel s a"
  shows "gs_node_ids s = Inr (sorted_list_of_set (dom (ag_nodes a)))"
    and "text_fits l \<Longrightarrow> gs_node_ids_by_label s l = Inr (sorted_list_of_set (ag_by_label a l))"
    and "prop_fits l k v \<Longrightarrow> gs_node_ids_by_label_property s l k v = Inr (sorted_list_of_set (ag_by_label_property a l k v))"
    and "prop_fits l k v \<Longrightarrow> gs_boundary_node_ids_by_label_property s l k v =
           Inr (sorted_list_of_set (ag_boundary_by_label_property a l k v))"
proof -
  have "{x. \<exists>y. ag_nodes a x = Some y} = dom (ag_nodes a)" by auto
  then show "gs_node_ids s = Inr (sorted_list_of_set (dom (ag_nodes a)))"
    by (simp add: gs_node_ids_def node_family.scan_ids [OF assms] node_family.members_def)
  show "gs_node_ids_by_label s l = Inr (sorted_list_of_set (ag_by_label a l))" if "text_fits l"
    using key_family.scan_ids [OF label_family assms] key_family.members_def [OF label_family] that
    by (simp add: gs_node_ids_by_label_def text_fits_def ag_by_label_def)
  show "gs_node_ids_by_label_property s l k v = Inr (sorted_list_of_set (ag_by_label_property a l k v))"
    if "prop_fits l k v"
  proof -
    have "key_family (label_property_prefix l k v) (SLP l k v)"
      using that by (intro lp_family) (simp_all add: prop_fits_def)
    from key_family.scan_ids [OF this assms] key_family.members_def [OF this, of a]
    show ?thesis by (simp add: gs_node_ids_by_label_property_def ag_by_label_property_def conj_ac)
  qed
  show "gs_boundary_node_ids_by_label_property s l k v =
      Inr (sorted_list_of_set (ag_boundary_by_label_property a l k v))" if "prop_fits l k v"
  proof -
    have "key_family (boundary_label_property_prefix l k v) (SBLP l k v)"
      using that by (intro blp_family) (simp_all add: prop_fits_def)
    from key_family.scan_ids [OF this assms] key_family.members_def [OF this, of a]
    show ?thesis by (simp add: gs_boundary_node_ids_by_label_property_def ag_boundary_by_label_property_def conj_ac)
  qed
qed

lemma lists_members:
  assumes "store_rel s a" and "finite M" and "M \<subseteq> dom (ag_rels a)"
  shows "lists_rels (Inr (map (\<lambda>r. the (ag_rels a r)) (sorted_list_of_set M)))
    {rel. ag_rels a (rel_id rel) = Some rel \<and> rel_id rel \<in> M}"
proof -
  have key: "ag_rels a r = Some rel \<Longrightarrow> rel_id rel = r" for r rel
    using store_okD(3) [OF store_relD(1) [OF assms(1)]] by simp
  have "map (rel_id \<circ> (\<lambda>r. the (ag_rels a r))) (sorted_list_of_set M) = sorted_list_of_set M"
    by (rule map_idI) (use assms(2,3) key in fastforce)
  moreover have "(\<lambda>r. the (ag_rels a r)) ` M = {rel. ag_rels a (rel_id rel) = Some rel \<and> rel_id rel \<in> M}"
  proof (intro equalityI subsetI)
    fix q assume "q \<in> (\<lambda>r. the (ag_rels a r)) ` M"
    then obtain r where "r \<in> M" "ag_rels a r = Some q" using assms(3) by auto
    then show "q \<in> {rel. ag_rels a (rel_id rel) = Some rel \<and> rel_id rel \<in> M}" using key [of r q] by simp
  next
    fix q assume "q \<in> {rel. ag_rels a (rel_id rel) = Some rel \<and> rel_id rel \<in> M}"
    then show "q \<in> (\<lambda>r. the (ag_rels a r)) ` M" by (intro image_eqI [of _ _ "rel_id q"]) simp_all
  qed
  ultimately show ?thesis using assms(2) by (simp add: lists_rels_def)
qed

lemma store_adjacency:
  assumes rel: "store_rel s a"
  shows "lists_rels (gs_outgoing s x) (ag_outgoing a x)" and "lists_rels (gs_incoming s x) (ag_incoming a x)"
    and "text_fits ty \<Longrightarrow> lists_rels (gs_outgoing_by_type s x ty) {r \<in> ag_outgoing a x. rel_type r = ty}"
    and "text_fits ty \<Longrightarrow> lists_rels (gs_incoming_by_type s x ty) {r \<in> ag_incoming a x. rel_type r = ty}"
proof -
  have key: "ag_rels a r = Some q \<Longrightarrow> rel_id q = r" for r q
    using store_okD(3) [OF store_relD(1) [OF rel]] by simp
  have fam: "lists_rels (relationships_from_index s p) {q. ag_rels a (rel_id q) = Some q \<and> P q}"
    if "key_family p fm" and "\<And>r. (content a (fm r) \<noteq> None) = (\<exists>q. ag_rels a r = Some q \<and> P q)" for p fm P
  proof -
    have m: "key_family.members fm a = {r. \<exists>q. ag_rels a r = Some q \<and> P q}"
      using key_family.members_def [OF that(1)] that(2) by auto
    have sub: "key_family.members fm a \<subseteq> dom (ag_rels a)" unfolding m by auto
    have "lists_rels (relationships_from_index s p)
        {q. ag_rels a (rel_id q) = Some q \<and> rel_id q \<in> key_family.members fm a}"
      unfolding key_family.scan_relationships [OF that(1) rel sub]
      by (rule lists_members [OF rel key_family.finite_members [OF that(1) rel] sub])
    then show ?thesis unfolding m by (rule rels_in_subset) auto
  qed
  show "lists_rels (gs_outgoing s x) (ag_outgoing a x)"
    unfolding gs_outgoing_def ag_outgoing_def by (rule fam [OF outgoing_family.key_family_axioms]) simp
  show "lists_rels (gs_incoming s x) (ag_incoming a x)"
    unfolding gs_incoming_def ag_incoming_def
    by (rule fam [OF incoming_family.key_family_axioms]) (auto dest: key)
  show "lists_rels (gs_outgoing_by_type s x ty) {r \<in> ag_outgoing a x. rel_type r = ty}" if "text_fits ty"
    using that unfolding gs_outgoing_by_type_def ag_outgoing_def mem_Collect_eq conj_assoc text_fits_def
    by (intro fam [OF outgoing_type_family]) auto
  show "lists_rels (gs_incoming_by_type s x ty) {r \<in> ag_incoming a x. rel_type r = ty}" if "text_fits ty"
    using that unfolding gs_incoming_by_type_def ag_incoming_def mem_Collect_eq conj_assoc text_fits_def
    by (intro fam [OF incoming_type_family]) (auto dest: key)
qed

lemma lists_rels_mapped: "lists_rels (map_read_error res) R = lists_rels res R"
  by (auto simp: lists_rels_def map_read_error_def split: sum.splits)

lemma map_read_error_Inr [simp]: "map_read_error (Inr x) = Inr x"
  by (simp add: map_read_error_def)

lemma finite_nodes: "store_rel s a \<Longrightarrow> finite (dom (ag_nodes a))"
  using node_family.finite_members [of s a] by (simp add: node_family.members_def dom_def)

interpretation store_read: graph_read "\<lambda>(s, a). store_rel s a" text_fits prop_fits snd
    "\<lambda>(s, _). store_read_node s" "\<lambda>(s, _). store_read_node_ids s" "\<lambda>(s, _). store_read_node_ids_by_label s"
    "\<lambda>(s, _). store_read_node_ids_by_label_property s"
    "\<lambda>(s, _). store_read_boundary_node_ids_by_label_property s" "\<lambda>(s, _). store_read_outgoing s"
    "\<lambda>(s, _). store_read_outgoing_by_type s" "\<lambda>(s, _). store_read_incoming s"
    "\<lambda>(s, _). store_read_incoming_by_type s"
  by unfold_locales
     (auto simp: store_read_node_def gs_node_ok store_read_node_ids_def store_read_node_ids_by_label_def
        store_read_node_ids_by_label_property_def store_read_boundary_node_ids_by_label_property_def store_ids
        store_read_outgoing_def store_read_outgoing_by_type_def store_read_incoming_def
        store_read_incoming_by_type_def lists_rels_mapped store_adjacency finite_nodes)

section \<open>Properties of the persistent graph\<close>

text \<open>
  C2. The persistent graph implements the property graph: when a store represents an abstract graph and
  the specification accepts the command, \<open>KvGraphStore::apply\<close> succeeds and the store represents the
  graph the specification reaches, with every record and index key in place and no key left over. The
  resulting records have to fit the encoding (\<open>store_ok\<close>).
\<close>

theorem store_apply_refines_spec:
  assumes "store_rel s a" and "spec_apply c a = (Inr (), a')" and "store_ok a'"
  shows "fst (gs_apply c s) = Inr () \<and> store_rel (snd (gs_apply c s)) a'"
  by (rule gs_apply_rel [OF assms])

definition empty_agraph :: agraph where
  "empty_agraph = \<lparr>ag_nodes = Map.empty, ag_boundary = Map.empty, ag_rels = Map.empty, ag_linked = {}\<rparr>"

lemma empty_store_rel: "store_rel (new_store new_memory_kv) empty_agraph"
  unfolding store_rel_def
proof (intro conjI allI impI)
  show "store_ok empty_agraph" by (simp add: store_ok_def empty_agraph_def)
  show "fmlookup (kv_data (gs_kv (new_store new_memory_kv))) (enc_key k) = content empty_agraph k" for k
    by (cases k) (simp_all add: new_store_def new_memory_kv_def empty_agraph_def mark_def)
qed (simp add: new_store_def new_memory_kv_def)

definition sample_node :: node where
  "sample_node = new_node 7 [''Person''] (fmupd ''age'' (V_Int 36) fmempty)"

definition sample_agraph :: agraph where
  "sample_agraph = empty_agraph\<lparr>ag_nodes := [7 \<mapsto> sample_node]\<rparr>"

lemma sample_record: "wf_command (node_record sample_node)" "length (encode_command (node_record sample_node)) = 43"
  "fits_u32 (length (encode_value_for_key (V_Int 36)))"
  by code_simp+

lemma sample_store_ok: "store_ok sample_agraph"
  using sample_record
  by (auto simp: store_ok_def sample_agraph_def empty_agraph_def encodable_def key_values_fit_def)
     (auto simp: sample_node_def new_node_def split: if_splits)

definition sample_create :: command where
  "sample_create = CreateNode 7 [''Person''] (fmupd ''age'' (V_Int 36) fmempty)"

definition sample_store :: kv_graph_store where
  "sample_store = snd (gs_apply sample_create (new_store new_memory_kv))"

lemma sample_spec: "spec_apply sample_create empty_agraph = (Inr (), sample_agraph)"
  by (simp add: sample_create_def empty_agraph_def sample_agraph_def sample_node_def)

theorem store_apply_refines_spec_witness:
  "fst (gs_apply sample_create (new_store new_memory_kv)) = Inr () \<and> store_rel sample_store sample_agraph"
  unfolding sample_store_def by (rule store_apply_refines_spec [OF empty_store_rel sample_spec sample_store_ok])

lemma sample_store_rel: "store_rel sample_store sample_agraph"
  unfolding sample_store_def using gs_apply_rel [OF empty_store_rel sample_spec sample_store_ok] by blast

text \<open>
  C14. A query gets the same answer from the graph in memory and from the persistent graph: when the two
  represent the same abstract graph, the label, label-property and boundary lookups of \<open>GraphState\<close>
  and \<open>KvGraphStore\<close> return the same identifiers in the same order, for texts and values whose encoding
  fits the key format.
\<close>

theorem memory_and_store_agree:
  assumes "graph_inv g" and "store_rel s (abs_graph g)" and "text_fits l" and "prop_fits l k v"
  shows "store_read_node_ids s = Inr (node_ids g) \<and>
    store_read_node_ids_by_label s l = Inr (node_ids_by_label g l) \<and>
    store_read_node_ids_by_label_property s l k v = Inr (node_ids_by_label_property g l k v) \<and>
    store_read_boundary_node_ids_by_label_property s l k v = Inr (boundary_node_ids_by_label_property g l k v)"
  using store_ids [OF assms(2)] assms(3,4) read_index_laws [OF assms(1)]
    graph_state_read.node_ids_law [OF assms(1)]
  by (simp add: store_read_node_ids_def store_read_node_ids_by_label_def read_node_ids_def
      store_read_node_ids_by_label_property_def store_read_boundary_node_ids_by_label_property_def)

definition sample_memory :: graph_state where
  "sample_memory = snd (apply_command sample_create new_graph)"

lemma sample_memory_abs: "graph_inv sample_memory" "abs_graph sample_memory = sample_agraph"
proof -
  show "graph_inv sample_memory"
    by (simp only: sample_memory_def apply_command_graph_inv graph_inv_new_graph)
  have "abs_graph new_graph = empty_agraph"
    by (simp add: abs_graph_def new_graph_def empty_agraph_def fun_eq_iff)
  then show "abs_graph sample_memory = sample_agraph"
    using apply_command_abs [OF graph_inv_new_graph, of sample_create] sample_spec
    by (simp add: sample_memory_def)
qed

theorem memory_and_store_agree_witness:
  "store_read_node_ids_by_label_property sample_store ''Person'' ''age'' (V_Int 36) = Inr [7]"
proof -
  have "text_fits ''Person''" "prop_fits ''Person'' ''age'' (V_Int 36)" by code_simp+
  moreover have "store_rel sample_store (abs_graph sample_memory)"
    by (simp add: sample_memory_abs sample_store_rel)
  moreover have "node_ids_by_label_property sample_memory ''Person'' ''age'' (V_Int 36) = [7]" by code_simp
  ultimately show ?thesis
    using memory_and_store_agree [OF sample_memory_abs(1), of sample_store "''Person''" "''age''" "V_Int 36"] by simp
qed

end
