(* ===== verification/Store_Batch.thy ===== *)
theory Store_Batch
  imports Store_Read
begin

text \<open>
  \<open>KvGraphStore::apply_batch\<close> against the specification. The commands of a batch see the store as it was
  and the staged records; the invariant \<open>batch_rel\<close> says that the collected writes and the staged
  records together represent the graph the commands have reached so far.
\<close>

section \<open>The batch invariant\<close>

definition all_linked :: "agraph \<Rightarrow> bool" where
  "all_linked a \<longleftrightarrow> ag_linked a = dom (ag_rels a)"

definition same_ends :: "relationship \<Rightarrow> relationship \<Rightarrow> bool" where
  "same_ends p q \<longleftrightarrow> rel_from p = rel_from q \<and> rel_to p = rel_to q"

definition batch_rel :: "kv_graph_store \<Rightarrow> agraph \<Rightarrow> batch_state \<Rightarrow> agraph \<Rightarrow> bool" where
  "batch_rel s a0 bst a \<longleftrightarrow>
     (\<exists>ops. operations (fst bst) = map enc_op ops \<and> (\<forall>op\<in>set ops. wf_key (fst op)) \<and>
        (\<forall>k. overlay ops (content a0) k = content a k)) \<and>
     store_ok a \<and> all_linked a \<and>
     (\<forall>x. staged_node s (snd bst) x = Inr (ag_nodes a x)) \<and>
     (\<forall>x. staged_boundary_node s (snd bst) x = Inr (ag_boundary a x)) \<and>
     (\<forall>r. staged_relationship s (snd bst) r = Inr (ag_rels a r)) \<and>
     (\<forall>r q. ag_rels a r = Some q \<longrightarrow>
        fmlookup (staged_relationships (snd bst)) r = Some (Some q) \<or> ag_rels a0 r = Some q) \<and>
     (\<forall>r p q. ag_rels a0 r = Some p \<longrightarrow> ag_rels a r = Some q \<longrightarrow> same_ends p q)"

lemma batch_relD:
  assumes "batch_rel s a0 (b, st) a"
  shows "store_ok a" "all_linked a" "staged_node s st x = Inr (ag_nodes a x)"
    "staged_boundary_node s st x = Inr (ag_boundary a x)" "staged_relationship s st r = Inr (ag_rels a r)"
    "ag_rels a r = Some q \<Longrightarrow> fmlookup (staged_relationships st) r = Some (Some q) \<or> ag_rels a0 r = Some q"
    "ag_rels a0 r = Some p \<Longrightarrow> ag_rels a r = Some q \<Longrightarrow> same_ends p q"
  using assms by (auto simp: batch_rel_def)

text \<open>Appending structured writes that take the content of \<open>a\<close> to the content of \<open>a'\<close>.\<close>

lemma batch_rel_append:
  assumes "batch_rel s a0 (b, st) a" and "operations b' = operations b @ map enc_op ops'"
    and "\<forall>op\<in>set ops'. wf_key (fst op)" and "\<And>k. overlay ops' (content a) k = content a' k"
    and "store_ok a'" and "all_linked a'"
    and "\<And>x. staged_node s st' x = Inr (ag_nodes a' x)" and "\<And>x. staged_boundary_node s st' x = Inr (ag_boundary a' x)"
    and "\<And>r. staged_relationship s st' r = Inr (ag_rels a' r)"
    and "\<And>r q. ag_rels a' r = Some q \<Longrightarrow> fmlookup (staged_relationships st') r = Some (Some q) \<or> ag_rels a0 r = Some q"
    and "\<And>r p q. ag_rels a0 r = Some p \<Longrightarrow> ag_rels a' r = Some q \<Longrightarrow> same_ends p q"
  shows "batch_rel s a0 (b', st') a'"
proof -
  obtain ops where ops: "operations b = map enc_op ops" "\<forall>op\<in>set ops. wf_key (fst op)"
    "overlay ops (content a0) = content a"
    using assms(1) by (auto simp: batch_rel_def fun_eq_iff)
  have "operations b' = map enc_op (ops @ ops') \<and> (\<forall>op\<in>set (ops @ ops'). wf_key (fst op)) \<and>
      (\<forall>k. overlay (ops @ ops') (content a0) k = content a' k)"
    using ops assms(2-4) by (auto simp: ops(3))
  then show ?thesis unfolding batch_rel_def fst_conv snd_conv using assms(5-) by blast
qed

lemma staged_stage [simp]:
  "staged_node s (stage_node x n st) y = (if y = x then Inr n else staged_node s st y)"
  "staged_boundary_node s (stage_node x n st) y = staged_boundary_node s st y"
  "staged_relationship s (stage_node x n st) r = staged_relationship s st r"
  "staged_node s (stage_boundary_node x b st) y = staged_node s st y"
  "staged_boundary_node s (stage_boundary_node x b st) y = (if y = x then Inr b else staged_boundary_node s st y)"
  "staged_relationship s (stage_boundary_node x b st) r = staged_relationship s st r"
  "staged_node s (stage_relationship q rel st) y = staged_node s st y"
  "staged_boundary_node s (stage_relationship q rel st) y = staged_boundary_node s st y"
  "staged_relationship s (stage_relationship q rel st) r = (if r = q then Inr rel else staged_relationship s st r)"
  "staged_relationships (stage_node x n st) = staged_relationships st"
  "staged_relationships (stage_boundary_node x b st) = staged_relationships st"
  "staged_relationships (stage_relationship q rel st) = fmupd q rel (staged_relationships st)"
  by (simp_all add: staged_node_def staged_boundary_node_def staged_relationship_def stage_node_def
      stage_boundary_node_def stage_relationship_def)

section \<open>Each command in a batch\<close>

lemma batch_put_node:
  assumes rel: "batch_rel s a0 (b, st) a" and ok: "store_ok (a\<lparr>ag_nodes := (ag_nodes a)(x \<mapsto> n)\<rparr>)"
    and ops: "operations b' = operations b @ map enc_op (deletes (old_node_keys a x) @
      (SNode x, Some (encode_command (node_record n))) # puts (node_keys x (node_labels n) (node_properties n)))"
  shows "batch_rel s a0 (b', stage_node x (Some n) st) (a\<lparr>ag_nodes := (ag_nodes a)(x \<mapsto> n)\<rparr>)"
proof (rule batch_rel_append [OF rel ops _ content_put_node ok])
  have "\<forall>k\<in>set (old_node_keys a x). wf_key k"
    using store_okD(1) [OF batch_relD(1) [OF rel], of x] node_keys_wf [of "the (ag_nodes a x)" x]
    by (cases "ag_nodes a x") (simp_all add: old_node_keys_def)
  moreover have "\<forall>k\<in>set (node_keys x (node_labels n) (node_properties n)). wf_key k"
    using store_okD(1) [OF ok, of x n] node_keys_wf [of n x] by simp
  ultimately show "\<forall>op\<in>set (deletes (old_node_keys a x) @
      (SNode x, Some (encode_command (node_record n))) # puts (node_keys x (node_labels n) (node_properties n))). wf_key (fst op)"
    by (simp add: ball_Un)
qed (use batch_relD [OF rel] in \<open>auto simp: all_linked_def\<close>)

lemma batch_create_node:
  assumes rel: "batch_rel s a0 (b, st) a" and new: "ag_nodes a x = None"
    and ok: "store_ok (a\<lparr>ag_nodes := (ag_nodes a)(x \<mapsto> new_node x labels props)\<rparr>)"
  shows "\<exists>bst. apply_into_batch s (CreateNode x labels props) (b, st) = Inr bst \<and>
    batch_rel s a0 bst (a\<lparr>ag_nodes := (ag_nodes a)(x \<mapsto> new_node x labels props)\<rparr>)"
  using batch_put_node [OF rel ok, of "index_node_into_batch x labels props (put_node_into_batch x labels props b)"]
  by (simp add: operations_index_node put_node_into_batch_def old_node_keys_def new deletes_def enc_op_def
      new_node_def node_record_def)

lemma batch_update_node:
  assumes rel: "batch_rel s a0 (b, st) a" and n: "ag_nodes a x = Some n" and ok: "store_ok (snd (update_node x f a))"
    and f: "\<And>n. node_id (f n) = node_id n" and skip: "\<And>n. \<not> applies n \<Longrightarrow> f n = n"
  shows "\<exists>bst. update_node_staged s x applies f (b, st) = Inr bst \<and> batch_rel s a0 bst (snd (update_node x f a))"
proof (cases "applies n")
  case True
  have "node_id n = x" using store_okD(1) [OF batch_relD(1) [OF rel] n] by simp
  then have "batch_rel s a0 (rewrite_node_into_batch n (f n) b, stage_node x (Some (f n)) st)
      (a\<lparr>ag_nodes := (ag_nodes a)(x \<mapsto> f n)\<rparr>)"
    using ok n f [of n]
    by (intro batch_put_node [OF rel])
       (simp_all add: update_node_def rewrite_node_into_batch_def operations_index_node operations_remove_node
          put_node_into_batch_def old_node_keys_def enc_op_def node_record_def)
  then show ?thesis using True n by (simp add: update_node_staged_def batch_relD(3) [OF rel] update_node_def)
next
  case False
  then have "a\<lparr>ag_nodes := (ag_nodes a)(x \<mapsto> f n)\<rparr> = a" using skip n by (simp add: fun_upd_idem)
  then show ?thesis using False n rel by (simp add: update_node_staged_def batch_relD(3) [OF rel] update_node_def)
qed

lemma batch_upsert_boundary:
  assumes rel: "batch_rel s a0 (b, st) a" and n: "n = new_boundary_node x owner labels props version"
    and ok: "store_ok (a\<lparr>ag_boundary := (ag_boundary a)(x \<mapsto> n)\<rparr>)"
  shows "\<exists>bst. apply_into_batch s (UpsertBoundaryNode x owner labels props version) (b, st) = Inr bst \<and>
    batch_rel s a0 bst (a\<lparr>ag_boundary := (ag_boundary a)(x \<mapsto> n)\<rparr>)"
proof -
  let ?ops = "deletes (old_boundary_keys a x) @ (SBoundary x, Some (encode_command (boundary_record n))) #
       puts (boundary_keys x (bn_labels n) (bn_properties n))"
  let ?b0 = "case ag_boundary a x of None \<Rightarrow> b | Some old \<Rightarrow> remove_boundary_node_indexes_into_batch old b"
  let ?batch = "index_boundary_node_into_batch x labels props
      (batch_put (boundary_node_key x) (encode_command (UpsertBoundaryNode x owner labels props version)) ?b0)"
  have "operations ?b0 = operations b @ map enc_op (deletes (old_boundary_keys a x))"
    using store_okD(2) [OF batch_relD(1) [OF rel], of x]
    by (auto simp: old_boundary_keys_def operations_remove_boundary deletes_def split: option.splits)
  then have ops: "operations ?batch = operations b @ map enc_op ?ops"
    by (simp add: operations_index_boundary enc_op_def n new_boundary_node_def boundary_record_def)
  have "\<forall>k\<in>set (old_boundary_keys a x). wf_key k"
    using store_okD(2) [OF batch_relD(1) [OF rel], of x] boundary_keys_wf [of "the (ag_boundary a x)" x]
    by (cases "ag_boundary a x") (simp_all add: old_boundary_keys_def)
  moreover have "\<forall>k\<in>set (boundary_keys x (bn_labels n) (bn_properties n)). wf_key k"
    using store_okD(2) [OF ok, of x n] boundary_keys_wf [of n x] by simp
  ultimately have wf: "\<forall>op\<in>set ?ops. wf_key (fst op)" by (simp add: ball_Un)
  have "batch_rel s a0 (?batch, stage_boundary_node x (Some n) st) (a\<lparr>ag_boundary := (ag_boundary a)(x \<mapsto> n)\<rparr>)"
    by (rule batch_rel_append [OF rel ops wf content_put_boundary ok])
       (use batch_relD [OF rel] in \<open>auto simp: all_linked_def\<close>)
  then show ?thesis by (simp add: batch_relD(4) [OF rel] Let_def n)
qed

lemma batch_create_relationship:
  assumes rel: "batch_rel s a0 (b, st) a" and fresh: "ag_rels a r = None" and new: "ag_rels a0 r = None"
    and local_to: "ag_nodes a to \<noteq> None" and q: "q = new_relationship r from to ty props"
    and ok: "store_ok (add_rel q a)"
  shows "\<exists>bst. apply_into_batch s (CreateRelationship r from to ty props) (b, st) = Inr bst \<and>
    batch_rel s a0 bst (add_rel q a)"
proof -
  let ?ops = "(SRel (rel_id q), Some (encode_command (relationship_record q))) #
      puts ([SOut (rel_from q) (rel_id q), SOutT (rel_from q) (rel_type q) (rel_id q)] @ link_keys a q)"
  let ?b = "batch_put (incoming_type_key to ty r) [] (batch_put (incoming_key to r) []
      (create_relationship_value_into_batch q b))"
  have ids: "rel_id q = r" "rel_from q = from" "rel_to q = to" "rel_type q = ty"
    by (simp_all add: q new_relationship_def)
  have ops: "operations ?b = operations b @ map enc_op ?ops"
    using local_to by (simp add: create_relationship_value_into_batch_def ids link_keys_def puts_def enc_op_def)
  have "wf_string ty"
    using store_okD(3) [OF ok, of r q] by (simp add: add_rel_def ids encodable_def relationship_record_def)
  then have wf: "\<forall>op\<in>set ?ops. wf_key (fst op)"
    by (auto simp: puts_def link_keys_def ids intro: wf_string_fits)
  have "overlay ?ops (content a) k = content (add_rel q a) k" for k
    by (rule content_add_rel [OF batch_relD(1) [OF rel]]) (simp add: ids fresh)
  then have "batch_rel s a0 (?b, stage_relationship r (Some q) st) (add_rel q a)"
    using batch_relD [OF rel] local_to new
    by (intro batch_rel_append [OF rel ops wf _ ok]) (auto simp: add_rel_def ids all_linked_def split: if_splits)
  then show ?thesis using local_to by (simp add: batch_relD(3) [OF rel] Let_def q)
qed

lemma content_restage_rel:
  assumes "all_linked a" and "ag_rels a r = Some p" and "rel_from q = rel_from p" "rel_to q = rel_to p" "rel_type q = rel_type p"
  shows "overlay ((SRel r, Some (encode_command (relationship_record q))) # puts [SOut (rel_from q) r, SOutT (rel_from q) (rel_type q) r])
      (content a) k = content (a\<lparr>ag_rels := (ag_rels a)(r \<mapsto> q)\<rparr>) k"
  using assms by (cases k) (auto simp: overlay_ops mark_def)

lemma batch_update_relationship:
  assumes rel: "batch_rel s a0 (b, st) a" and p: "ag_rels a r = Some p"
    and ok: "store_ok (snd (update_rel r (\<lambda>q. q\<lparr>rel_properties := f (rel_properties q)\<rparr>) a))"
  shows "\<exists>bst. update_relationship_staged s r f (b, st) = Inr bst \<and>
    batch_rel s a0 bst (snd (update_rel r (\<lambda>q. q\<lparr>rel_properties := f (rel_properties q)\<rparr>) a))"
proof -
  let ?q = "p\<lparr>rel_properties := f (rel_properties p)\<rparr>"
  let ?a = "a\<lparr>ag_rels := (ag_rels a)(r \<mapsto> ?q)\<rparr>"
  let ?ops = "(SRel r, Some (encode_command (relationship_record ?q))) # puts [SOut (rel_from ?q) r, SOutT (rel_from ?q) (rel_type ?q) r]"
  have okr: "rel_id p = r" "encodable (relationship_record p)"
    using store_okD(3) [OF batch_relD(1) [OF rel] p] by auto
  have ops: "operations (create_relationship_value_into_batch ?q b) = operations b @ map enc_op ?ops"
    by (simp add: create_relationship_value_into_batch_def puts_def enc_op_def okr)
  have wf: "\<forall>op\<in>set ?ops. wf_key (fst op)"
    using rel_keys_wf [OF okr(2), of r] by (simp add: puts_def rel_keys_def)
  have "overlay ?ops (content a) k = content ?a k" for k
    by (rule content_restage_rel [OF batch_relD(2) [OF rel] p]) simp_all
  moreover have "store_ok ?a" using ok p by (simp add: update_rel_def)
  ultimately have "batch_rel s a0 (create_relationship_value_into_batch ?q b, stage_relationship r (Some ?q) st) ?a"
    using batch_relD [OF rel] batch_relD(7) [OF rel _ p] p
    by (intro batch_rel_append [OF rel ops wf]) (auto simp: all_linked_def same_ends_def split: if_splits)
  then show ?thesis using p by (simp add: update_relationship_staged_def batch_relD(5) [OF rel] update_rel_def Let_def)
qed

lemma all_linked_drop: "all_linked a \<Longrightarrow> all_linked (drop_rels R a)"
  by (auto simp: all_linked_def drop_rels_def)

lemma batch_delete_relationship:
  assumes rel: "batch_rel s a0 (b, st) a"
  shows "\<exists>bst. delete_relationship_staged_into_batch s r (b, st) = Inr bst \<and> batch_rel s a0 bst (drop_rels {r} a)"
proof (cases "ag_rels a r")
  case None
  have "r \<notin> ag_linked a" using store_okD(4) [OF batch_relD(1) [OF rel]] None by auto
  then have "drop_rels {r} a = a" using None by (simp add: drop_rels_def restrict_map_def fun_eq_iff)
  then show ?thesis using None rel by (simp add: delete_relationship_staged_into_batch_def batch_relD(5) [OF rel])
next
  case (Some q)
  have ops: "operations (delete_keys_into_batch q r b) = operations b @ map enc_op (concat (map (del_rel_ops a) [r]))"
    by (simp add: operations_delete_keys del_rel_ops_def Some)
  have content: "overlay (concat (map (del_rel_ops a) [r])) (content a) k = content (drop_rels {r} a) k" for k
    by (rule content_drop_rels [OF del_rel_ops_facts(1)]) (use del_rel_ops_facts(2) [of a "[r]"] in simp)
  have "batch_rel s a0 (delete_keys_into_batch q r b, stage_relationship r None st) (drop_rels {r} a)"
    using batch_relD [OF rel]
    by (intro batch_rel_append [OF rel ops del_rel_ops_wf content] store_ok_drop_rels all_linked_drop)
       (auto simp: drop_rels_def restrict_map_def split: if_splits)
  then show ?thesis using Some by (simp add: delete_relationship_staged_into_batch_def batch_relD(5) [OF rel])
qed

lemma drop_rels_insert: "drop_rels R (drop_rels {r} a) = drop_rels (insert r R) a"
proof -
  have "(ag_rels a |` (- {r})) |` (- R) = ag_rels a |` (- insert r R)"
    by (auto simp: restrict_map_def fun_eq_iff)
  moreover have "ag_linked a - {r} - R = ag_linked a - insert r R" by auto
  ultimately show ?thesis by (simp add: drop_rels_def)
qed

lemma drop_rels_cong:
  assumes "R \<inter> dom (ag_rels a) = R' \<inter> dom (ag_rels a)" and "ag_linked a \<subseteq> dom (ag_rels a)"
  shows "drop_rels R a = drop_rels R' a"
proof -
  have "ag_rels a |` (- R) = ag_rels a |` (- R')"
  proof
    fix r show "(ag_rels a |` (- R)) r = (ag_rels a |` (- R')) r"
      using assms(1) by (cases "r \<in> dom (ag_rels a)") (auto simp: restrict_map_def)
  qed
  moreover have "ag_linked a - R = ag_linked a - R'" using assms by blast
  ultimately show ?thesis by (simp add: drop_rels_def)
qed

lemma batch_delete_relationships:
  assumes "batch_rel s a0 (b, st) a"
  shows "\<exists>b' st'. for_each rs (delete_relationship_staged_into_batch s) (b, st) = Inr (b', st') \<and>
    batch_rel s a0 (b', st') (drop_rels (set rs) a)"
  using assms
proof (induction rs arbitrary: b st a)
  case Nil
  then show ?case by (simp add: drop_rels_def restrict_map_def)
next
  case (Cons r rs)
  obtain b1 st1 where step: "delete_relationship_staged_into_batch s r (b, st) = Inr (b1, st1)"
    and rel1: "batch_rel s a0 (b1, st1) (drop_rels {r} a)"
    using batch_delete_relationship [OF Cons.prems, of r] by (metis prod.exhaust)
  then show ?case using Cons.IH [OF rel1] by (simp add: drop_rels_insert)
qed

lemma set_staged_attached:
  "set (staged_attached st x) = {r. \<exists>q. fmlookup (staged_relationships st) r = Some (Some q) \<and> (rel_from q = x \<or> rel_to q = x)}"
  by (auto simp: staged_attached_def List.map_filter_def set_hm_iter split: option.splits if_splits) force+

text \<open>The identifiers collected for a node deletion are, among the live relationships, the attached ones.\<close>

lemma batch_attached:
  assumes rel: "batch_rel s a0 (b, st) a" and linked: "all_linked a0"
  shows "(ag_attached a0 x \<union> set (staged_attached st x)) \<inter> dom (ag_rels a) = ag_attached a x"
proof (intro equalityI subsetI)
  fix r assume r: "r \<in> (ag_attached a0 x \<union> set (staged_attached st x)) \<inter> dom (ag_rels a)"
  then obtain q where q: "ag_rels a r = Some q" by auto
  have "rel_from q = x \<or> rel_to q = x"
  proof (cases "r \<in> ag_attached a0 x")
    case True
    then obtain p where "ag_rels a0 r = Some p" "rel_from p = x \<or> rel_to p = x" by (auto simp: ag_attached_def)
    then show ?thesis using batch_relD(7) [OF rel _ q] by (auto simp: same_ends_def)
  next
    case False
    then have "staged_relationship s st r = Inr (ag_rels a r)" "r \<in> set (staged_attached st x)"
      using batch_relD(5) [OF rel] r by auto
    then show ?thesis using q by (auto simp: set_staged_attached staged_relationship_def)
  qed
  then show "r \<in> ag_attached a x" using q batch_relD(2) [OF rel] by (auto simp: ag_attached_def all_linked_def)
next
  fix r assume "r \<in> ag_attached a x"
  then obtain q where "ag_rels a r = Some q" "rel_from q = x \<or> rel_to q = x" by (auto simp: ag_attached_def)
  then show "r \<in> (ag_attached a0 x \<union> set (staged_attached st x)) \<inter> dom (ag_rels a)"
    using batch_relD(6) [OF rel, of r q] linked
    by (auto simp: ag_attached_def set_staged_attached all_linked_def)
qed

lemma batch_delete_node:
  assumes srel: "store_rel s a0" and linked: "all_linked a0" and rel: "batch_rel s a0 (b, st) a"
    and n: "ag_nodes a x = Some n"
  shows "\<exists>bst. delete_node_staged_into_batch s x (b, st) = Inr bst \<and>
    batch_rel s a0 bst (snd (spec_apply (DeleteNode x) a))"
proof -
  let ?ids = "dedup (sort (sorted_list_of_set (key_family.members (SOut x) a0) @
      sorted_list_of_set (key_family.members (SIn x) a0) @ staged_attached st x))"
  let ?a = "drop_rels (ag_attached a x) a"
  have "set ?ids = ag_attached a0 x \<union> set (staged_attached st x)"
    using attached_ids [OF srel, of x] by auto
  then have drop: "drop_rels (set ?ids) a = ?a"
    using batch_attached [OF rel linked, of x] store_okD(4) [OF batch_relD(1) [OF rel]]
    by (intro drop_rels_cong) auto
  obtain b' st' where loop: "for_each ?ids (delete_relationship_staged_into_batch s) (b, st) = Inr (b', st')"
    and rel': "batch_rel s a0 (b', st') ?a"
    using batch_delete_relationships [OF rel, of ?ids] unfolding drop by blast
  have n': "ag_nodes ?a x = Some n" "node_id n = x" "encodable (node_record n)" "key_values_fit (node_properties n)"
    using n store_okD(1) [OF batch_relD(1) [OF rel] n] by (simp_all add: drop_rels_def)
  let ?ops = "deletes (node_keys x (node_labels n) (node_properties n)) @ [(SNode x, None)]"
  have "batch_rel s a0 (batch_delete (node_key x) (remove_node_indexes_into_batch n b'), stage_node x None st')
      (?a\<lparr>ag_nodes := (ag_nodes ?a)(x := None)\<rparr>)"
  proof (rule batch_rel_append [OF rel' _ _ content_drop_node [OF n'(1)]])
    show "operations (batch_delete (node_key x) (remove_node_indexes_into_batch n b')) = operations b' @ map enc_op ?ops"
      by (simp add: operations_remove_node n' enc_op_def)
    show "\<forall>op\<in>set ?ops. wf_key (fst op)" using node_keys_wf [OF n'(3,4), of x] by (simp add: ball_Un)
    show "store_ok (?a\<lparr>ag_nodes := (ag_nodes ?a)(x := None)\<rparr>)"
      using batch_relD(1) [OF rel'] by (simp add: store_ok_def)
  qed (use batch_relD [OF rel'] in \<open>auto simp: all_linked_def\<close>)
  then show ?thesis
    using n loop by (simp add: delete_node_staged_into_batch_def batch_relD(3) [OF rel]
        outgoing_family.scan_ids [OF srel] incoming_family.scan_ids [OF srel] drop_rels_def)
qed

section \<open>Whole batches\<close>

text \<open>
  The commands a batch handles like the sequential store: the target of a new relationship is a local
  node at that point, and its identifier is not one of the store's relationships.
\<close>

definition batch_step_ok :: "agraph \<Rightarrow> command \<Rightarrow> agraph \<Rightarrow> bool" where
  "batch_step_ok a0 c a =
     (case c of CreateRelationship r from to ty props \<Rightarrow> ag_rels a0 r = None \<and> ag_nodes a to \<noteq> None | _ \<Rightarrow> True)"

inductive spec_run :: "agraph \<Rightarrow> command list \<Rightarrow> agraph \<Rightarrow> agraph \<Rightarrow> bool" for a0 where
  spec_run_nil: "spec_run a0 [] a a"
| spec_run_cons: "spec_apply c a = (Inr (), a') \<Longrightarrow> batch_step_ok a0 c a \<Longrightarrow> store_ok a' \<Longrightarrow>
    spec_run a0 cs a' a'' \<Longrightarrow> spec_run a0 (c # cs) a a''"

inductive_cases spec_run_consE: "spec_run a0 (c # cs) a a''"

lemma apply_into_batch_rel:
  assumes srel: "store_rel s a0" and linked: "all_linked a0" and rel: "batch_rel s a0 (b, st) a"
    and spec: "spec_apply c a = (Inr (), a')" and step: "batch_step_ok a0 c a" and ok: "store_ok a'"
  shows "\<exists>bst. apply_into_batch s c (b, st) = Inr bst \<and> batch_rel s a0 bst a'"
proof (cases c)
  case (CreateNode x labels props)
  then show ?thesis using batch_create_node [OF rel, of x labels props] spec ok by (auto split: if_splits)
next
  case (CreateRelationship r x y ty props)
  then have a': "ag_rels a r = None" "a' = add_rel (new_relationship r x y ty props) a"
    using spec by (auto simp: add_rel_def new_relationship_def split: if_splits)
  show ?thesis
    using batch_create_relationship [OF rel a'(1) _ _ refl] step ok
    by (simp add: CreateRelationship a'(2) batch_step_ok_def)
next
  case (UpsertBoundaryNode x owner labels props version)
  then show ?thesis using batch_upsert_boundary [OF rel refl] spec ok by auto
next
  case (AddNodeLabel x l)
  let ?f = "\<lambda>n. if l \<in> set (node_labels n) then n else n\<lparr>node_labels := node_labels n @ [l]\<rparr>"
  have "update_node_staged s x (\<lambda>n. \<not> list_ex (\<lambda>e. e = l) (node_labels n)) (\<lambda>n. n\<lparr>node_labels := node_labels n @ [l]\<rparr>) (b, st) =
      update_node_staged s x (\<lambda>n. \<not> list_ex (\<lambda>e. e = l) (node_labels n)) ?f (b, st)"
    by (simp add: update_node_staged_def batch_relD(3) [OF rel] list_ex_iff split: option.splits)
  then show ?thesis
    using batch_update_node [OF rel, of x _ ?f "\<lambda>n. \<not> list_ex (\<lambda>e. e = l) (node_labels n)"] spec ok AddNodeLabel
    by (cases "ag_nodes a x") (auto simp: update_node_def list_ex_iff)
next
  case (RemoveNodeLabel x l)
  then show ?thesis
    using batch_update_node [OF rel, of x _ "\<lambda>n. n\<lparr>node_labels := removeAll l (node_labels n)\<rparr>"
        "\<lambda>n. list_ex (\<lambda>e. e = l) (node_labels n)"] spec ok
    by (cases "ag_nodes a x") (auto simp: update_node_def list_ex_iff filter_neq_removeAll removeAll_id)
next
  case (SetNodeProperty x key v)
  then show ?thesis
    using batch_update_node [OF rel, of x _ "\<lambda>n. n\<lparr>node_properties := fmupd key v (node_properties n)\<rparr>" "\<lambda>_. True"] spec ok
    by (cases "ag_nodes a x") (auto simp: update_node_def)
next
  case (RemoveNodeProperty x key)
  then show ?thesis
    using batch_update_node [OF rel, of x _ "\<lambda>n. n\<lparr>node_properties := fmdrop key (node_properties n)\<rparr>" "\<lambda>_. True"] spec ok
    by (cases "ag_nodes a x") (auto simp: update_node_def)
next
  case (SetRelationshipProperty r key v)
  then show ?thesis
    using batch_update_relationship [OF rel, of r _ "fmupd key v"] spec ok by (cases "ag_rels a r") (auto simp: update_rel_def)
next
  case (RemoveRelationshipProperty r key)
  then show ?thesis
    using batch_update_relationship [OF rel, of r _ "fmdrop key"] spec ok by (cases "ag_rels a r") (auto simp: update_rel_def)
next
  case (DeleteRelationship r)
  then show ?thesis using batch_delete_relationship [OF rel, of r] spec by (cases "ag_rels a r") auto
next
  case (DeleteNode x)
  then show ?thesis using batch_delete_node [OF srel linked rel, of x] spec by (cases "ag_nodes a x") auto
next
  case (ClusterConfigChange phase description voters table)
  then show ?thesis using rel spec by simp
qed

lemma batch_rel_init: "store_rel s a \<Longrightarrow> all_linked a \<Longrightarrow> batch_rel s a (new_batch, new_staged) a"
  by (auto simp: batch_rel_def store_relD(1) new_staged_def staged_node_def staged_boundary_node_def
      staged_relationship_def gs_node_ok gs_boundary_node_ok gs_relationship_ok same_ends_def intro!: exI [of _ "[]"])

lemma apply_batch_run:
  assumes "spec_run a0 cs a a'" and "store_rel s a0" and "all_linked a0" and "batch_rel s a0 (b, st) a"
  shows "\<exists>b' st'. for_each cs (apply_into_batch s) (b, st) = Inr (b', st') \<and> batch_rel s a0 (b', st') a'"
  using assms
proof (induction arbitrary: b st rule: spec_run.induct)
  case (spec_run_cons c a a' cs a'')
  then obtain b1 st1 where "apply_into_batch s c (b, st) = Inr (b1, st1)" "batch_rel s a0 (b1, st1) a'"
    using apply_into_batch_rel by (metis prod.exhaust)
  then show ?case using spec_run_cons by auto
qed simp

lemma gs_apply_batch_rel:
  assumes run: "spec_run a cs a a'" and rel: "store_rel s a" and linked: "all_linked a"
  shows "fst (gs_apply_batch cs s) = Inr () \<and> store_rel (snd (gs_apply_batch cs s)) a'"
proof (cases "cs = []")
  case True
  then show ?thesis using run rel by (auto simp: gs_apply_batch_def elim: spec_run.cases)
next
  case False
  obtain b st where loop: "for_each cs (apply_into_batch s) (new_batch, new_staged) = Inr (b, st)"
    and brel: "batch_rel s a (b, st) a'"
    using apply_batch_run [OF run rel linked batch_rel_init [OF rel linked]] by blast
  obtain ops where "operations b = map enc_op ops" "\<forall>op\<in>set ops. wf_key (fst op)"
    "\<And>k. overlay ops (content a) k = content a' k" using brel by (auto simp: batch_rel_def)
  from gs_write_rel [OF rel batch_relD(1) [OF brel] this] show ?thesis
    using False loop by (simp add: gs_apply_batch_def gs_commit_def)
qed

lemma sequential_rel:
  "spec_run a0 cs a a' \<Longrightarrow> store_rel s a \<Longrightarrow> store_rel (fold (\<lambda>c s. snd (gs_apply c s)) cs s) a'"
proof (induction arbitrary: s rule: spec_run.induct)
  case (spec_run_cons c a a' cs a'')
  then show ?case using gs_apply_rel by fastforce
qed simp

lemma store_rel_subset:
  assumes "store_rel s a" and "store_rel s' a" and some: "fmlookup (kv_data (gs_kv s)) bs = Some v"
  shows "fmlookup (kv_data (gs_kv s')) bs = Some v"
proof -
  obtain k where "wf_key k" "bs = enc_key k" using store_relD(3) [OF assms(1) some] by blast
  then show ?thesis using some store_relD(2) [OF assms(1)] store_relD(2) [OF assms(2)] by simp
qed

lemma store_rel_unique:
  assumes "store_rel s a" and "store_rel s' a"
  shows "s = s'"
proof -
  have "fmlookup (kv_data (gs_kv s)) bs = fmlookup (kv_data (gs_kv s')) bs" for bs
  proof (cases "fmlookup (kv_data (gs_kv s)) bs")
    case None
    then show ?thesis
      using store_rel_subset [OF assms(2,1)] by (cases "fmlookup (kv_data (gs_kv s')) bs") auto
  next
    case (Some v)
    then show ?thesis using store_rel_subset [OF assms] by simp
  qed
  then have "kv_data (gs_kv s) = kv_data (gs_kv s')" by (rule fmap_ext)
  then show ?thesis by simp
qed

section \<open>Properties\<close>

text \<open>
  C11. A batch is the sequence of its commands. On a store whose relationships are all listed at their targets
  (\<open>all_linked\<close>, so that no relationship was created towards a boundary node), and for commands the graph accepts
  one after the other, with records that fit the encoding and each new relationship with a local target and an
  identifier the store does not have, \<open>apply_batch\<close> succeeds with one atomic write and leaves exactly the store that
  applying the commands one at a time leaves, every index key included.
\<close>

theorem apply_batch_is_sequential:
  assumes "store_rel s a" and "all_linked a" and "spec_run a cs a a'"
  shows "gs_apply_batch cs s = (Inr (), fold (\<lambda>c s. snd (gs_apply c s)) cs s)"
  using gs_apply_batch_rel [OF assms(3,1,2)] sequential_rel [OF assms(3,1)]
  by (intro prod_eqI) (auto intro: store_rel_unique)

lemma sample_spec_run: "spec_run empty_agraph [sample_create, DeleteNode 7] empty_agraph empty_agraph"
proof (rule spec_run_cons [OF sample_spec _ sample_store_ok spec_run_cons [OF _ _ _ spec_run_nil]])
  show "spec_apply (DeleteNode 7) sample_agraph = (Inr (), empty_agraph)"
    by (auto simp: sample_agraph_def empty_agraph_def ag_attached_def drop_rels_def)
qed (auto simp: batch_step_ok_def sample_create_def store_relD(1) [OF empty_store_rel])

theorem apply_batch_is_sequential_witness:
  "gs_apply_batch [sample_create, DeleteNode 7] (new_store new_memory_kv) = (Inr (), new_store new_memory_kv)"
proof -
  have "all_linked empty_agraph" by (simp add: all_linked_def empty_agraph_def)
  moreover have "fold (\<lambda>c s. snd (gs_apply c s)) [sample_create, DeleteNode 7] (new_store new_memory_kv) =
      new_store new_memory_kv"
    by (rule store_rel_unique [OF sequential_rel [OF sample_spec_run empty_store_rel] empty_store_rel])
  ultimately show ?thesis
    using apply_batch_is_sequential [OF empty_store_rel _ sample_spec_run] by simp
qed

end
