(* ===== verification/Store_Repair.thy ===== *)
theory Store_Repair
  imports Store_Batch
begin

text \<open>
  Index verification and repair of the persistent graph: \<open>verify_invariants\<close> and \<open>repair_indexes\<close> of
  \<open>graph_store.rs\<close>. A repair leaves the records alone and makes the next verification clean. A store
  that represents a graph exactly represents \<open>link_all\<close> of it afterwards, so that repair is not neutral for
  relationships created towards boundary nodes; nor is a batch, which deletes such a relationship where the
  commands one at a time keep it.
\<close>

section \<open>Index keys and record keys\<close>

definition index_key :: "bytes \<Rightarrow> bool" where
  "index_key k = list_ex (\<lambda>p. prefix p k) index_prefixes"

lemma index_keys [simp]:
  "index_key (label_key l x)" "index_key (label_property_key l pk v x)"
  "index_key (boundary_label_property_key l pk v x)"
  "index_key (outgoing_key x r)" "index_key (outgoing_type_key x ty r)"
  "index_key (incoming_key x r)" "index_key (incoming_type_key x ty r)"
  by (simp_all add: index_key_def index_prefixes_def label_key_def label_prefix_def label_property_key_def
      label_property_prefix_def boundary_label_property_key_def boundary_label_property_prefix_def
      outgoing_key_def outgoing_prefix_def outgoing_type_key_def outgoing_type_prefix_def incoming_key_def
      incoming_prefix_def incoming_type_key_def incoming_type_prefix_def key_prefix_with_id_def key_with_id_def as_bytes_def)

lemma record_keys:
  "prefix node_prefix k \<Longrightarrow> \<not> index_key k"
  "prefix boundary_node_prefix k \<Longrightarrow> \<not> index_key k"
  "prefix relationship_prefix k \<Longrightarrow> \<not> index_key k"
  by (auto simp: index_key_def index_prefixes_def node_prefix_def boundary_node_prefix_def
      relationship_prefix_def as_bytes_def prefix_def)

lemma node_key_record: "\<not> index_key (node_key x)"
  by (rule record_keys(1)) (simp add: node_key_def node_prefix_def key_with_id_def as_bytes_def)

section \<open>Stores that agree on some keys\<close>

lemma gs_scan_cong:
  assumes "\<And>k. prefix p k \<Longrightarrow> fmlookup (kv_data (gs_kv s)) k = fmlookup (kv_data (gs_kv s')) k"
  shows "gs_scan s p = gs_scan s' p"
proof -
  obtain xs ys where xs: "kv_scan_prefix (gs_kv s) p = Inr xs" "sorted (map fst xs)" "distinct (map fst xs)"
      "set xs = {(k, v). fmlookup (kv_data (gs_kv s)) k = Some v \<and> prefix p k}"
    and ys: "kv_scan_prefix (gs_kv s') p = Inr ys" "sorted (map fst ys)" "distinct (map fst ys)"
      "set ys = {(k, v). fmlookup (kv_data (gs_kv s')) k = Some v \<and> prefix p k}"
    using mem_kv.scan_law by blast
  have "set xs = set ys" unfolding xs(4) ys(4) using assms by auto
  moreover have "inj_on fst (set xs \<union> set ys)"
    using xs(3) \<open>set xs = set ys\<close> by (simp add: distinct_map)
  ultimately have "xs = ys" using map_sorted_distinct_set_unique xs(2,3) ys(2,3) by blast
  then show ?thesis by (simp add: gs_scan_def xs(1) ys(1))
qed

lemma actual_index_keys_eq:
  "\<exists>keys. actual_index_keys s = Inr keys \<and>
     (\<forall>k. k |\<in>| keys \<longleftrightarrow> index_key k \<and> fmlookup (kv_data (gs_kv s)) k \<noteq> None)"
proof -
  define found where "found p = fset_of_list (map fst (filter (\<lambda>(key, _). prefix p key) (hm_iter (kv_data (gs_kv s)))))" for p
  have found: "k |\<in>| found p \<longleftrightarrow> prefix p k \<and> fmlookup (kv_data (gs_kv s)) k \<noteq> None" for k p
    unfolding found_def fset_of_list_elem by (auto simp: set_hm_iter image_iff)
  have "k |\<in>| fold (\<lambda>p keys. keys |\<union>| found p) ps keys \<longleftrightarrow>
      k |\<in>| keys \<or> (\<exists>p\<in>set ps. prefix p k) \<and> fmlookup (kv_data (gs_kv s)) k \<noteq> None" for k ps keys
    by (induction ps arbitrary: keys) (auto simp: found)
  moreover have "actual_index_keys s = Inr (fold (\<lambda>p keys. keys |\<union>| found p) index_prefixes {||})"
    unfolding actual_index_keys_def
    by (rule for_each_Inr) (simp add: gs_scan_def kv_scan_prefix_filter found_def)
  ultimately show ?thesis by (auto simp: index_key_def list_ex_iff)
qed

section \<open>Expected keys\<close>

lemma expected_index_keys_cong:
  assumes "\<And>k. \<not> index_key k \<Longrightarrow> fmlookup (kv_data (gs_kv s)) k = fmlookup (kv_data (gs_kv s')) k"
  shows "gs_nodes s = gs_nodes s'" and "gs_boundary_nodes s = gs_boundary_nodes s'"
    and "gs_relationships s = gs_relationships s'" and "expected_index_keys s = expected_index_keys s'"
proof -
  show nodes: "gs_nodes s = gs_nodes s'" "gs_boundary_nodes s = gs_boundary_nodes s'"
      "gs_relationships s = gs_relationships s'"
    using gs_scan_cong [of node_prefix s s'] gs_scan_cong [of boundary_node_prefix s s']
      gs_scan_cong [of relationship_prefix s s'] assms record_keys
    by (simp_all add: gs_nodes_def gs_boundary_nodes_def gs_relationships_def)
  have "gs_node s x = gs_node s' x" for x
    using assms [OF node_key_record] by (simp add: gs_node_def kv_get_def)
  then have "expected_relationship_index_keys s = expected_relationship_index_keys s'"
    by (simp add: fun_eq_iff expected_relationship_index_keys_def)
  then show "expected_index_keys s = expected_index_keys s'"
    by (simp add: expected_index_keys_def nodes)
qed

definition index_only :: "bytes fset \<Rightarrow> bool" where
  "index_only keys \<longleftrightarrow> (\<forall>k. k |\<in>| keys \<longrightarrow> index_key k)"

lemma index_only_simps [simp]: "index_only {||}" "index_only (finsert k keys) \<longleftrightarrow> index_key k \<and> index_only keys"
  by (auto simp: index_only_def)

lemma fold_index_only: "(\<And>x keys. index_only keys \<Longrightarrow> index_only (f x keys)) \<Longrightarrow> index_only keys \<Longrightarrow> index_only (fold f xs keys)"
  by (induction xs arbitrary: keys) auto

lemma for_each_index_only:
  "(\<And>x keys keys'. index_only keys \<Longrightarrow> f x keys = Inr keys' \<Longrightarrow> index_only keys') \<Longrightarrow> index_only keys \<Longrightarrow>
    for_each xs f keys = Inr keys' \<Longrightarrow> index_only keys'"
  by (induction xs arbitrary: keys) (auto simp: rbind_Inr_iff)

lemma expected_index_only:
  assumes "expected_index_keys s = Inr keys"
  shows "index_only keys"
proof -
  have node: "index_only (expected_node_index_keys n keys)" if "index_only keys" for n keys
    unfolding expected_node_index_keys_def using that by (intro fold_index_only) auto
  have boundary: "index_only (expected_boundary_node_index_keys n keys)" if "index_only keys" for n keys
    unfolding expected_boundary_node_index_keys_def using that by (intro fold_index_only) auto
  have rel: "index_only keys'" if "index_only keys" "expected_relationship_index_keys s r keys = Inr keys'" for r keys keys'
    using that by (auto simp: expected_relationship_index_keys_def Let_def rbind_Inr_iff split: if_splits)
  obtain ns bs rs where keys: "for_each rs (expected_relationship_index_keys s)
      (fold expected_boundary_node_index_keys bs (fold expected_node_index_keys ns {||})) = Inr keys"
    using assms by (auto simp: expected_index_keys_def rbind_Inr_iff)
  have "index_only (fold expected_boundary_node_index_keys bs (fold expected_node_index_keys ns {||}))"
    by (intro fold_index_only boundary node) simp_all
  from for_each_index_only [OF _ this keys] rel show ?thesis by blast
qed

section \<open>The repair batch\<close>

lemma operations_repair_batch:
  "operations (repair_batch actual expected) =
     map KvDelete (sorted_list_of_fset actual) @ map (\<lambda>k. KvPut k []) (sorted_list_of_fset expected)"
proof -
  have "operations (fold batch_delete ks b) = operations b @ map KvDelete ks" for ks b
    by (induction ks arbitrary: b) (auto simp: batch_delete_def)
  moreover have "operations (fold (\<lambda>key b. batch_put key [] b) ks b) = operations b @ map (\<lambda>k. KvPut k []) ks" for ks b
    by (induction ks arbitrary: b) (auto simp: batch_put_def)
  ultimately show ?thesis by (simp add: repair_batch_def new_batch_def)
qed

lemma last_write_append: "last_write (xs @ ys) k = (case last_write ys k of None \<Rightarrow> last_write xs k | Some v \<Rightarrow> Some v)"
  by (induction xs) (auto split: option.splits)

lemma last_write_deletes: "last_write (map KvDelete ks) k = (if k \<in> set ks then Some None else None)"
  by (induction ks) auto

lemma last_write_puts: "last_write (map (\<lambda>k. KvPut k []) ks) k = (if k \<in> set ks then Some (Some []) else None)"
  by (induction ks) auto

lemma lookup_repaired:
  "fmlookup (kv_apply_writes (operations (repair_batch actual expected)) d) k =
     (if k |\<in>| expected then Some [] else if k |\<in>| actual then None else fmlookup d k)"
  by (simp add: fmlookup_apply_writes operations_repair_batch last_write_append last_write_deletes
      last_write_puts sorted_list_of_fset.rep_eq)

lemma repair_lookup:
  assumes "verify_invariants s = Inr report" and "\<not> is_clean report" and "expected_index_keys s = Inr expected"
    and "actual_index_keys s = Inr actual"
  shows "fst (repair_indexes s) = Inr report"
    and "fmlookup (kv_data (gs_kv (snd (repair_indexes s)))) k =
      (if k |\<in>| expected then Some [] else if k |\<in>| actual then None else fmlookup (kv_data (gs_kv s)) k)"
  using assms by (simp_all add: repair_indexes_def gs_commit_def gs_write_def kv_write_batch_def lookup_repaired)

section \<open>Repairing a store that represents a graph\<close>

fun index_skey :: "skey \<Rightarrow> bool" where
  "index_skey (SNode x) = False"
| "index_skey (SBoundary x) = False"
| "index_skey (SRel r) = False"
| "index_skey _ = True"

lemma index_key_enc: "index_key (enc_key k) = index_skey k"
  using record_keys(1) [of "enc_key k"] record_keys(2) [of "enc_key k"] record_keys(3) [of "enc_key k"]
    node_family.enc_fam boundary_family.enc_fam relationship_family.enc_fam
  by (cases k) auto

text \<open>The records of a store that represents a graph.\<close>

lemma records_ok:
  assumes rel: "store_rel s a"
  shows "\<exists>ns. gs_nodes s = Inr ns \<and> set ns = ran (ag_nodes a)"
    and "\<exists>bs. gs_boundary_nodes s = Inr bs \<and> set bs = ran (ag_boundary a)"
    and "\<exists>rs. gs_relationships s = Inr rs \<and> set rs = ran (ag_rels a)"
proof -
  have fam: "\<exists>vs. rbind (gs_scan s p) (\<lambda>es. lift_err (collect_results (map (\<lambda>(_, value). dec value) es))) = Inr vs \<and> set vs = ran m"
    if "key_family p fm" and "\<And>x. content a (fm x) = map_option enc (m x)" and "\<And>x v. m x = Some v \<Longrightarrow> dec (enc v) = Inr v"
    for p fm and enc :: "'a \<Rightarrow> bytes" and m and dec :: "bytes \<Rightarrow> storage_error + 'a"
  proof -
    have mem: "key_family.members fm a = dom m" using key_family.members_def [OF that(1)] that(2) by auto
    have fin: "finite (dom m)" using key_family.finite_members [OF that(1) rel] by (simp add: mem)
    have "rbind (gs_scan s p) (\<lambda>es. lift_err (collect_results (map (\<lambda>(_, value). dec value) es))) =
        Inr (map (\<lambda>x. the (m x)) (sorted_list_of_set (dom m)))"
      unfolding key_family.scan_family [OF that(1) rel] mem rbind.simps map_map
      by (subst collect_results_map_Inr [where f = "\<lambda>x. the (m x)"]) (use that(2,3) fin in auto)
    moreover have "set (map (\<lambda>x. the (m x)) (sorted_list_of_set (dom m))) = ran m"
      using fin by (auto simp: ran_def image_iff) force
    ultimately show ?thesis by blast
  qed
  have ok: "store_ok a" using store_relD(1) [OF rel] .
  show "\<exists>ns. gs_nodes s = Inr ns \<and> set ns = ran (ag_nodes a)"
    unfolding gs_nodes_def
    by (rule fam [OF node_family.key_family_axioms, of "\<lambda>n. encode_command (node_record n)"])
      (use store_okD(1) [OF ok] in \<open>auto simp: decode_records\<close>)
  show "\<exists>bs. gs_boundary_nodes s = Inr bs \<and> set bs = ran (ag_boundary a)"
    unfolding gs_boundary_nodes_def
    by (rule fam [OF boundary_family.key_family_axioms, of "\<lambda>b. encode_command (boundary_record b)"])
      (use store_okD(2) [OF ok] in \<open>auto simp: decode_records\<close>)
  show "\<exists>rs. gs_relationships s = Inr rs \<and> set rs = ran (ag_rels a)"
    unfolding gs_relationships_def
    by (rule fam [OF relationship_family.key_family_axioms, of "\<lambda>r. encode_command (relationship_record r)"])
      (use store_okD(3) [OF ok] in \<open>auto simp: decode_records\<close>)
qed

lemma fset_fold: "(\<And>x K. fset (f x K) = fset K \<union> g x) \<Longrightarrow> fset (fold f xs K) = fset K \<union> \<Union> (g ` set xs)"
  by (induction xs arbitrary: K) auto

lemma fset_fold_finsert: "fset (fold (\<lambda>p. finsert (g p)) ps K) = fset K \<union> g ` set ps"
  by (induction ps arbitrary: K) auto

lemma fset_expected_node:
  "fset (expected_node_index_keys n K) = fset K \<union> enc_key ` set (node_keys (node_id n) (node_labels n) (node_properties n))"
  unfolding expected_node_index_keys_def
  by (subst fset_fold [where g = "\<lambda>l. insert (label_key l (node_id n))
        ((\<lambda>(pk, pv). label_property_key l pk pv (node_id n)) ` set (hm_iter (node_properties n)))"])
    (simp_all add: fset_fold_finsert node_keys_def image_UN image_image case_prod_unfold)

lemma fset_expected_boundary:
  "fset (expected_boundary_node_index_keys n K) = fset K \<union> enc_key ` set (boundary_keys (bn_id n) (bn_labels n) (bn_properties n))"
  unfolding expected_boundary_node_index_keys_def
  by (subst fset_fold [where g = "\<lambda>l. (\<lambda>(pk, pv). boundary_label_property_key l pk pv (bn_id n)) ` set (hm_iter (bn_properties n))"])
    (simp_all add: fset_fold_finsert boundary_keys_def image_UN image_image case_prod_unfold)

definition rel_index_keys :: "agraph \<Rightarrow> relationship_id \<Rightarrow> relationship \<Rightarrow> skey set" where
  "rel_index_keys a r q = {SOut (rel_from q) r, SOutT (rel_from q) (rel_type q) r} \<union>
     (if ag_nodes a (rel_to q) \<noteq> None then {SIn (rel_to q) r, SInT (rel_to q) (rel_type q) r} else {})"

lemma expected_rel:
  assumes "store_rel s a"
  shows "\<exists>K'. expected_relationship_index_keys s q K = Inr K' \<and> fset K' = fset K \<union> enc_key ` rel_index_keys a (rel_id q) q"
  by (cases "ag_nodes a (rel_to q)") (auto simp: expected_relationship_index_keys_def gs_node_ok [OF assms] rel_index_keys_def)

lemma expected_rels:
  assumes "store_rel s a"
  shows "\<exists>K'. for_each rs (expected_relationship_index_keys s) K = Inr K' \<and>
    fset K' = fset K \<union> \<Union> ((\<lambda>q. enc_key ` rel_index_keys a (rel_id q) q) ` set rs)"
proof (induction rs arbitrary: K)
  case (Cons r rs)
  obtain K1 where "expected_relationship_index_keys s r K = Inr K1" "fset K1 = fset K \<union> enc_key ` rel_index_keys a (rel_id r) r"
    using expected_rel [OF assms] by blast
  then show ?case using Cons.IH [of K1] by auto
qed simp

text \<open>The index keys of a graph, record by record.\<close>

lemma mem_keys:
  "k \<in> set (node_keys x ls ps) \<longleftrightarrow>
     (case k of SLabel l y \<Rightarrow> y = x \<and> l \<in> set ls | SLP l pk v y \<Rightarrow> y = x \<and> l \<in> set ls \<and> fmlookup ps pk = Some v | _ \<Rightarrow> False)"
  "k \<in> set (boundary_keys x ls ps) \<longleftrightarrow>
     (case k of SBLP l pk v y \<Rightarrow> y = x \<and> l \<in> set ls \<and> fmlookup ps pk = Some v | _ \<Rightarrow> False)"
  "k \<in> rel_index_keys a r q \<longleftrightarrow>
     (case k of SOut n i \<Rightarrow> i = r \<and> n = rel_from q | SOutT n ty i \<Rightarrow> i = r \<and> n = rel_from q \<and> ty = rel_type q
      | SIn n i \<Rightarrow> i = r \<and> n = rel_to q \<and> ag_nodes a n \<noteq> None
      | SInT n ty i \<Rightarrow> i = r \<and> n = rel_to q \<and> ty = rel_type q \<and> ag_nodes a n \<noteq> None | _ \<Rightarrow> False)"
  by (cases k; auto simp: set_node_keys set_boundary_keys rel_index_keys_def)+

lemma UN_ran:
  assumes "\<And>x v. m x = Some v \<Longrightarrow> i v = x"
  shows "k \<in> \<Union> ((\<lambda>v. F (i v) v) ` ran m) \<longleftrightarrow> (\<exists>x v. m x = Some v \<and> k \<in> F x v)"
  unfolding ran_def using assms by (safe, metis, blast)

lemma index_content:
  assumes "store_ok a"
  shows "{k. index_skey k \<and> content (link_all a) k \<noteq> None} =
    \<Union> ((\<lambda>n. set (node_keys (node_id n) (node_labels n) (node_properties n))) ` ran (ag_nodes a)) \<union>
    \<Union> ((\<lambda>b. set (boundary_keys (bn_id b) (bn_labels b) (bn_properties b))) ` ran (ag_boundary a)) \<union>
    \<Union> ((\<lambda>q. rel_index_keys a (rel_id q) q) ` ran (ag_rels a))" (is "?L = ?N \<union> ?B \<union> ?R")
proof -
  have N: "k \<in> ?N \<longleftrightarrow> (\<exists>x n. ag_nodes a x = Some n \<and> k \<in> set (node_keys x (node_labels n) (node_properties n)))" for k
    by (rule UN_ran) (use store_okD(1) [OF assms] in blast)
  have B: "k \<in> ?B \<longleftrightarrow> (\<exists>x b. ag_boundary a x = Some b \<and> k \<in> set (boundary_keys x (bn_labels b) (bn_properties b)))" for k
    by (rule UN_ran) (use store_okD(2) [OF assms] in blast)
  have R: "k \<in> ?R \<longleftrightarrow> (\<exists>x q. ag_rels a x = Some q \<and> k \<in> rel_index_keys a x q)" for k
    by (rule UN_ran) (use store_okD(3) [OF assms] in blast)
  have "k \<in> ?L \<longleftrightarrow> k \<in> ?N \<or> k \<in> ?B \<or> k \<in> ?R" for k
    unfolding N B R mem_keys by (cases k) (auto simp: link_all_def)
  then show ?thesis by (intro set_eqI) (simp only: Un_iff disj_assoc)
qed

lemma expected_index_keys_ok:
  assumes rel: "store_rel s a"
  shows "\<exists>K. expected_index_keys s = Inr K \<and> fset K = enc_key ` {k. index_skey k \<and> content (link_all a) k \<noteq> None}"
proof -
  obtain ns bs rs where r: "gs_nodes s = Inr ns" "set ns = ran (ag_nodes a)" "gs_boundary_nodes s = Inr bs"
      "set bs = ran (ag_boundary a)" "gs_relationships s = Inr rs" "set rs = ran (ag_rels a)"
    using records_ok [OF rel] by blast
  let ?B = "fold expected_boundary_node_index_keys bs (fold expected_node_index_keys ns {||})"
  obtain K where K: "for_each rs (expected_relationship_index_keys s) ?B = Inr K"
      "fset K = fset ?B \<union> \<Union> ((\<lambda>q. enc_key ` rel_index_keys a (rel_id q) q) ` set rs)"
    using expected_rels [OF rel] by blast
  have "fset ?B = enc_key ` \<Union> ((\<lambda>n. set (node_keys (node_id n) (node_labels n) (node_properties n))) ` set ns) \<union>
      enc_key ` \<Union> ((\<lambda>b. set (boundary_keys (bn_id b) (bn_labels b) (bn_properties b))) ` set bs)"
    by (simp add: fset_fold [OF fset_expected_boundary] fset_fold [OF fset_expected_node] image_UN)
  with K(2) have "fset K = enc_key ` {k. index_skey k \<and> content (link_all a) k \<noteq> None}"
    unfolding index_content [OF store_relD(1) [OF rel]] r(2,4,6) by (simp add: image_Un image_UN)
  then show ?thesis using r K(1) by (simp add: expected_index_keys_def Let_def)
qed

lemma content_wf:
  assumes ok: "store_ok a" and some: "content a k \<noteq> None"
  shows "wf_key k"
proof -
  have n: "j \<in> set (node_keys x (node_labels n) (node_properties n)) \<Longrightarrow> wf_key j" if "ag_nodes a x = Some n" for x n j
    using store_okD(1) [OF ok that] node_keys_wf by blast
  have b: "j \<in> set (boundary_keys x (bn_labels b) (bn_properties b)) \<Longrightarrow> wf_key j" if "ag_boundary a x = Some b" for x b j
    using store_okD(2) [OF ok that] boundary_keys_wf by blast
  have r: "j \<in> set (rel_keys q r) \<Longrightarrow> wf_key j" if "ag_rels a r = Some q" for r q j
    using store_okD(3) [OF ok that] rel_keys_wf by blast
  show ?thesis
    using some by (cases k) (auto dest: n [of _ _ k] b [of _ _ k] r [of _ _ k] simp: mem_keys rel_keys_def)
qed

lemma actual_index_keys_ok:
  assumes rel: "store_rel s a"
  shows "\<exists>K. actual_index_keys s = Inr K \<and> fset K = enc_key ` {k. index_skey k \<and> content a k \<noteq> None}"
proof -
  obtain K where K: "actual_index_keys s = Inr K"
      "\<And>k. k |\<in>| K \<longleftrightarrow> index_key k \<and> fmlookup (kv_data (gs_kv s)) k \<noteq> None"
    using actual_index_keys_eq by blast
  have "k |\<in>| K \<longleftrightarrow> k \<in> enc_key ` {k. index_skey k \<and> content a k \<noteq> None}" for k
  proof
    assume "k |\<in>| K"
    then obtain v where v: "index_key k" "fmlookup (kv_data (gs_kv s)) k = Some v" by (auto simp: K(2))
    then obtain j where "wf_key j" "k = enc_key j" using store_relD(3) [OF rel] by blast
    then show "k \<in> enc_key ` {k. index_skey k \<and> content a k \<noteq> None}"
      using v store_relD(2) [OF rel, of j] by (auto simp: index_key_enc)
  next
    assume "k \<in> enc_key ` {k. index_skey k \<and> content a k \<noteq> None}"
    then obtain j where "index_skey j" "content a j \<noteq> None" "k = enc_key j" by auto
    then show "k |\<in>| K"
      using content_wf [OF store_relD(1) [OF rel], of j] store_relD(2) [OF rel, of j] by (simp add: K(2) index_key_enc)
  qed
  then show ?thesis using K(1) by (intro exI [of _ K]) auto
qed

lemma store_ok_link_all: "store_ok a \<Longrightarrow> store_ok (link_all a)"
  by (auto simp: store_ok_def link_all_def)

lemma content_link_all_records: "\<not> index_skey k \<Longrightarrow> content (link_all a) k = content a k"
  by (cases k) (simp_all add: link_all_def)

lemma index_content_mark: "index_skey k \<Longrightarrow> content a k \<noteq> None \<Longrightarrow> content a k = Some []"
  by (cases k) (auto simp: mark_def split: if_splits)

text \<open>The index keys determine which relationships are listed at their targets.\<close>

lemma link_all_same:
  assumes "store_ok a"
  shows "link_all a = a \<longleftrightarrow> {k. index_skey k \<and> content (link_all a) k \<noteq> None} = {k. index_skey k \<and> content a k \<noteq> None}"
proof
  assume same: "{k. index_skey k \<and> content (link_all a) k \<noteq> None} = {k. index_skey k \<and> content a k \<noteq> None}"
  have "r \<in> ag_linked (link_all a) \<longleftrightarrow> r \<in> ag_linked a" for r
  proof (cases "ag_rels a r")
    case None
    then show ?thesis
      using store_okD(4) [OF assms] store_okD(4) [OF store_ok_link_all [OF assms]] by (auto simp: link_all_def)
  next
    case (Some q)
    have "content (link_all a) (SIn (rel_to q) r) \<noteq> None \<longleftrightarrow> content a (SIn (rel_to q) r) \<noteq> None"
      using same by (auto simp: set_eq_iff simp del: content.simps)
    then show ?thesis using Some by (simp add: link_all_def)
  qed
  then have "ag_linked (link_all a) = ag_linked a" by blast
  then show "link_all a = a" by (simp add: link_all_def)
qed simp

lemma repair_rel:
  assumes rel: "store_rel s a"
  shows "\<exists>report. fst (repair_indexes s) = Inr report \<and> (is_clean report \<longleftrightarrow> link_all a = a) \<and>
    store_rel (snd (repair_indexes s)) (link_all a)"
proof -
  let ?E = "{k. index_skey k \<and> content (link_all a) k \<noteq> None}" and ?A = "{k. index_skey k \<and> content a k \<noteq> None}"
  note ok = store_relD(1) [OF rel]
  note ok' = store_ok_link_all [OF ok]
  obtain E where E: "expected_index_keys s = Inr E" "fset E = enc_key ` ?E" using expected_index_keys_ok [OF rel] by blast
  obtain A where A: "actual_index_keys s = Inr A" "fset A = enc_key ` ?A" using actual_index_keys_ok [OF rel] by blast
  have mem: "enc_key k |\<in>| E \<longleftrightarrow> k \<in> ?E" "enc_key k |\<in>| A \<longleftrightarrow> k \<in> ?A" if "wf_key k" for k
    using that enc_key_inject [OF that] content_wf [OF ok] content_wf [OF ok'] unfolding E(2) A(2) by blast+
  define report where "report = \<lparr>missing_index_keys = sorted_list_of_fset (E |-| A), unexpected_index_keys = sorted_list_of_fset (A |-| E)\<rparr>"
  have verify: "verify_invariants s = Inr report" by (simp add: verify_invariants_def E(1) A(1) report_def)
  have "is_clean report \<longleftrightarrow> E = A"
    by (auto simp: report_def is_clean_def sorted_list_of_fset.rep_eq)
  also have "\<dots> \<longleftrightarrow> ?E = ?A"
    using mem content_wf [OF ok] content_wf [OF ok'] E(2) A(2) by (metis (no_types, lifting) fset_inject mem_Collect_eq subsetI subset_antisym)
  finally have clean: "is_clean report \<longleftrightarrow> link_all a = a" using link_all_same [OF ok] by simp
  show ?thesis
  proof (cases "is_clean report")
    case True
    then show ?thesis using clean rel verify by (simp add: repair_indexes_def)
  next
    case False
    note l = repair_lookup [OF verify False E(1) A(1)]
    have "fmlookup (kv_data (gs_kv (snd (repair_indexes s)))) (enc_key k) = content (link_all a) k" if "wf_key k" for k
      using mem [OF that] store_relD(2) [OF rel that] index_content_mark [of k "link_all a"] content_link_all_records [of k a]
      by (auto simp: l(2))
    moreover have "\<exists>k. wf_key k \<and> bs = enc_key k" if "bs |\<in>| fmdom (kv_data (gs_kv (snd (repair_indexes s))))" for bs
    proof (cases "bs |\<in>| E")
      case True
      then show ?thesis using content_wf [OF ok'] E(2) by auto
    next
      case False
      then have "fmlookup (kv_data (gs_kv s)) bs \<noteq> None" using that l(2) [of bs] by (auto simp: fmlookup_dom_iff split: if_splits)
      then show ?thesis using store_relD(3) [OF rel] by blast
    qed
    ultimately have "store_rel (snd (repair_indexes s)) (link_all a)" using ok' unfolding store_rel_def by blast
    then show ?thesis using l(1) clean by blast
  qed
qed

section \<open>A relationship to a boundary node in a batch\<close>

lemma enc_deletes: "map enc_op (deletes ks) = map KvDelete (map enc_key ks)"
  by (simp add: deletes_def enc_op_def)

text \<open>Deleting staged relationships only adds deletions to the batch, among them the key of each one that exists.\<close>

lemma staged_deletions:
  assumes "\<And>x. \<exists>res. staged_relationship s st x = Inr res"
  shows "\<exists>b' st' ks. for_each ids (delete_relationship_staged_into_batch s) (b, st) = Inr (b', st') \<and>
    operations b' = operations b @ map KvDelete ks \<and>
    (r \<in> set ids \<longrightarrow> staged_relationship s st r = Inr (Some q) \<longrightarrow> relationship_key r \<in> set ks)"
  using assms
proof (induction ids arbitrary: b st)
  case (Cons x ids)
  obtain rel where x: "staged_relationship s st x = Inr rel" using Cons.prems by blast
  define bst where "bst = (case rel of None \<Rightarrow> (b, st) | Some rel \<Rightarrow> (delete_keys_into_batch rel x b, stage_relationship x None st))"
  obtain b1 st1 where bst: "bst = (b1, st1)" by fastforce
  have step: "delete_relationship_staged_into_batch s x (b, st) = Inr (b1, st1)"
    using x bst by (simp add: delete_relationship_staged_into_batch_def bst_def)
  have ops: "\<exists>js. operations b1 = operations b @ map KvDelete js \<and> (rel \<noteq> None \<longrightarrow> relationship_key x \<in> set js)"
  proof (cases rel)
    case (Some p)
    have "operations b1 = operations b @ map KvDelete (map enc_key (rel_keys p x))"
      using bst Some by (auto simp: bst_def operations_delete_keys enc_deletes simp del: map_map)
    then show ?thesis by (intro exI [of _ "map enc_key (rel_keys p x)"]) (simp add: rel_keys_def)
  qed (use bst in \<open>simp add: bst_def\<close>)
  have other: "staged_relationship s st1 y = (if y = x \<and> rel \<noteq> None then Inr None else staged_relationship s st y)" for y
    using bst x by (cases rel) (auto simp: bst_def)
  then have "\<exists>res. staged_relationship s st1 y = Inr res" for y using Cons.prems by simp
  from Cons.IH [OF this, of b1] obtain b' st' ks where IH: "for_each ids (delete_relationship_staged_into_batch s) (b1, st1) = Inr (b', st')"
      "operations b' = operations b1 @ map KvDelete ks"
      "r \<in> set ids \<longrightarrow> staged_relationship s st1 r = Inr (Some q) \<longrightarrow> relationship_key r \<in> set ks" by blast
  obtain js where js: "operations b1 = operations b @ map KvDelete js" "rel \<noteq> None \<longrightarrow> relationship_key x \<in> set js"
    using ops by blast
  have "relationship_key r \<in> set (js @ ks)" if "r \<in> set (x # ids)" "staged_relationship s st r = Inr (Some q)"
    using that js(2) IH(3) x other [of r] by (cases "r = x") auto
  then show ?case using step IH(1,2) js(1) by (intro exI [of _ b'] exI [of _ st'] exI [of _ "js @ ks"]) simp
qed simp

lemma lookup_deleted: "k \<in> set ks \<Longrightarrow> fmlookup (kv_apply_writes (ops @ map KvDelete ks) d) k = None"
  by (simp add: fmlookup_apply_writes last_write_append last_write_deletes)

lemma batch_deletes_staged:
  assumes rel: "store_rel s a" and p: "ag_rels a r = Some p"
  shows "fst (gs_apply_batch [SetRelationshipProperty r key v, CreateNode (rel_to p) labels props, DeleteNode (rel_to p)] s) = Inr () \<and>
    gs_relationship (snd (gs_apply_batch [SetRelationshipProperty r key v, CreateNode (rel_to p) labels props,
      DeleteNode (rel_to p)] s)) r = Inr None"
proof -
  let ?t = "rel_to p"
  define q where "q = p\<lparr>rel_properties := fmupd key v (rel_properties p)\<rparr>"
  let ?n = "new_node ?t labels props"
  let ?st = "stage_node ?t (Some ?n) (stage_relationship r (Some q) new_staged)"
  let ?b = "index_node_into_batch ?t labels props (put_node_into_batch ?t labels props (create_relationship_value_into_batch q new_batch))"
  let ?outs = "sorted_list_of_set (key_family.members (SOut ?t) a)" and ?ins = "sorted_list_of_set (key_family.members (SIn ?t) a)"
  let ?ids = "dedup (sort (?outs @ ?ins @ staged_attached ?st ?t))"
  have new: "staged_relationship s new_staged x = Inr (ag_rels a x)" for x
    by (simp add: staged_relationship_def new_staged_def gs_relationship_ok [OF rel])
  then have "\<exists>res. staged_relationship s ?st x = Inr res" for x by simp
  from staged_deletions [OF this, of ?ids ?b r q] obtain b' st' ks
    where loop: "for_each ?ids (delete_relationship_staged_into_batch s) (?b, ?st) = Inr (b', st')"
      and ops: "operations b' = operations ?b @ map KvDelete ks"
      and r: "r \<in> set ?ids \<longrightarrow> staged_relationship s ?st r = Inr (Some q) \<longrightarrow> relationship_key r \<in> set ks" by blast
  have "r \<in> set (staged_attached ?st ?t)" by (simp add: set_staged_attached new_staged_def q_def)
  then have key: "relationship_key r \<in> set ks" using r by simp
  let ?final = "batch_delete (node_key ?t) (remove_node_indexes_into_batch ?n b')"
  have run: "gs_apply_batch [SetRelationshipProperty r key v, CreateNode ?t labels props, DeleteNode ?t] s = gs_write ?final s"
    using loop p by (simp add: gs_apply_batch_def update_relationship_staged_def new delete_node_staged_into_batch_def q_def Let_def
        outgoing_family.scan_ids [OF rel] incoming_family.scan_ids [OF rel] gs_commit_def)
  have "\<exists>ls. operations ?final = operations ?b @ map KvDelete (ks @ ls)"
    unfolding operations_batch operations_remove_node ops enc_deletes
    by (intro exI [of _ "map enc_key (node_keys (node_id ?n) (node_labels ?n) (node_properties ?n)) @ [node_key ?t]"]) simp
  then obtain ls where "operations ?final = operations ?b @ map KvDelete (ks @ ls)" by blast
  then have "fmlookup (kv_data (gs_kv (snd (gs_write ?final s)))) (relationship_key r) = None"
    using lookup_deleted [of "relationship_key r" "ks @ ls"] key by (simp add: gs_write_def kv_write_batch_def)
  then show ?thesis unfolding run by (simp add: gs_relationship_def kv_get_def optional_def gs_write_def kv_write_batch_def)
qed

section \<open>Properties\<close>

text \<open>
  C12. A repair repairs: on any store in memory whose records decode, whatever its index keys,
  \<open>repair_indexes\<close> returns the report of the damage, a verification afterwards finds nothing missing and
  nothing unexpected, and the nodes, boundary nodes and relationships are the ones before.
\<close>

theorem repair_indexes_clean:
  assumes verify: "verify_invariants s = Inr report"
  shows "fst (repair_indexes s) = Inr report \<and>
    (\<exists>after. verify_invariants (snd (repair_indexes s)) = Inr after \<and> is_clean after) \<and>
    gs_nodes (snd (repair_indexes s)) = gs_nodes s \<and>
    gs_boundary_nodes (snd (repair_indexes s)) = gs_boundary_nodes s \<and>
    gs_relationships (snd (repair_indexes s)) = gs_relationships s"
proof (cases "is_clean report")
  case True
  then show ?thesis using verify by (auto simp: repair_indexes_def)
next
  case False
  obtain expected where expected: "expected_index_keys s = Inr expected"
    using verify by (auto simp: verify_invariants_def rbind_Inr_iff)
  obtain actual where actual: "actual_index_keys s = Inr actual"
    "\<And>k. k |\<in>| actual \<longleftrightarrow> index_key k \<and> fmlookup (kv_data (gs_kv s)) k \<noteq> None"
    using actual_index_keys_eq by blast
  let ?s = "snd (repair_indexes s)"
  note lookup = repair_lookup(2) [OF verify False expected actual(1)]
  have index: "index_key k" if "k |\<in>| expected" for k
    using expected_index_only [OF expected] that by (simp add: index_only_def)
  have same: "fmlookup (kv_data (gs_kv ?s)) k = fmlookup (kv_data (gs_kv s)) k" if "\<not> index_key k" for k
    using that index actual(2) by (auto simp: lookup)
  obtain actual' where actual': "actual_index_keys ?s = Inr actual'"
    "\<And>k. k |\<in>| actual' \<longleftrightarrow> index_key k \<and> fmlookup (kv_data (gs_kv ?s)) k \<noteq> None"
    using actual_index_keys_eq by blast
  have "actual' = expected"
    using index actual(2) by (intro fset_eqI) (auto simp: actual'(2) lookup)
  then show ?thesis
    using expected_index_keys_cong [OF same] expected actual'(1)
      repair_lookup(1) [OF verify False expected actual(1)]
    by (simp add: verify_invariants_def is_clean_def sorted_list_of_fset.rep_eq)
qed

definition damaged_store :: kv_graph_store where
  "damaged_store =
     snd (gs_write (batch_put (label_key ''Town'' 7) [] (batch_delete (label_key ''City'' 7) new_batch))
       (snd (gs_apply (CreateNode 7 [''City''] fmempty) (new_store new_memory_kv))))"

theorem repair_indexes_clean_witness:
  "\<exists>after. verify_invariants (snd (repair_indexes damaged_store)) = Inr after \<and> is_clean after"
proof -
  have "verify_invariants damaged_store =
      Inr \<lparr>missing_index_keys = [label_key ''City'' 7], unexpected_index_keys = [label_key ''Town'' 7]\<rparr>" by code_simp
  from repair_indexes_clean [OF this] show ?thesis by blast
qed

text \<open>A store with a relationship to a boundary node, and the graph it represents.\<close>

definition boundary_agraph :: agraph where
  "boundary_agraph = \<lparr>ag_nodes = [1 \<mapsto> new_node 1 [] fmempty], ag_boundary = [2 \<mapsto> new_boundary_node 2 9 [] fmempty 1],
     ag_rels = [5 \<mapsto> new_relationship 5 1 2 ''T'' fmempty], ag_linked = {}\<rparr>"

definition boundary_history :: "command list" where
  "boundary_history = [CreateNode 1 [] fmempty, UpsertBoundaryNode 2 9 [] fmempty 1, CreateRelationship 5 1 2 ''T'' fmempty]"

definition boundary_store :: kv_graph_store where
  "boundary_store = fold (\<lambda>c s. snd (gs_apply c s)) boundary_history (new_store new_memory_kv)"

lemma boundary_records:
  "encodable (node_record (new_node 1 [] fmempty))" "encodable (node_record (new_node 2 [] fmempty))"
  "encodable (boundary_record (new_boundary_node 2 9 [] fmempty 1))"
  "encodable (relationship_record (new_relationship 5 1 2 ''T'' fmempty))"
  "encodable (relationship_record (new_relationship 5 1 2 ''T'' (fmupd ''k'' (V_Int 1) fmempty)))"
proof -
  have "wf_command (node_record (new_node 1 [] fmempty))" "length (encode_command (node_record (new_node 1 [] fmempty))) = 17"
    "wf_command (node_record (new_node 2 [] fmempty))" "length (encode_command (node_record (new_node 2 [] fmempty))) = 17"
    "wf_command (boundary_record (new_boundary_node 2 9 [] fmempty 1))"
    "length (encode_command (boundary_record (new_boundary_node 2 9 [] fmempty 1))) = 33"
    "wf_command (relationship_record (new_relationship 5 1 2 ''T'' fmempty))"
    "length (encode_command (relationship_record (new_relationship 5 1 2 ''T'' fmempty))) = 34"
    "wf_command (relationship_record (new_relationship 5 1 2 ''T'' (fmupd ''k'' (V_Int 1) fmempty)))"
    "length (encode_command (relationship_record (new_relationship 5 1 2 ''T'' (fmupd ''k'' (V_Int 1) fmempty)))) = 48"
    by code_simp+
  then show "encodable (node_record (new_node 1 [] fmempty))" "encodable (node_record (new_node 2 [] fmempty))"
    "encodable (boundary_record (new_boundary_node 2 9 [] fmempty 1))"
    "encodable (relationship_record (new_relationship 5 1 2 ''T'' fmempty))"
    "encodable (relationship_record (new_relationship 5 1 2 ''T'' (fmupd ''k'' (V_Int 1) fmempty)))"
    by (simp_all add: encodable_def)
qed

lemma boundary_store_ok:
  assumes "ag_nodes a \<subseteq>\<^sub>m [1 \<mapsto> new_node 1 [] fmempty, 2 \<mapsto> new_node 2 [] fmempty]"
    and "ag_boundary a \<subseteq>\<^sub>m [2 \<mapsto> new_boundary_node 2 9 [] fmempty 1]"
    and "ag_rels a \<subseteq>\<^sub>m [5 \<mapsto> new_relationship 5 1 2 ''T'' ps]" and "ps = fmempty \<or> ps = fmupd ''k'' (V_Int 1) fmempty" and "ag_linked a = {}"
  shows "store_ok a"
proof -
  have le: "m' x = Some y" if "m \<subseteq>\<^sub>m m'" "m x = Some y" for m m' :: "u64 \<Rightarrow> 'a option" and x y
    using that by (metis domI map_le_def)
  have m: "x = 1 \<and> n = new_node 1 [] fmempty \<or> x = 2 \<and> n = new_node 2 [] fmempty" if "ag_nodes a x = Some n" for x n
    using le [OF assms(1) that] by (simp split: if_splits)
  have b: "x = 2 \<and> b = new_boundary_node 2 9 [] fmempty 1" if "ag_boundary a x = Some b" for x b
    using le [OF assms(2) that] by (simp split: if_splits)
  have r: "x = 5 \<and> r = new_relationship 5 1 2 ''T'' ps" if "ag_rels a x = Some r" for x r
    using le [OF assms(3) that] by (simp split: if_splits)
  have n: "node_id (new_node x [] fmempty) = x" "node_properties (new_node x [] fmempty) = fmempty" for x
    by (simp_all add: new_node_def)
  have "rel_id (new_relationship 5 1 2 ''T'' ps) = 5" "encodable (relationship_record (new_relationship 5 1 2 ''T'' ps))"
    using assms(4) boundary_records(4,5) by (auto simp: new_relationship_def)
  moreover have "bn_id (new_boundary_node 2 9 [] fmempty 1) = 2" "bn_properties (new_boundary_node 2 9 [] fmempty 1) = fmempty"
    by (simp_all add: new_boundary_node_def)
  ultimately show ?thesis
    unfolding store_ok_def using boundary_records(1-3) assms(5) by (auto simp: key_values_fit_def n dest!: m b r)
qed

lemma boundary_store_rel: "store_rel boundary_store boundary_agraph"
proof -
  let ?a1 = "empty_agraph\<lparr>ag_nodes := [1 \<mapsto> new_node 1 [] fmempty]\<rparr>"
  let ?a2 = "?a1\<lparr>ag_boundary := [2 \<mapsto> new_boundary_node 2 9 [] fmempty 1]\<rparr>"
  have ok: "store_ok ?a1" "store_ok ?a2" "store_ok boundary_agraph"
    by (rule boundary_store_ok [of _ fmempty]; simp add: empty_agraph_def boundary_agraph_def map_le_def)+
  note 1 = gs_apply_rel [OF empty_store_rel _ ok(1), of "CreateNode 1 [] fmempty"]
  have s1: "store_rel (snd (gs_apply (CreateNode 1 [] fmempty) (new_store new_memory_kv))) ?a1" using 1 by (simp add: empty_agraph_def)
  have s2: "store_rel (snd (gs_apply (UpsertBoundaryNode 2 9 [] fmempty 1)
      (snd (gs_apply (CreateNode 1 [] fmempty) (new_store new_memory_kv))))) ?a2"
    using gs_apply_rel [OF s1 _ ok(2), of "UpsertBoundaryNode 2 9 [] fmempty 1"] by (simp add: empty_agraph_def)
  show ?thesis
    using gs_apply_rel [OF s2 _ ok(3), of "CreateRelationship 5 1 2 ''T'' fmempty"]
    by (simp add: boundary_store_def boundary_history_def boundary_agraph_def empty_agraph_def)
qed

lemma store_ok_both: "store_ok (a\<lparr>ag_rels := R\<rparr>) \<Longrightarrow> store_ok (a\<lparr>ag_nodes := N\<rparr>) \<Longrightarrow> store_ok (a\<lparr>ag_rels := R, ag_nodes := N\<rparr>)"
  by (simp add: store_ok_def)

lemma store_ok_without:
  assumes "store_ok a"
  shows "store_ok ((drop_rels R a)\<lparr>ag_nodes := (ag_nodes a)(x := None)\<rparr>)"
  using store_ok_drop_rels [OF assms, of R] assms by (simp add: store_ok_def drop_rels_def)

text \<open>
  C25. The condition that all relationships are listed at their targets is needed for the equivalence of batches. On
  any store with a relationship whose target is neither a local node nor its source and at which it is not listed,
  the batch that updates the relationship, creates the target as a local node and deletes it again, with records
  that fit the encoding, succeeds and deletes the relationship too: \<open>delete_node_staged_into_batch\<close> takes every
  staged relationship with that target. Applied one at a time, the same commands keep the relationship, updated.
\<close>

theorem apply_batch_deletes_boundary_relationship:
  assumes "store_rel s a" and "ag_rels a r = Some p" and "r \<notin> ag_linked a" and "ag_nodes a (rel_to p) = None"
    and "rel_from p \<noteq> rel_to p" and "store_ok (a\<lparr>ag_rels := (ag_rels a)(r \<mapsto> p\<lparr>rel_properties := fmupd key v (rel_properties p)\<rparr>)\<rparr>)"
    and "store_ok (a\<lparr>ag_nodes := (ag_nodes a)(rel_to p \<mapsto> new_node (rel_to p) labels props)\<rparr>)"
    and "cs = [SetRelationshipProperty r key v, CreateNode (rel_to p) labels props, DeleteNode (rel_to p)]"
  shows "fst (gs_apply_batch cs s) = Inr () \<and> gs_relationship (snd (gs_apply_batch cs s)) r = Inr None \<and>
    gs_relationship (fold (\<lambda>c s. snd (gs_apply c s)) cs s) r = Inr (Some (p\<lparr>rel_properties := fmupd key v (rel_properties p)\<rparr>))"
proof -
  let ?q = "p\<lparr>rel_properties := fmupd key v (rel_properties p)\<rparr>" and ?t = "rel_to p"
  let ?a1 = "a\<lparr>ag_rels := (ag_rels a)(r \<mapsto> ?q)\<rparr>"
  let ?a2 = "?a1\<lparr>ag_nodes := (ag_nodes a)(?t \<mapsto> new_node ?t labels props)\<rparr>"
  let ?a3 = "(drop_rels (ag_attached ?a2 ?t) ?a2)\<lparr>ag_nodes := (ag_nodes ?a2)(?t := None)\<rparr>"
  have ok2: "store_ok ?a2" by (rule store_ok_both [OF assms(6,7)])
  have ok3: "store_ok ?a3" by (rule store_ok_without [OF ok2])
  let ?s1 = "snd (gs_apply (SetRelationshipProperty r key v) s)"
  let ?s2 = "snd (gs_apply (CreateNode ?t labels props) ?s1)"
  have s1: "store_rel ?s1 ?a1"
    using gs_apply_rel [OF assms(1) _ assms(6), of "SetRelationshipProperty r key v"] assms(2) by (simp add: update_rel_def)
  have s2: "store_rel ?s2 ?a2" using gs_apply_rel [OF s1 _ ok2, of "CreateNode ?t labels props"] assms(4) by simp
  have "store_rel (snd (gs_apply (DeleteNode ?t) ?s2)) ?a3" using gs_apply_rel [OF s2 _ ok3, of "DeleteNode ?t"] by simp
  from gs_relationship_ok [OF this, of r]
  have "gs_relationship (fold (\<lambda>c s. snd (gs_apply c s)) cs s) r = Inr (Some ?q)"
    using assms(3,5) by (simp add: assms(8) drop_rels_def ag_attached_def)
  then show ?thesis using batch_deletes_staged [OF assms(1,2)] by (simp add: assms(8))
qed

theorem apply_batch_deletes_boundary_relationship_witness:
  "gs_relationship (snd (gs_apply_batch [SetRelationshipProperty 5 ''k'' (V_Int 1), CreateNode 2 [] fmempty, DeleteNode 2]
     boundary_store)) 5 = Inr None \<and>
   gs_relationship (fold (\<lambda>c s. snd (gs_apply c s)) [SetRelationshipProperty 5 ''k'' (V_Int 1), CreateNode 2 [] fmempty,
     DeleteNode 2] boundary_store) 5 = Inr (Some (new_relationship 5 1 2 ''T'' (fmupd ''k'' (V_Int 1) fmempty)))"
proof -
  let ?p = "new_relationship 5 1 2 ''T'' fmempty"
  have p: "ag_rels boundary_agraph 5 = Some ?p" "5 \<notin> ag_linked boundary_agraph" "ag_nodes boundary_agraph (rel_to ?p) = None"
    "rel_from ?p \<noteq> rel_to ?p" by (simp_all add: boundary_agraph_def new_relationship_def)
  have "store_ok (boundary_agraph\<lparr>ag_rels := (ag_rels boundary_agraph)(5 \<mapsto> ?p\<lparr>rel_properties := fmupd ''k'' (V_Int 1) (rel_properties ?p)\<rparr>)\<rparr>)"
    by (rule boundary_store_ok [of _ "fmupd ''k'' (V_Int 1) fmempty"]) (simp_all add: boundary_agraph_def map_le_def new_relationship_def)
  moreover have "store_ok (boundary_agraph\<lparr>ag_nodes := (ag_nodes boundary_agraph)(rel_to ?p \<mapsto> new_node (rel_to ?p) [] fmempty)\<rparr>)"
    by (rule boundary_store_ok [of _ fmempty]) (simp_all add: boundary_agraph_def map_le_def new_relationship_def)
  ultimately show ?thesis
    using apply_batch_deletes_boundary_relationship [OF boundary_store_rel p _ _ refl] by (simp add: new_relationship_def)
qed

text \<open>
  C26. What verification and repair do to an undamaged store. On a store that represents a graph exactly,
  \<open>verify_invariants\<close> reports no damage if and only if every relationship whose target is a local node is listed at
  it; a relationship created while its target was a boundary node is not, and counts as damage. \<open>repair_indexes\<close>
  then changes what the store stands for: afterwards it represents the graph in which all of them are listed, so
  that nodes gain incoming relationships which the graph in memory does not give them.
\<close>

theorem repair_indexes_links_targets:
  assumes "store_rel s a"
  shows "\<exists>report. fst (repair_indexes s) = Inr report \<and> (is_clean report \<longleftrightarrow> link_all a = a) \<and>
    store_rel (snd (repair_indexes s)) (link_all a)"
  using assms by (rule repair_rel)

definition relocated_store :: kv_graph_store where
  "relocated_store = snd (gs_apply (CreateNode 2 [] fmempty) boundary_store)"

definition relocated_agraph :: agraph where
  "relocated_agraph = boundary_agraph\<lparr>ag_nodes := (ag_nodes boundary_agraph)(2 \<mapsto> new_node 2 [] fmempty)\<rparr>"

lemma relocated_store_rel: "store_rel relocated_store relocated_agraph"
proof -
  have "store_ok relocated_agraph"
    by (rule boundary_store_ok [of _ fmempty]) (simp_all add: relocated_agraph_def boundary_agraph_def map_le_def)
  from gs_apply_rel [OF boundary_store_rel _ this, of "CreateNode 2 [] fmempty"] show ?thesis
    by (simp add: relocated_store_def relocated_agraph_def boundary_agraph_def)
qed

theorem repair_indexes_links_targets_witness:
  "\<exists>report. fst (repair_indexes relocated_store) = Inr report \<and> \<not> is_clean report \<and> gs_incoming relocated_store 2 = Inr [] \<and>
     gs_incoming (snd (repair_indexes relocated_store)) 2 = Inr [new_relationship 5 1 2 ''T'' fmempty]"
proof -
  let ?q = "new_relationship 5 1 2 ''T'' fmempty"
  have "5 \<in> ag_linked (link_all relocated_agraph)" "5 \<notin> ag_linked relocated_agraph"
    by (simp_all add: link_all_def relocated_agraph_def boundary_agraph_def new_relationship_def)
  then have new: "link_all relocated_agraph \<noteq> relocated_agraph" by metis
  have "ag_incoming relocated_agraph 2 = {}" "ag_incoming (link_all relocated_agraph) 2 = {?q}"
    by (auto simp: ag_incoming_def link_all_def relocated_agraph_def boundary_agraph_def new_relationship_def split: if_splits)
  moreover obtain report where r: "fst (repair_indexes relocated_store) = Inr report" "\<not> is_clean report"
      "store_rel (snd (repair_indexes relocated_store)) (link_all relocated_agraph)"
    using repair_indexes_links_targets [OF relocated_store_rel] new by blast
  ultimately have "lists_rels (gs_incoming relocated_store 2) {}" "lists_rels (gs_incoming (snd (repair_indexes relocated_store)) 2) {?q}"
    using store_adjacency(2) [OF relocated_store_rel, of 2] store_adjacency(2) [OF r(3), of 2] by simp_all
  moreover have "rs = [?q]" if "set rs = {?q}" "distinct (map rel_id rs)" for rs
    using that by (cases rs; cases "tl rs") auto
  ultimately show ?thesis using r(1,2) by (auto simp: lists_rels_def)
qed

end
