(* ===== verification/Files.thy ===== *)
theory Files
  imports Codec
begin

text \<open>
  The part of \<open>std::fs\<close> that the storage layer uses, as state-transforming operations on a small file
  system, and what a crash may leave of it. A program with effects is a function of the file system that
  returns its result, the states it goes through, and the last state: the states on the way are the points
  at which a crash can happen. A file remembers how much of it has been synced; a crash keeps the names and
  cuts every file back to some length between the synced part and the whole. Creations, renames and removals are
  durable at once and in order, so that syncing a directory has no effect in the model.

  The second half is the pattern all metadata stores share: write a temporary file, sync it, rename it over
  the old one. The locale \<open>file_store\<close> states the contract of such a store and what follows from it.
\<close>

section \<open>Paths\<close>

type_synonym path = "string list"

definition join_path :: "path \<Rightarrow> string \<Rightarrow> path" where
  "join_path p c = p @ [c]"

definition parent :: "path \<Rightarrow> path" where
  "parent p = butlast p"

text \<open>\<open>file_stem\<close> and \<open>extension\<close> split the last component at its last dot; a leading dot does not count.\<close>

definition split_at_dot :: "string \<Rightarrow> string \<times> string option" where
  "split_at_dot name =
     (if name = ''..'' then (name, None)
      else case dropWhile (\<lambda>c. c \<noteq> CHR ''.'') (rev name) of
             [] \<Rightarrow> (name, None)
           | _ # stem \<Rightarrow> if stem = [] then (name, None)
                        else (rev stem, Some (rev (takeWhile (\<lambda>c. c \<noteq> CHR ''.'') (rev name)))))"

definition file_stem :: "path \<Rightarrow> string" where
  "file_stem p = fst (split_at_dot (last p))"

definition extension :: "path \<Rightarrow> string option" where
  "extension p = snd (split_at_dot (last p))"

definition with_extension :: "string \<Rightarrow> path \<Rightarrow> path" where
  "with_extension ext p = butlast p @ [file_stem p @ ''.'' @ ext]"

section \<open>The file system\<close>

record inode =
  i_data :: bytes
  i_synced :: nat

record fs =
  fs_dirs :: "path fset"
  fs_files :: "(path, inode) fmap"

definition not_found :: storage_error where
  "not_found = Io ''No such file or directory (os error 2)''"

definition is_a_directory :: storage_error where
  "is_a_directory = Io ''Is a directory (os error 21)''"

definition not_empty :: storage_error where
  "not_empty = Io ''Directory not empty (os error 39)''"

definition already_exists :: storage_error where
  "already_exists = Io ''File exists (os error 17)''"

definition file_content :: "fs \<Rightarrow> path \<Rightarrow> bytes option" where
  "file_content f p = map_option i_data (fmlookup (fs_files f) p)"

definition dir_exists :: "fs \<Rightarrow> path \<Rightarrow> bool" where
  "dir_exists f d \<longleftrightarrow> d |\<in>| fs_dirs f"

definition set_file :: "path \<Rightarrow> inode \<Rightarrow> fs \<Rightarrow> fs" where
  "set_file p i f = f\<lparr>fs_files := fmupd p i (fs_files f)\<rparr>"

definition fs_create_dir_all :: "path \<Rightarrow> fs \<Rightarrow> storage_error + fs" where
  "fs_create_dir_all d f =
     (if list_ex (\<lambda>p. p |\<in>| fmdom (fs_files f)) (prefixes d) then Inl already_exists
      else Inr (f\<lparr>fs_dirs := fs_dirs f |\<union>| fset_of_list (prefixes d)\<rparr>))"

text \<open>\<open>OpenOptions\<close> with \<open>create\<close>, and with \<open>truncate\<close> or \<open>append\<close>.\<close>

definition fs_open_truncate :: "path \<Rightarrow> fs \<Rightarrow> storage_error + fs" where
  "fs_open_truncate p f =
     (if dir_exists f p then Inl is_a_directory
      else if \<not> dir_exists f (parent p) then Inl not_found
      else Inr (set_file p \<lparr>i_data = [], i_synced = 0\<rparr> f))"

definition fs_open_append :: "path \<Rightarrow> fs \<Rightarrow> storage_error + fs" where
  "fs_open_append p f =
     (if dir_exists f p then Inl is_a_directory
      else if \<not> dir_exists f (parent p) then Inl not_found
      else Inr (if p |\<in>| fmdom (fs_files f) then f else set_file p \<lparr>i_data = [], i_synced = 0\<rparr> f))"

definition fs_write_all :: "path \<Rightarrow> bytes \<Rightarrow> fs \<Rightarrow> storage_error + fs" where
  "fs_write_all p bs f =
     (case fmlookup (fs_files f) p of
        None \<Rightarrow> Inl not_found
      | Some i \<Rightarrow> Inr (set_file p (i\<lparr>i_data := i_data i @ bs\<rparr>) f))"

definition fs_sync_all :: "path \<Rightarrow> fs \<Rightarrow> storage_error + fs" where
  "fs_sync_all p f =
     (case fmlookup (fs_files f) p of
        None \<Rightarrow> Inl not_found
      | Some i \<Rightarrow> Inr (set_file p (i\<lparr>i_synced := length (i_data i)\<rparr>) f))"

definition fs_rename_file :: "path \<Rightarrow> path \<Rightarrow> fs \<Rightarrow> storage_error + fs" where
  "fs_rename_file p q f =
     (case fmlookup (fs_files f) p of
        None \<Rightarrow> Inl not_found
      | Some i \<Rightarrow>
          if dir_exists f q then Inl is_a_directory
          else if \<not> dir_exists f (parent q) then Inl not_found
          else Inr (f\<lparr>fs_files := fmupd q i (fmdrop p (fs_files f))\<rparr>))"

text \<open>\<open>fs::rename\<close> and \<open>fs::remove_dir_all\<close> on a directory take everything below it along.\<close>

definition move_path :: "path \<Rightarrow> path \<Rightarrow> path \<Rightarrow> path" where
  "move_path d e p = e @ drop (length d) p"

definition below :: "path \<Rightarrow> fs \<Rightarrow> (path \<times> inode) list" where
  "below d f = filter (\<lambda>(p, _). prefix d p) (hm_iter (fs_files f))"

definition fs_remove_dir_all :: "path \<Rightarrow> fs \<Rightarrow> storage_error + fs" where
  "fs_remove_dir_all d f =
     (if \<not> dir_exists f d then Inl not_found
      else Inr (f\<lparr>fs_dirs := ffilter (\<lambda>p. \<not> prefix d p) (fs_dirs f),
                 fs_files := fmfilter (\<lambda>p. \<not> prefix d p) (fs_files f)\<rparr>))"

definition fs_rename_dir :: "path \<Rightarrow> path \<Rightarrow> fs \<Rightarrow> storage_error + fs" where
  "fs_rename_dir d e f =
     (if \<not> dir_exists f d \<or> \<not> dir_exists f (parent e) then Inl not_found
      else if below e f \<noteq> [] \<or> fBex (fs_dirs f) (strict_prefix e) then Inl not_empty
      else Inr (f\<lparr>fs_dirs := ffilter (\<lambda>p. \<not> prefix d p) (fs_dirs f) |\<union>|
                             move_path d e |`| ffilter (prefix d) (fs_dirs f),
                 fs_files := fmap_of_list (map (\<lambda>(p, i). (move_path d e p, i)) (below d f)) ++\<^sub>f
                             fmfilter (\<lambda>p. \<not> prefix d p) (fs_files f)\<rparr>))"

definition fs_sync_dir :: "path \<Rightarrow> fs \<Rightarrow> storage_error + fs" where
  "fs_sync_dir d f = (if dir_exists f d then Inr f else Inl not_found)"

text \<open>\<open>fs::read_dir\<close>: the files directly in the directory, in path order.\<close>

definition fs_read_dir :: "path \<Rightarrow> fs \<Rightarrow> storage_error + path list" where
  "fs_read_dir d f =
     (if dir_exists f d
      then Inr (filter (\<lambda>p. p \<noteq> [] \<and> parent p = d) (map fst (hm_iter (fs_files f))))
      else Inl not_found)"

section \<open>Programs with effects\<close>

type_synonym ('e, 'a) prog = "fs \<Rightarrow> ('e + 'a) \<times> fs list \<times> fs"
type_synonym 'a io = "(storage_error, 'a) prog"

definition io_return :: "'a \<Rightarrow> ('e, 'a) prog" where
  "io_return x = (\<lambda>f. (Inr x, [], f))"

definition io_fail :: "'e \<Rightarrow> ('e, 'a) prog" where
  "io_fail e = (\<lambda>f. (Inl e, [], f))"

definition io_bind :: "('e, 'a) prog \<Rightarrow> ('a \<Rightarrow> ('e, 'b) prog) \<Rightarrow> ('e, 'b) prog" where
  "io_bind m k = (\<lambda>f. case m f of
     (Inl e, tr, f') \<Rightarrow> (Inl e, tr, f')
   | (Inr x, tr, f') \<Rightarrow> (case k x f' of (r, tr', f'') \<Rightarrow> (r, tr @ tr', f'')))"

definition io_seq :: "('e, unit) prog \<Rightarrow> ('e, 'b) prog \<Rightarrow> ('e, 'b) prog" where
  "io_seq m k = io_bind m (\<lambda>_. k)"

definition io_step :: "(fs \<Rightarrow> 'e + fs) \<Rightarrow> ('e, unit) prog" where
  "io_step g = (\<lambda>f. case g f of Inl e \<Rightarrow> (Inl e, [], f) | Inr f' \<Rightarrow> (Inr (), [f'], f'))"

definition io_get :: "(fs \<Rightarrow> 'e + 'a) \<Rightarrow> ('e, 'a) prog" where
  "io_get g = (\<lambda>f. (g f, [], f))"

fun io_for :: "'a list \<Rightarrow> ('a \<Rightarrow> ('e, unit) prog) \<Rightarrow> ('e, unit) prog" where
  "io_for [] body = io_return ()"
| "io_for (x # xs) body = io_seq (body x) (io_for xs body)"

text \<open>\<open>map_err\<close>: the same program with its error converted.\<close>

definition io_map_err :: "('e \<Rightarrow> 'd) \<Rightarrow> ('e, 'a) prog \<Rightarrow> ('d, 'a) prog" where
  "io_map_err g m = (\<lambda>f. case m f of (r, tr, f') \<Rightarrow> (case r of Inl e \<Rightarrow> Inl (g e) | Inr x \<Rightarrow> Inr x, tr, f'))"

definition io_result :: "('e, 'a) prog \<Rightarrow> fs \<Rightarrow> 'e + 'a" where
  "io_result m f = fst (m f)"

definition io_trace :: "('e, 'a) prog \<Rightarrow> fs \<Rightarrow> fs list" where
  "io_trace m f = fst (snd (m f))"

definition io_final :: "('e, 'a) prog \<Rightarrow> fs \<Rightarrow> fs" where
  "io_final m f = snd (snd (m f))"

definition create_dir_all :: "path \<Rightarrow> unit io" where
  "create_dir_all d = io_step (fs_create_dir_all d)"

definition open_truncate :: "path \<Rightarrow> unit io" where
  "open_truncate p = io_step (fs_open_truncate p)"

definition open_append :: "path \<Rightarrow> unit io" where
  "open_append p = io_step (fs_open_append p)"

definition write_all :: "path \<Rightarrow> bytes \<Rightarrow> unit io" where
  "write_all p bs = io_step (fs_write_all p bs)"

definition sync_all :: "path \<Rightarrow> unit io" where
  "sync_all p = io_step (fs_sync_all p)"

definition rename_file :: "path \<Rightarrow> path \<Rightarrow> unit io" where
  "rename_file p q = io_step (fs_rename_file p q)"

definition rename_dir :: "path \<Rightarrow> path \<Rightarrow> unit io" where
  "rename_dir d e = io_step (fs_rename_dir d e)"

definition remove_dir_all :: "path \<Rightarrow> unit io" where
  "remove_dir_all d = io_step (fs_remove_dir_all d)"

definition sync_parent_dir :: "path \<Rightarrow> unit io" where
  "sync_parent_dir p = io_step (fs_sync_dir (parent p))"

section \<open>Crashes\<close>

definition survives :: "fs \<Rightarrow> fs \<Rightarrow> bool" where
  "survives f f' \<longleftrightarrow> fs_dirs f' = fs_dirs f \<and>
     (\<forall>p. case fmlookup (fs_files f) p of
            None \<Rightarrow> fmlookup (fs_files f') p = None
          | Some i \<Rightarrow> (\<exists>n. min (i_synced i) (length (i_data i)) \<le> n \<and> n \<le> length (i_data i) \<and>
                        fmlookup (fs_files f') p = Some \<lparr>i_data = take n (i_data i), i_synced = n\<rparr>))"

definition crash_points :: "('e, 'a) prog \<Rightarrow> fs \<Rightarrow> fs set" where
  "crash_points m f = set (f # io_trace m f)"

definition crashes_to :: "('e, 'a) prog \<Rightarrow> fs \<Rightarrow> fs \<Rightarrow> bool" where
  "crashes_to m f f' \<longleftrightarrow> (\<exists>g\<in>crash_points m f. survives g f')"

definition durable :: "fs \<Rightarrow> path \<Rightarrow> bool" where
  "durable f p \<longleftrightarrow> (\<forall>i. fmlookup (fs_files f) p = Some i \<longrightarrow> i_synced i = length (i_data i))"

lemma survives_durable:
  assumes "survives f f'" and "durable f p"
  shows "file_content f' p = file_content f p" and "durable f' p"
  using assms(1) [unfolded survives_def, THEN conjunct2, rule_format, of p] assms(2)
  by (auto simp: file_content_def durable_def split: option.splits)

lemma survives_exists: "\<exists>f'. survives f f' \<and> (\<forall>p. file_content f' p = file_content f p)"
proof (intro exI conjI allI)
  let ?f' = "f\<lparr>fs_files := fmmap (\<lambda>i. \<lparr>i_data = i_data i, i_synced = length (i_data i)\<rparr>) (fs_files f)\<rparr>"
  show "survives f ?f'" by (auto simp: survives_def split: option.splits)
  show "file_content ?f' p = file_content f p" for p
    by (cases "fmlookup (fs_files f) p") (simp_all add: file_content_def)
qed

lemma survives_dirs: "survives f f' \<Longrightarrow> dir_exists f' d = dir_exists f d"
  by (simp add: survives_def dir_exists_def)

section \<open>Reasoning about programs\<close>

text \<open>\<open>io_run m f x f'\<close>: from \<open>f\<close> the program returns \<open>x\<close> and leaves \<open>f'\<close>.\<close>

definition io_run :: "('e, 'a) prog \<Rightarrow> fs \<Rightarrow> 'a \<Rightarrow> fs \<Rightarrow> bool" where
  "io_run m f x f' \<longleftrightarrow> io_result m f = Inr x \<and> io_final m f = f'"

text \<open>\<open>io_through Q m f\<close>: every state the program goes through from \<open>f\<close> satisfies \<open>Q\<close>.\<close>

definition io_through :: "(fs \<Rightarrow> bool) \<Rightarrow> ('e, 'a) prog \<Rightarrow> fs \<Rightarrow> bool" where
  "io_through Q m f \<longleftrightarrow> (\<forall>g\<in>set (io_trace m f). Q g)"

named_theorems io_intros \<open>composition rules for programs with effects\<close>

lemma io_run_return [io_intros]: "io_run (io_return x) f x f"
  by (simp add: io_run_def io_result_def io_final_def io_return_def)

lemma io_run_bind:
  assumes "io_run m f x f'" and "io_run (k x) f' y f''"
  shows "io_run (io_bind m k) f y f''"
proof -
  obtain tr tr' where "m f = (Inr x, tr, f')" "k x f' = (Inr y, tr', f'')"
    using assms by (auto simp: io_run_def io_result_def io_final_def prod_eq_iff)
  then show ?thesis by (simp add: io_run_def io_result_def io_final_def io_bind_def)
qed

lemma io_run_seq [io_intros]: "io_run m f () f' \<Longrightarrow> io_run k f' y f'' \<Longrightarrow> io_run (io_seq m k) f y f''"
  unfolding io_seq_def by (rule io_run_bind)

lemma io_run_step [io_intros]: "g f = Inr f' \<Longrightarrow> io_run (io_step g) f () f'"
  by (simp add: io_run_def io_result_def io_final_def io_step_def)

lemma io_run_stepD: "io_run (io_step g) f x f' \<Longrightarrow> g f = Inr f'"
  by (auto simp: io_run_def io_result_def io_final_def io_step_def split: sum.splits)

lemma io_run_get: "g f = Inr x \<Longrightarrow> io_run (io_get g) f x f"
  by (simp add: io_run_def io_result_def io_final_def io_get_def)

lemma io_run_map_err [io_intros]: "io_run m f x f' \<Longrightarrow> io_run (io_map_err g m) f x f'"
  by (auto simp: io_run_def io_result_def io_final_def io_map_err_def split: prod.splits)

lemma io_through_simps [simp]: "io_through Q (io_return x) f" "io_through Q (io_fail e) f" "io_through Q (io_get h) f"
  by (simp_all add: io_through_def io_trace_def io_return_def io_fail_def io_get_def)

lemma io_through_step: "(\<And>f'. g f = Inr f' \<Longrightarrow> Q f') \<Longrightarrow> io_through Q (io_step g) f"
  by (auto simp: io_through_def io_trace_def io_step_def split: sum.splits)

lemma io_through_bind:
  assumes "io_through Q m f" and "\<And>x f'. io_run m f x f' \<Longrightarrow> io_through Q (k x) f'"
  shows "io_through Q (io_bind m k) f"
proof -
  obtain r tr f' where m: "m f = (r, tr, f')" by (cases "m f") auto
  show ?thesis
  proof (cases r)
    case (Inl e)
    then show ?thesis using assms(1) m by (simp add: io_through_def io_trace_def io_bind_def)
  next
    case (Inr x)
    then have "io_through Q (k x) f'"
      using m by (intro assms(2)) (simp add: io_run_def io_result_def io_final_def)
    then show ?thesis
      using assms(1) m Inr by (auto simp: io_through_def io_trace_def io_bind_def split: prod.splits)
  qed
qed

lemma io_through_seq:
  "io_through Q m f \<Longrightarrow> (\<And>f'. io_run m f () f' \<Longrightarrow> io_through Q k f') \<Longrightarrow> io_through Q (io_seq m k) f"
  unfolding io_seq_def by (rule io_through_bind) auto

lemma io_run_unique: "io_run m f x f' \<Longrightarrow> io_run m f y f'' \<Longrightarrow> x = y \<and> f' = f''"
  by (simp add: io_run_def)

lemma io_through_seq':
  assumes "io_through Q m f" and "io_run m f () f'" and "io_through Q k f'"
  shows "io_through Q (io_seq m k) f"
  by (rule io_through_seq [OF assms(1)]) (use io_run_unique [OF assms(2)] assms(3) in auto)

lemma crashes_through:
  assumes "crashes_to m f f'" and "io_through Q m f" and "Q f"
  shows "\<exists>g. Q g \<and> survives g f'"
  using assms by (auto simp: crashes_to_def crash_points_def io_through_def)

section \<open>Replacing a file\<close>

text \<open>
  The bytes a \<open>save\<close> writes one call after the other, and the error it returns after them, if it does not get
  to the end.
\<close>

type_synonym written = "bytes list \<times> storage_error option"

definition emit :: "bytes \<Rightarrow> written" where
  "emit bs = ([bs], None)"

definition emit_fail :: "storage_error \<Rightarrow> written" where
  "emit_fail e = ([], Some e)"

definition emit_seq :: "written \<Rightarrow> written \<Rightarrow> written" where
  "emit_seq a b = (case snd a of Some e \<Rightarrow> a | None \<Rightarrow> (fst a @ fst b, snd b))"

definition emit_list :: "written list \<Rightarrow> written" where
  "emit_list outs = foldr emit_seq outs ([], None)"

definition emitted :: "written \<Rightarrow> bytes" where
  "emitted out = concat (fst out)"

definition replace_file :: "path \<Rightarrow> path \<Rightarrow> written \<Rightarrow> unit io" where
  "replace_file tmp p out =
     io_seq (open_truncate tmp) (io_seq (io_for (fst out) (write_all tmp))
       (case snd out of
          Some e \<Rightarrow> io_fail e
        | None \<Rightarrow> io_seq (sync_all tmp) (io_seq (rename_file tmp p) (sync_parent_dir p))))"

lemma set_file_simps [simp]:
  "fmlookup (fs_files (set_file p i f)) q = (if q = p then Some i else fmlookup (fs_files f) q)"
  "dir_exists (set_file p i f) d = dir_exists f d" "fs_dirs (set_file p i f) = fs_dirs f"
  by (auto simp: set_file_def dir_exists_def)

lemma set_file_twice [simp]: "set_file p i (set_file p j f) = set_file p i f"
  by (simp add: set_file_def)

lemma run_writes:
  "fmlookup (fs_files f) p = Some i \<Longrightarrow>
    io_run (io_for chunks (write_all p)) f () (set_file p (i\<lparr>i_data := i_data i @ concat chunks\<rparr>) f)"
proof (induction chunks arbitrary: f i)
  case Nil
  then have "fmupd p i (fs_files f) = fs_files f" by (intro fmap_ext) auto
  then have "set_file p i f = f" by (simp add: set_file_def)
  then show ?case by (simp add: io_intros)
next
  case (Cons bs chunks)
  let ?i = "i\<lparr>i_data := i_data i @ bs\<rparr>"
  have "io_run (write_all p bs) f () (set_file p ?i f)"
    using Cons.prems by (simp add: write_all_def fs_write_all_def io_intros)
  from io_run_seq [OF this Cons.IH [of "set_file p ?i f" ?i]] show ?case by simp
qed

text \<open>States in which only the temporary file differs.\<close>

definition same_but :: "path \<Rightarrow> fs \<Rightarrow> fs \<Rightarrow> bool" where
  "same_but p f g \<longleftrightarrow> fs_dirs g = fs_dirs f \<and> (\<forall>q. q \<noteq> p \<longrightarrow> fmlookup (fs_files g) q = fmlookup (fs_files f) q)"

lemma same_but_refl [simp]: "same_but p f f"
  by (simp add: same_but_def)

lemma same_but_set_file: "same_but p f g \<Longrightarrow> same_but p f (set_file p i g)"
  by (simp add: same_but_def)

lemma through_writes:
  "same_but p f g \<Longrightarrow> io_through (same_but p f) (io_for chunks (write_all p)) g"
proof (induction chunks arbitrary: g)
  case (Cons bs chunks)
  have "same_but p f g'" if "fs_write_all p bs g = Inr g'" for g'
    using that Cons.prems by (auto simp: fs_write_all_def same_but_set_file split: option.splits)
  then show ?case
    using Cons.IH unfolding io_for.simps write_all_def
    by (intro io_through_seq io_through_step) (auto dest: io_run_stepD)
qed simp

definition replaced :: "path \<Rightarrow> path \<Rightarrow> bytes \<Rightarrow> fs \<Rightarrow> fs" where
  "replaced tmp p bs f =
     f\<lparr>fs_files := fmupd p \<lparr>i_data = bs, i_synced = length bs\<rparr> (fmdrop tmp (fs_files f))\<rparr>"

definition replaceable :: "path \<Rightarrow> path \<Rightarrow> fs \<Rightarrow> bool" where
  "replaceable tmp p f \<longleftrightarrow> tmp \<noteq> p \<and> parent tmp = parent p \<and> dir_exists f (parent p) \<and>
     \<not> dir_exists f p \<and> \<not> dir_exists f tmp"

lemma run_open_tmp: "replaceable tmp p f \<Longrightarrow> io_run (open_truncate tmp) f () (set_file tmp \<lparr>i_data = [], i_synced = 0\<rparr> f)"
  by (simp add: open_truncate_def fs_open_truncate_def replaceable_def io_intros)

lemma run_write_tmp:
  "io_run (io_for chunks (write_all tmp)) (set_file tmp \<lparr>i_data = [], i_synced = 0\<rparr> f) ()
     (set_file tmp \<lparr>i_data = concat chunks, i_synced = 0\<rparr> f)"
  using run_writes [of "set_file tmp \<lparr>i_data = [], i_synced = 0\<rparr> f" tmp "\<lparr>i_data = [], i_synced = 0\<rparr>" chunks]
  by simp

lemma run_finish:
  assumes "replaceable tmp p f"
  shows "io_run (sync_all tmp) (set_file tmp \<lparr>i_data = bs, i_synced = 0\<rparr> f) ()
      (set_file tmp \<lparr>i_data = bs, i_synced = length bs\<rparr> f)"
    and "io_run (rename_file tmp p) (set_file tmp \<lparr>i_data = bs, i_synced = length bs\<rparr> f) () (replaced tmp p bs f)"
    and "io_run (sync_parent_dir p) (replaced tmp p bs f) () (replaced tmp p bs f)"
proof -
  show "io_run (sync_all tmp) (set_file tmp \<lparr>i_data = bs, i_synced = 0\<rparr> f) ()
      (set_file tmp \<lparr>i_data = bs, i_synced = length bs\<rparr> f)"
    by (simp add: sync_all_def fs_sync_all_def io_intros)
  have "fmdrop tmp (fmupd tmp i m) = fmdrop tmp m" for i and m :: "(path, inode) fmap"
    by (rule fmap_ext) simp
  then show "io_run (rename_file tmp p) (set_file tmp \<lparr>i_data = bs, i_synced = length bs\<rparr> f) () (replaced tmp p bs f)"
    using assms unfolding rename_file_def
    by (intro io_run_step) (simp add: fs_rename_file_def replaceable_def replaced_def, simp add: set_file_def)
  show "io_run (sync_parent_dir p) (replaced tmp p bs f) () (replaced tmp p bs f)"
    using assms unfolding sync_parent_dir_def
    by (intro io_run_step) (simp add: fs_sync_dir_def replaceable_def replaced_def dir_exists_def)
qed

lemma replace_file_run:
  assumes "replaceable tmp p f" and "snd out = None"
  shows "io_run (replace_file tmp p out) f () (replaced tmp p (emitted out) f)"
  unfolding replace_file_def emitted_def assms(2) option.case
  using run_open_tmp [OF assms(1)] run_write_tmp run_finish [OF assms(1)]
  by (intro io_run_seq)

lemma replace_file_through:
  assumes ok: "replaceable tmp p f"
  shows "io_through (\<lambda>g. same_but tmp f g \<or> snd out = None \<and> g = replaced tmp p (emitted out) f)
    (replace_file tmp p out) f" (is "io_through ?Q _ _")
proof -
  have weaken: "io_through ?Q m g" if "io_through (same_but tmp f) m g" for m :: "unit io" and g
    using that by (auto simp: io_through_def)
  have step: "io_through ?Q (io_step h) g" if "io_run (io_step h) g () g'" "?Q g'" for h g g'
    using that by (intro io_through_step) (auto dest: io_run_stepD)
  show ?thesis
    unfolding replace_file_def
  proof (intro io_through_seq' [OF _ run_open_tmp [OF ok]] io_through_seq' [OF _ run_write_tmp])
    show "io_through ?Q (open_truncate tmp) f"
      unfolding open_truncate_def
      by (rule step [OF run_open_tmp [OF ok, unfolded open_truncate_def]]) (simp add: same_but_set_file)
    show "io_through ?Q (io_for (fst out) (write_all tmp)) (set_file tmp \<lparr>i_data = [], i_synced = 0\<rparr> f)"
      by (intro weaken through_writes same_but_set_file) simp
    show "io_through ?Q (case snd out of Some e \<Rightarrow> io_fail e
        | None \<Rightarrow> io_seq (sync_all tmp) (io_seq (rename_file tmp p) (sync_parent_dir p)))
        (set_file tmp \<lparr>i_data = concat (fst out), i_synced = 0\<rparr> f)"
    proof (cases "snd out")
      case None
      note run = run_finish [OF ok, of "emitted out"]
      show ?thesis unfolding None option.case emitted_def [symmetric]
        using step [OF run(1) [unfolded sync_all_def]] step [OF run(2) [unfolded rename_file_def]]
          step [OF run(3) [unfolded sync_parent_dir_def]]
        by (intro io_through_seq' [OF _ run(1)] io_through_seq' [OF _ run(2)])
           (simp_all add: sync_all_def rename_file_def sync_parent_dir_def same_but_set_file None)
    qed simp
  qed
qed

lemma replace_file_fails:
  assumes "replaceable tmp p f" and "snd out = Some e"
  shows "io_result (replace_file tmp p out) f = Inl e" and "same_but tmp f (io_final (replace_file tmp p out) f)"
proof -
  let ?m = "io_seq (open_truncate tmp) (io_for (fst out) (write_all tmp))"
  have run: "io_run ?m f () (set_file tmp \<lparr>i_data = concat (fst out), i_synced = 0\<rparr> f)"
    by (rule io_run_seq [OF run_open_tmp [OF assms(1)] run_write_tmp])
  have "replace_file tmp p out = io_seq ?m (io_fail e)"
    by (auto simp: replace_file_def assms(2) io_seq_def io_bind_def fun_eq_iff split: sum.splits prod.splits)
  then show "io_result (replace_file tmp p out) f = Inl e" "same_but tmp f (io_final (replace_file tmp p out) f)"
    using run by (auto simp: io_run_def io_result_def io_final_def io_seq_def io_bind_def io_fail_def
        same_but_set_file split: sum.splits prod.splits)
qed

section \<open>Stores kept in one file\<close>

text \<open>\<open>load\<close>: a missing file is \<open>None\<close>, anything else is parsed.\<close>

definition load_file :: "(bytes \<Rightarrow> storage_error + 'w) \<Rightarrow> path \<Rightarrow> fs \<Rightarrow> storage_error + 'w option" where
  "load_file parse p f =
     (if dir_exists f p then Inl is_a_directory
      else case file_content f p of
             None \<Rightarrow> Inr None
           | Some bs \<Rightarrow> rbind (parse bs) (\<lambda>x. Inr (Some x)))"

lemma load_file_cong:
  "dir_exists f' p = dir_exists f p \<Longrightarrow> file_content f' p = file_content f p \<Longrightarrow> load_file parse p f' = load_file parse p f"
  by (simp add: load_file_def)

text \<open>
  The contract between a store and the file system: it writes its file through a temporary one in the same
  directory, and what it writes parses back.
\<close>

locale file_store =
  fixes p tmp :: path and out :: "'v \<Rightarrow> written" and parse :: "bytes \<Rightarrow> storage_error + 'w"
    and view :: "'v \<Rightarrow> 'w" and ok :: "'v \<Rightarrow> bool"
  assumes paths: "tmp \<noteq> p" "parent tmp = parent p"
    and total: "ok v \<Longrightarrow> snd (out v) = None"
    and roundtrip: "ok v \<Longrightarrow> parse (emitted (out v)) = Inr (view v)"
begin

lemma load_replaced: "ok v \<Longrightarrow> \<not> dir_exists f p \<Longrightarrow> load_file parse p (replaced tmp p (emitted (out v)) f) = Inr (Some (view v))"
  by (simp add: load_file_def replaced_def dir_exists_def file_content_def roundtrip)

lemma load_same_but: "same_but tmp f g \<Longrightarrow> load_file parse p g = load_file parse p f"
  using paths by (intro load_file_cong) (auto simp: same_but_def dir_exists_def file_content_def)

lemma load_after_save:
  assumes "ok v" and "replaceable tmp p f"
  shows "\<exists>f'. io_run (replace_file tmp p (out v)) f () f' \<and> load_file parse p f' = Inr (Some (view v)) \<and> durable f' p"
proof (intro exI conjI)
  show "io_run (replace_file tmp p (out v)) f () (replaced tmp p (emitted (out v)) f)"
    using assms by (intro replace_file_run) (simp_all add: total)
  show "load_file parse p (replaced tmp p (emitted (out v)) f) = Inr (Some (view v))"
    using assms by (intro load_replaced) (simp_all add: replaceable_def)
  show "durable (replaced tmp p (emitted (out v)) f) p" by (simp add: durable_def replaced_def)
qed

lemma crash_atomic:
  assumes ok: "ok v" and rep: "replaceable tmp p f" and old: "durable f p"
    and crash: "crashes_to (replace_file tmp p (out v)) f f'"
  shows "load_file parse p f' = load_file parse p f \<or> load_file parse p f' = Inr (Some (view v))"
proof -
  obtain g where g: "same_but tmp f g \<or> g = replaced tmp p (emitted (out v)) f" "survives g f'"
    using crashes_through [OF crash replace_file_through [OF rep]] by auto
  have durable: "durable g p"
    using g(1) old paths by (auto simp: durable_def same_but_def replaced_def)
  then have "load_file parse p f' = load_file parse p g"
    using survives_durable(1) [OF g(2)] survives_dirs [OF g(2)] by (intro load_file_cong) auto
  then show ?thesis
    using g(1) load_same_but load_replaced [OF ok] rep by (auto simp: replaceable_def)
qed

lemma failed_save:
  assumes "snd (out v) = Some e" and "replaceable tmp p f"
  shows "io_result (replace_file tmp p (out v)) f = Inl e \<and>
    load_file parse p (io_final (replace_file tmp p (out v)) f) = load_file parse p f"
  using replace_file_fails [OF assms(2,1)] load_same_but by simp

end

section \<open>Reading a file\<close>

text \<open>
  An open file is read like the codec's reader: its contents and a position. \<open>read_exact\<close> on a file takes the
  error for a file that ends too early; \<open>read_to_end\<close> takes what is left; \<open>eof\<close> expects nothing to be left.
\<close>

definition file_read_exact :: "storage_error \<Rightarrow> nat \<Rightarrow> bytes rd" where
  "file_read_exact e len r =
     (if length (rd_input r) < rd_position r + len then Inl e
      else Inr (take len (drop (rd_position r) (rd_input r)), r\<lparr>rd_position := rd_position r + len\<rparr>))"

definition file_u8 :: "storage_error \<Rightarrow> u8 rd" where
  "file_u8 e = rd_bind (file_read_exact e 1) (\<lambda>bs. rd_return (hd bs))"

definition file_u32 :: "storage_error \<Rightarrow> u32 rd" where
  "file_u32 e = rd_bind (file_read_exact e 4) (\<lambda>bs. rd_return (from_be_u32 bs))"

definition file_u64 :: "storage_error \<Rightarrow> u64 rd" where
  "file_u64 e = rd_bind (file_read_exact e 8) (\<lambda>bs. rd_return (from_be_u64 bs))"

definition file_read_to_end :: "bytes rd" where
  "file_read_to_end r =
     Inr (drop (rd_position r) (rd_input r), r\<lparr>rd_position := max (rd_position r) (length (rd_input r))\<rparr>)"

definition file_eof :: "storage_error \<Rightarrow> unit rd" where
  "file_eof e r = (if length (rd_input r) \<le> rd_position r then Inr ((), r) else Inl e)"

definition rd_error :: "storage_error \<Rightarrow> 'a rd" where
  "rd_error e = (\<lambda>r. Inl e)"

definition read_file :: "'a rd \<Rightarrow> bytes \<Rightarrow> storage_error + 'a" where
  "read_file f bs = rbind (f (new_reader bs)) (\<lambda>(x, _). Inr x)"

lemma reads_file_exact: "n = length bs \<Longrightarrow> reads (file_read_exact e n) bs bs"
  by (simp add: reads_def file_read_exact_def)

lemma reads_file_prim [reads_intros]:
  "reads (file_u8 e) (write_u8 a) a" "reads (file_u32 e) (write_u32 b) b" "reads (file_u64 e) (write_u64 c) c"
  unfolding file_u8_def file_u32_def file_u64_def write_u8_def write_u32_def write_u64_def
  by (rule reads_map [OF reads_file_exact], simp, simp)+

lemma read_file_reads:
  assumes "reads f bs v" and "length bs < 2 ^ 64"
  shows "read_file (rd_bind f (\<lambda>x. rd_bind (file_eof e) (\<lambda>_. rd_return x))) bs = Inr v"
  using assms(1) [unfolded reads_def, rule_format, of "[]" "[]"] assms(2)
  by (simp add: read_file_def rd_bind_def new_reader_def file_eof_def rd_return_def)

end
