(* ===== verification/Meta_Stores.thy ===== *)
theory Meta_Stores
  imports Files
begin

text \<open>
  The stores that keep one small binary file: the commit index (\<open>commit.rs\<close>), the applied checkpoint
  (\<open>checkpoint.rs\<close>), the shard routing table (\<open>cluster.rs\<close>) and the index catalog (\<open>catalog.rs\<close>). Each is an
  interpretation of \<open>file_store\<close>: its round trip is proved from its reader and its writer, and the behaviour
  of a save, of a failed save and of a crash follows.
\<close>

section \<open>Shared pieces\<close>

definition file_header :: "storage_error \<Rightarrow> storage_error \<Rightarrow> bytes \<Rightarrow> unit rd" where
  "file_header missing invalid magic = rd_bind (file_read_exact missing (length magic)) (\<lambda>header.
     if header = magic then rd_return () else rd_error invalid)"

definition then_eof :: "storage_error \<Rightarrow> 'a rd \<Rightarrow> 'a rd" where
  "then_eof e f = rd_bind f (\<lambda>x. rd_bind (file_eof e) (\<lambda>_. rd_return x))"

definition bin_tmp :: "path \<Rightarrow> path" where
  "bin_tmp p = with_extension ''bin.tmp'' p"

definition shard_dir :: "path \<Rightarrow> shard_id \<Rightarrow> path" where
  "shard_dir data_dir s = join_path (join_path data_dir ''shards'') (show_u64 s)"

lemma reads_header [reads_intros]: "reads (file_header e e' magic) magic ()"
  unfolding file_header_def by (rule reads_map [OF reads_file_exact]) simp_all

lemma then_eof_reads: "reads f bs v \<Longrightarrow> length bs < 2 ^ 64 \<Longrightarrow> read_file (then_eof e f) bs = Inr v"
  unfolding then_eof_def by (rule read_file_reads)

lemma emit_list_emits: "emit_list (map emit bss) = (bss, None)"
  by (induction bss) (simp_all add: emit_list_def emit_def emit_seq_def)

lemma parent_join [simp]: "parent (join_path d c) = d" "parent (bin_tmp p) = parent p"
  by (simp_all add: parent_def join_path_def bin_tmp_def with_extension_def)

lemma tmp_differs: "file_stem (join_path d c) @ ''.'' @ ext \<noteq> c \<Longrightarrow> with_extension ext (join_path d c) \<noteq> join_path d c"
  by (simp add: with_extension_def join_path_def)

section \<open>Commit index\<close>

record commit_store =
  cs_shard_id :: shard_id
  cs_path :: path

record loaded_commit =
  lc_shard_id :: shard_id
  lc_term :: u64
  lc_index :: u64

definition commit_magic :: bytes where
  "commit_magic = as_bytes (''N4RCMT1'' @ [CHR 0x0A])"

definition commit_path :: "path \<Rightarrow> shard_id \<Rightarrow> path" where
  "commit_path data_dir s = join_path (shard_dir data_dir s) ''commit.bin''"

definition commit_open :: "path \<Rightarrow> shard_id \<Rightarrow> commit_store io" where
  "commit_open data_dir s =
     io_seq (create_dir_all (shard_dir data_dir s))
       (io_return \<lparr>cs_shard_id = s, cs_path = commit_path data_dir s\<rparr>)"

definition commit_bytes :: "shard_id \<Rightarrow> u64 \<times> u64 \<Rightarrow> written" where
  "commit_bytes s v = (case v of (term, index) \<Rightarrow>
     emit_list [emit commit_magic, emit (write_u64 s), emit (write_u64 term), emit (write_u64 index)])"

definition commit_save :: "commit_store \<Rightarrow> u64 \<Rightarrow> u64 \<Rightarrow> unit io" where
  "commit_save c term index =
     replace_file (bin_tmp (cs_path c)) (cs_path c) (commit_bytes (cs_shard_id c) (term, index))"

definition commit_read :: "shard_id \<Rightarrow> loaded_commit rd" where
  "commit_read s =
     (let u64 = file_u64 (CorruptStore ''truncated commit u64'')
      in rd_bind (file_header (CorruptStore ''missing commit header'')
                   (CorruptStore ''invalid commit header'') commit_magic) (\<lambda>_.
         rd_bind u64 (\<lambda>shard_id.
         if shard_id \<noteq> s then rd_error (WrongShard s shard_id)
         else rd_bind u64 (\<lambda>term. rd_bind u64 (\<lambda>index.
           rd_return \<lparr>lc_shard_id = shard_id, lc_term = term, lc_index = index\<rparr>)))))"

definition commit_parse :: "shard_id \<Rightarrow> bytes \<Rightarrow> storage_error + loaded_commit" where
  "commit_parse s = read_file (then_eof (CorruptStore ''trailing commit bytes'') (commit_read s))"

definition commit_load :: "commit_store \<Rightarrow> fs \<Rightarrow> storage_error + loaded_commit option" where
  "commit_load c = load_file (commit_parse (cs_shard_id c)) (cs_path c)"

section \<open>Checkpoint\<close>

record checkpoint_store =
  cps_shard_id :: shard_id
  cps_path :: path

record loaded_checkpoint =
  lp_shard_id :: shard_id
  lp_last_applied_term :: u64
  lp_last_applied_index :: u64
  lp_timestamp :: hybrid_timestamp

datatype checkpoint_format_version = CheckpointV1 | CheckpointV2

definition checkpoint_magic_v1 :: bytes where
  "checkpoint_magic_v1 = as_bytes (''N4RCHK1'' @ [CHR 0x0A])"

definition checkpoint_magic_v2 :: bytes where
  "checkpoint_magic_v2 = as_bytes (''N4RCHK2'' @ [CHR 0x0A])"

definition checkpoint_path :: "path \<Rightarrow> shard_id \<Rightarrow> path" where
  "checkpoint_path data_dir s = join_path (shard_dir data_dir s) ''checkpoint.bin''"

definition checkpoint_open :: "path \<Rightarrow> shard_id \<Rightarrow> checkpoint_store io" where
  "checkpoint_open data_dir s =
     io_seq (create_dir_all (shard_dir data_dir s))
       (io_return \<lparr>cps_shard_id = s, cps_path = checkpoint_path data_dir s\<rparr>)"

definition checkpoint_bytes :: "shard_id \<Rightarrow> u64 \<times> u64 \<times> hybrid_timestamp \<Rightarrow> written" where
  "checkpoint_bytes s v = (case v of (term, index, ts) \<Rightarrow>
     emit_list [emit checkpoint_magic_v2, emit (write_u64 s), emit (write_u64 term), emit (write_u64 index),
       emit (write_u64 (physical_ms ts)), emit (write_u64 (ucast (logical ts)))])"

definition checkpoint_save_with_timestamp :: "checkpoint_store \<Rightarrow> u64 \<Rightarrow> u64 \<Rightarrow> hybrid_timestamp \<Rightarrow> unit io" where
  "checkpoint_save_with_timestamp c term index ts =
     replace_file (bin_tmp (cps_path c)) (cps_path c) (checkpoint_bytes (cps_shard_id c) (term, index, ts))"

definition checkpoint_save :: "checkpoint_store \<Rightarrow> u64 \<Rightarrow> u64 \<Rightarrow> unit io" where
  "checkpoint_save c term index = checkpoint_save_with_timestamp c term index timestamp_zero"

definition checkpoint_read_header :: "checkpoint_format_version rd" where
  "checkpoint_read_header =
     rd_bind (file_read_exact (CorruptSnapshot ''missing checkpoint header'') (length checkpoint_magic_v1)) (\<lambda>header.
     if header = checkpoint_magic_v1 then rd_return CheckpointV1
     else if header = checkpoint_magic_v2 then rd_return CheckpointV2
     else rd_error (CorruptSnapshot ''invalid checkpoint header''))"

definition read_checkpoint_timestamp :: "checkpoint_format_version \<Rightarrow> hybrid_timestamp rd" where
  "read_checkpoint_timestamp version = rd_bind file_read_to_end (\<lambda>trailing.
     if version = CheckpointV1 \<and> length trailing = 0 then rd_return timestamp_zero
     else if length trailing = 16 then
       rd_return \<lparr>physical_ms = from_be_u64 (take 8 trailing),
                  logical = ucast (from_be_u64 (take 8 (drop 8 trailing)))\<rparr>
     else if length trailing = 0 then rd_error (CorruptSnapshot ''missing checkpoint timestamp'')
     else rd_error (CorruptSnapshot ''invalid checkpoint timestamp payload''))"

definition checkpoint_read :: "shard_id \<Rightarrow> loaded_checkpoint rd" where
  "checkpoint_read s =
     (let u64 = file_u64 (CorruptSnapshot ''truncated checkpoint u64'')
      in rd_bind checkpoint_read_header (\<lambda>version.
         rd_bind u64 (\<lambda>shard_id.
         if shard_id \<noteq> s then rd_error (WrongShard s shard_id)
         else rd_bind u64 (\<lambda>term. rd_bind u64 (\<lambda>index.
           rd_bind (read_checkpoint_timestamp version) (\<lambda>ts.
           rd_return \<lparr>lp_shard_id = shard_id, lp_last_applied_term = term, lp_last_applied_index = index,
                      lp_timestamp = ts\<rparr>))))))"

definition checkpoint_parse :: "shard_id \<Rightarrow> bytes \<Rightarrow> storage_error + loaded_checkpoint" where
  "checkpoint_parse s = read_file (then_eof (CorruptSnapshot ''trailing checkpoint bytes'') (checkpoint_read s))"

definition checkpoint_load :: "checkpoint_store \<Rightarrow> fs \<Rightarrow> storage_error + loaded_checkpoint option" where
  "checkpoint_load c = load_file (checkpoint_parse (cps_shard_id c)) (cps_path c)"

section \<open>Shard routing table\<close>

record shard_metadata_store =
  sm_path :: path

definition routing_magic :: bytes where
  "routing_magic = as_bytes (''N4RRT1'' @ [CHR 0x0A])"

definition routing_path :: "path \<Rightarrow> path" where
  "routing_path data_dir = join_path (join_path data_dir ''cluster'') ''shard-routing.bin''"

definition routing_open :: "path \<Rightarrow> shard_metadata_store io" where
  "routing_open data_dir =
     io_seq (create_dir_all (join_path data_dir ''cluster'')) (io_return \<lparr>sm_path = routing_path data_dir\<rparr>)"

fun encode_role :: "shard_role \<Rightarrow> u8" where
  "encode_role Primary = 1"
| "encode_role Replica = 2"

definition decode_role :: "u8 \<Rightarrow> storage_error + shard_role" where
  "decode_role role =
     (if role = 1 then Inr Primary
      else if role = 2 then Inr Replica
      else Inl (CorruptStore (''unknown shard replica role '' @ show_nat (unat role))))"

definition routing_replica_bytes :: "shard_replica \<Rightarrow> bytes list" where
  "routing_replica_bytes r = [write_u64 (replica_server_id r), write_u8 (encode_role (replica_role r))]"

definition routing_placement_bytes :: "shard_placement \<Rightarrow> bytes list" where
  "routing_placement_bytes p =
     [write_u64 (placement_shard_id p), write_u64 (of_nat (length (placement_replicas p)))] @
     concat (map routing_replica_bytes (placement_replicas p))"

definition routing_bytes :: "shard_routing_table \<Rightarrow> written" where
  "routing_bytes t = emit_list (map emit (
     [routing_magic, write_u64 (table_version t), write_u64 (of_nat (length (table_placements t)))] @
     concat (map routing_placement_bytes (table_placements t))))"

definition routing_save :: "shard_metadata_store \<Rightarrow> shard_routing_table \<Rightarrow> unit io" where
  "routing_save m t = replace_file (bin_tmp (sm_path m)) (sm_path m) (routing_bytes t)"

definition lift_rd :: "storage_error + 'a \<Rightarrow> 'a rd" where
  "lift_rd r = (case r of Inl e \<Rightarrow> rd_error e | Inr x \<Rightarrow> rd_return x)"

definition routing_u64 :: "u64 rd" where
  "routing_u64 = file_u64 (CorruptStore ''truncated shard routing u64'')"

definition routing_read_replica :: "shard_replica rd" where
  "routing_read_replica =
     rd_bind routing_u64 (\<lambda>server_id.
     rd_bind (file_u8 (CorruptStore ''truncated shard routing u8'')) (\<lambda>tag.
     rd_bind (lift_rd (decode_role tag)) (\<lambda>role.
     rd_return \<lparr>replica_server_id = server_id, replica_role = role\<rparr>)))"

definition routing_read_placement :: "shard_placement rd" where
  "routing_read_placement =
     rd_bind routing_u64 (\<lambda>shard_id. rd_bind routing_u64 (\<lambda>replica_count.
     rd_bind (rd_times (unat replica_count) routing_read_replica) (\<lambda>replicas.
     rd_return \<lparr>placement_shard_id = shard_id, placement_replicas = replicas\<rparr>)))"

definition routing_read :: "shard_routing_table rd" where
  "routing_read =
     rd_bind (file_header (CorruptStore ''missing shard routing header'')
               (CorruptStore ''invalid shard routing header'') routing_magic) (\<lambda>_.
     rd_bind routing_u64 (\<lambda>version. rd_bind routing_u64 (\<lambda>placement_count.
     rd_bind (rd_times (unat placement_count) routing_read_placement) (\<lambda>placements.
     rd_return \<lparr>table_version = version, table_placements = placements\<rparr>))))"

definition routing_parse :: "bytes \<Rightarrow> storage_error + shard_routing_table" where
  "routing_parse = read_file (then_eof (CorruptStore ''trailing shard routing bytes'') routing_read)"

definition routing_load :: "shard_metadata_store \<Rightarrow> fs \<Rightarrow> storage_error + shard_routing_table option" where
  "routing_load m = load_file routing_parse (sm_path m)"

section \<open>Index catalog\<close>

datatype index_kind = NodeProperty | UniqueNodeProperty | VectorIndex u64 string

record index_definition =
  ix_name :: string
  ix_label :: string
  ix_property :: string
  ix_kind :: index_kind

definition node_property :: "string \<Rightarrow> string \<Rightarrow> string \<Rightarrow> index_definition" where
  "node_property name label prop = \<lparr>ix_name = name, ix_label = label, ix_property = prop, ix_kind = NodeProperty\<rparr>"

definition vector_index :: "string \<Rightarrow> string \<Rightarrow> string \<Rightarrow> u64 \<Rightarrow> string \<Rightarrow> index_definition" where
  "vector_index name label prop dimensions metric =
     \<lparr>ix_name = name, ix_label = label, ix_property = prop, ix_kind = VectorIndex dimensions metric\<rparr>"

definition unique_node_property :: "string \<Rightarrow> string \<Rightarrow> string \<Rightarrow> index_definition" where
  "unique_node_property name label prop =
     \<lparr>ix_name = name, ix_label = label, ix_property = prop, ix_kind = UniqueNodeProperty\<rparr>"

record index_catalog =
  catalog_version :: u64
  catalog_indexes :: "index_definition list"

record index_catalog_store =
  ic_path :: path

definition catalog_magic :: bytes where
  "catalog_magic = as_bytes (''N4RIC1'' @ [CHR 0x0A])"

definition catalog_path :: "path \<Rightarrow> path" where
  "catalog_path data_dir = join_path (join_path data_dir ''indexes'') ''catalog.bin''"

definition catalog_open :: "path \<Rightarrow> index_catalog_store io" where
  "catalog_open data_dir =
     io_seq (create_dir_all (join_path data_dir ''indexes'')) (io_return \<lparr>ic_path = catalog_path data_dir\<rparr>)"

definition catalog_string_bytes :: "string \<Rightarrow> bytes list" where
  "catalog_string_bytes s = [write_u64 (of_nat (length s)), as_bytes s]"

fun catalog_kind_bytes :: "index_kind \<Rightarrow> bytes list" where
  "catalog_kind_bytes NodeProperty = [write_u8 1]"
| "catalog_kind_bytes UniqueNodeProperty = [write_u8 3]"
| "catalog_kind_bytes (VectorIndex dimensions metric) =
     [write_u8 2, write_u64 dimensions] @ catalog_string_bytes metric"

definition catalog_index_bytes :: "index_definition \<Rightarrow> bytes list" where
  "catalog_index_bytes ix =
     catalog_string_bytes (ix_name ix) @ catalog_string_bytes (ix_label ix) @
     catalog_string_bytes (ix_property ix) @ catalog_kind_bytes (ix_kind ix)"

definition catalog_bytes :: "index_catalog \<Rightarrow> written" where
  "catalog_bytes c = emit_list (map emit (
     [catalog_magic, write_u64 (catalog_version c), write_u64 (of_nat (length (catalog_indexes c)))] @
     concat (map catalog_index_bytes (catalog_indexes c))))"

definition catalog_save :: "index_catalog_store \<Rightarrow> index_catalog \<Rightarrow> unit io" where
  "catalog_save m c = replace_file (bin_tmp (ic_path m)) (ic_path m) (catalog_bytes c)"

definition map_truncated :: "string \<Rightarrow> storage_error" where
  "map_truncated field = CorruptStore (''truncated '' @ field)"

definition catalog_u64 :: "u64 rd" where
  "catalog_u64 = file_u64 (map_truncated ''index catalog u64'')"

definition catalog_string :: "string rd" where
  "catalog_string = rd_bind catalog_u64 (\<lambda>len.
     rd_bind (file_read_exact (map_truncated ''index catalog string'') (unat len)) (\<lambda>bs.
     if valid_utf8 bs then rd_return (of_bytes bs)
     else rd_error (CorruptStore ''index catalog string is not utf-8'')))"

definition catalog_kind :: "index_kind rd" where
  "catalog_kind = rd_bind (file_u8 (map_truncated ''index catalog u8'')) (\<lambda>tag.
     if tag = 1 then rd_return NodeProperty
     else if tag = 2 then rd_bind catalog_u64 (\<lambda>dimensions. rd_bind catalog_string (\<lambda>metric.
       rd_return (VectorIndex dimensions metric)))
     else if tag = 3 then rd_return UniqueNodeProperty
     else rd_error (CorruptStore (''unknown index kind '' @ show_nat (unat tag))))"

definition catalog_index :: "index_definition rd" where
  "catalog_index = rd_bind catalog_string (\<lambda>name. rd_bind catalog_string (\<lambda>label.
     rd_bind catalog_string (\<lambda>prop. rd_bind catalog_kind (\<lambda>kind.
     rd_return \<lparr>ix_name = name, ix_label = label, ix_property = prop, ix_kind = kind\<rparr>))))"

definition catalog_read :: "index_catalog rd" where
  "catalog_read =
     rd_bind (file_header (CorruptStore ''missing index catalog header'')
               (CorruptStore ''invalid index catalog header'') catalog_magic) (\<lambda>_.
     rd_bind catalog_u64 (\<lambda>version. rd_bind catalog_u64 (\<lambda>index_count.
     rd_bind (rd_times (unat index_count) catalog_index) (\<lambda>indexes.
     rd_return \<lparr>catalog_version = version, catalog_indexes = indexes\<rparr>))))"

definition catalog_parse :: "bytes \<Rightarrow> storage_error + index_catalog" where
  "catalog_parse = read_file (then_eof (CorruptStore ''trailing index catalog bytes'') catalog_read)"

definition catalog_load :: "index_catalog_store \<Rightarrow> fs \<Rightarrow> storage_error + index_catalog option" where
  "catalog_load m = load_file catalog_parse (ic_path m)"

section \<open>Round trips\<close>

lemma length_magics [simp]:
  "length commit_magic = 8" "length checkpoint_magic_v1 = 8" "length checkpoint_magic_v2 = 8"
  "length routing_magic = 7" "length catalog_magic = 7"
  by (simp_all add: commit_magic_def checkpoint_magic_v1_def checkpoint_magic_v2_def routing_magic_def catalog_magic_def)

lemma commit_roundtrip:
  "commit_parse s (emitted (commit_bytes s (term, index))) = Inr \<lparr>lc_shard_id = s, lc_term = term, lc_index = index\<rparr>"
proof -
  have "reads (commit_read s) (commit_magic @ write_u64 s @ write_u64 term @ write_u64 index)
      \<lparr>lc_shard_id = s, lc_term = term, lc_index = index\<rparr>"
    unfolding commit_read_def Let_def
    by (intro reads_bind [OF reads_header] reads_bind [OF reads_file_prim(3)], simp)
       (intro reads_bind [OF reads_file_prim(3)] reads_map [OF reads_file_prim(3)], simp)
  then show ?thesis
    using emit_list_emits [of "[commit_magic, write_u64 s, write_u64 term, write_u64 index]"]
    by (simp add: commit_parse_def then_eof_reads commit_bytes_def emitted_def)
qed

lemma reads_checkpoint_header:
  "reads checkpoint_read_header checkpoint_magic_v1 CheckpointV1"
  "reads checkpoint_read_header checkpoint_magic_v2 CheckpointV2"
  unfolding checkpoint_read_header_def
  by (rule reads_map [OF reads_file_exact], simp, simp add: checkpoint_magic_v1_def checkpoint_magic_v2_def)+

lemma rd_bind_reads_new:
  assumes "reads f bs v" and "length (bs @ cs) < 2 ^ 64"
  shows "rd_bind f g (new_reader (bs @ cs)) = g v \<lparr>rd_input = bs @ cs, rd_position = length bs\<rparr>"
  using assms(1) [unfolded reads_def, rule_format, of "[]" cs] assms(2)
  by (simp add: rd_bind_def new_reader_def)

lemma checkpoint_parse_prefix:
  assumes "reads checkpoint_read_header magic version" and "length magic = 8" and "length ts < 100"
  shows "checkpoint_parse s (magic @ write_u64 s @ write_u64 term @ write_u64 index @ ts) =
    read_file (then_eof (CorruptSnapshot ''trailing checkpoint bytes'') (rd_bind (read_checkpoint_timestamp version)
      (\<lambda>x. rd_return \<lparr>lp_shard_id = s, lp_last_applied_term = term, lp_last_applied_index = index, lp_timestamp = x\<rparr>))) ts"
    (is "_ = ?rhs")
proof -
  let ?k = "\<lambda>term index x. \<lparr>lp_shard_id = s, lp_last_applied_term = term, lp_last_applied_index = index, lp_timestamp = x\<rparr>"
  let ?pre = "magic @ write_u64 s @ write_u64 term @ write_u64 index"
  let ?read3 = "rd_bind checkpoint_read_header (\<lambda>version. rd_bind (file_u64 (CorruptSnapshot ''truncated checkpoint u64'')) (\<lambda>shard_id.
      if shard_id \<noteq> s then rd_error (WrongShard s shard_id) else
      rd_bind (file_u64 (CorruptSnapshot ''truncated checkpoint u64'')) (\<lambda>term.
      rd_bind (file_u64 (CorruptSnapshot ''truncated checkpoint u64'')) (\<lambda>index. rd_return (version, term, index)))))"
  have split: "checkpoint_read s = rd_bind ?read3 (\<lambda>(version, term, index).
      rd_bind (read_checkpoint_timestamp version) (\<lambda>x. rd_return (?k term index x)))"
    by (auto simp: checkpoint_read_def Let_def rd_bind_def rd_return_def rd_error_def fun_eq_iff
        split: sum.splits prod.splits if_splits)
  have reads: "reads ?read3 ?pre (version, term, index)"
    by (intro reads_bind [OF assms(1)] reads_bind [OF reads_file_prim(3)], simp)
       (intro reads_bind [OF reads_file_prim(3)] reads_map [OF reads_file_prim(3)], simp)
  have "?read3 (new_reader (?pre @ ts)) = Inr ((version, term, index), \<lparr>rd_input = ?pre @ ts, rd_position = length ?pre\<rparr>)"
    using reads [unfolded reads_def, rule_format, of "[]" ts] assms(2,3) by (simp add: new_reader_def)
  then show ?thesis
    unfolding checkpoint_parse_def then_eof_def split
    by (simp add: rd_bind_def [of ?read3] rd_bind_def [of "rd_bind ?read3 _"] read_file_def)
       (simp add: rd_bind_def read_checkpoint_timestamp_def file_read_to_end_def new_reader_def file_eof_def
         rd_return_def rd_error_def)
qed

lemma checkpoint_roundtrip:
  "checkpoint_parse s (emitted (checkpoint_bytes s (term, index, ts))) =
     Inr \<lparr>lp_shard_id = s, lp_last_applied_term = term, lp_last_applied_index = index, lp_timestamp = ts\<rparr>"
proof -
  have "ucast (ucast (logical ts) :: u64) = logical ts" by (rule bit_word_eqI) (simp add: bit_simps)
  then show ?thesis
    using checkpoint_parse_prefix [OF reads_checkpoint_header(2), of "write_u64 (physical_ms ts) @ write_u64 (ucast (logical ts))" s "term" index]
      emit_list_emits [of "[checkpoint_magic_v2, write_u64 s, write_u64 term, write_u64 index,
        write_u64 (physical_ms ts), write_u64 (ucast (logical ts))]"]
    by (simp add: checkpoint_bytes_def emitted_def read_file_def then_eof_def rd_bind_def read_checkpoint_timestamp_def
        file_read_to_end_def new_reader_def file_eof_def rd_return_def write_u64_def)
qed

lemma checkpoint_legacy:
  "checkpoint_parse s (checkpoint_magic_v1 @ write_u64 s @ write_u64 term @ write_u64 index) =
     Inr \<lparr>lp_shard_id = s, lp_last_applied_term = term, lp_last_applied_index = index, lp_timestamp = timestamp_zero\<rparr>"
  using checkpoint_parse_prefix [OF reads_checkpoint_header(1), of "[]" s "term" index]
  by (simp add: read_file_def then_eof_def rd_bind_def read_checkpoint_timestamp_def
      file_read_to_end_def new_reader_def file_eof_def rd_return_def)

lemma unat_of_nat_u64: "n < 2 ^ 64 \<Longrightarrow> unat (of_nat n :: u64) = n"
  by (simp add: unsigned_of_nat take_bit_nat_eq_self)

lemma reads_counted_u64:
  assumes "length xs < 2 ^ 64" and "\<And>x. x \<in> set xs \<Longrightarrow> reads f (enc x) x" and "g xs = rd_return w"
  shows "reads (rd_bind (file_u64 e) (\<lambda>len. rd_bind (rd_times (unat len) f) g))
    (write_u64 (of_nat (length xs)) @ concat (map enc xs)) w"
  by (rule reads_bind [OF reads_file_prim(3)], unfold unat_of_nat_u64 [OF assms(1)])
     (rule reads_map [of _ _ xs], rule reads_times [OF assms(2)], assumption, rule assms(3))

lemma concat_concat_map: "concat (concat (map f xs)) = concat (map (\<lambda>x. concat (f x)) xs)"
  by (induction xs) auto

lemma decode_encode_role: "lift_rd (decode_role (encode_role role)) = rd_return role"
  by (cases role) (simp_all add: decode_role_def lift_rd_def)

lemma rd_bind_return [simp]: "rd_bind (rd_return x) g = g x"
  by (simp add: rd_bind_def rd_return_def)

lemma record_eta [simp]:
  "\<lparr>replica_server_id = replica_server_id r, replica_role = replica_role r\<rparr> = r"
  "\<lparr>placement_shard_id = placement_shard_id p, placement_replicas = placement_replicas p\<rparr> = p"
  "\<lparr>table_version = table_version t, table_placements = table_placements t\<rparr> = t"
  "\<lparr>ix_name = ix_name x, ix_label = ix_label x, ix_property = ix_property x, ix_kind = ix_kind x\<rparr> = x"
  "\<lparr>catalog_version = catalog_version c, catalog_indexes = catalog_indexes c\<rparr> = c"
  by (cases r; cases p; cases t; cases x; cases c; simp)+

lemma reads_routing_replica: "reads routing_read_replica (concat (routing_replica_bytes r)) r"
  unfolding routing_read_replica_def routing_replica_bytes_def routing_u64_def
  by (simp, intro reads_bind [OF reads_file_prim(3)] reads_map [OF reads_file_prim(1)])
     (simp add: decode_encode_role)

definition wf_routing :: "shard_routing_table \<Rightarrow> bool" where
  "wf_routing t \<longleftrightarrow> length (table_placements t) < 2 ^ 64 \<and>
     list_all (\<lambda>p. length (placement_replicas p) < 2 ^ 64) (table_placements t) \<and>
     length (emitted (routing_bytes t)) < 2 ^ 64"

lemma reads_routing_placement_bytes:
  "length (placement_replicas p) < 2 ^ 64 \<Longrightarrow> reads routing_read_placement (concat (routing_placement_bytes p)) p"
  unfolding routing_read_placement_def routing_placement_bytes_def routing_u64_def
  by (simp add: concat_concat_map, rule reads_bind [OF reads_file_prim(3)], rule reads_counted_u64)
     (simp_all add: reads_routing_replica)

lemma routing_roundtrip: "wf_routing t \<Longrightarrow> routing_parse (emitted (routing_bytes t)) = Inr t"
proof -
  assume wf: "wf_routing t"
  have out: "emitted (routing_bytes t) = routing_magic @ write_u64 (table_version t) @
      write_u64 (of_nat (length (table_placements t))) @
      concat (map (\<lambda>p. concat (routing_placement_bytes p)) (table_placements t))"
    unfolding routing_bytes_def emit_list_emits by (simp add: emitted_def concat_concat_map)
  have "reads routing_read (emitted (routing_bytes t)) t"
    unfolding out routing_read_def routing_u64_def using wf
    by (intro reads_bind [OF reads_header], intro reads_bind [OF reads_file_prim(3) reads_counted_u64])
       (auto simp: wf_routing_def list_all_iff reads_routing_placement_bytes)
  then show ?thesis using wf by (simp add: routing_parse_def then_eof_reads wf_routing_def)
qed

fun wf_index_kind :: "index_kind \<Rightarrow> bool" where
  "wf_index_kind (VectorIndex dimensions metric) = (valid_string metric \<and> length metric < 2 ^ 64)"
| "wf_index_kind _ = True"

definition wf_index :: "index_definition \<Rightarrow> bool" where
  "wf_index ix \<longleftrightarrow> list_all (\<lambda>s. valid_string s \<and> length s < 2 ^ 64) [ix_name ix, ix_label ix, ix_property ix] \<and>
     wf_index_kind (ix_kind ix)"

definition wf_catalog :: "index_catalog \<Rightarrow> bool" where
  "wf_catalog c \<longleftrightarrow> length (catalog_indexes c) < 2 ^ 64 \<and> list_all wf_index (catalog_indexes c) \<and>
     length (emitted (catalog_bytes c)) < 2 ^ 64"

lemma reads_catalog_string:
  "valid_string s \<Longrightarrow> length s < 2 ^ 64 \<Longrightarrow> reads catalog_string (concat (catalog_string_bytes s)) s"
  unfolding catalog_string_def catalog_string_bytes_def catalog_u64_def
  by (simp, rule reads_bind [OF reads_file_prim(3)], rule reads_map [OF reads_file_exact])
     (simp_all add: unat_of_nat_u64 valid_string_def)

lemma reads_catalog_kind: "wf_index_kind k \<Longrightarrow> reads catalog_kind (concat (catalog_kind_bytes k)) k"
proof (cases k)
  case (VectorIndex dimensions metric)
  moreover assume "wf_index_kind k"
  ultimately show ?thesis
    unfolding catalog_kind_def
    by (simp, intro reads_bind [OF reads_file_prim(1)])
       (simp add: catalog_u64_def, intro reads_bind [OF reads_file_prim(3)] reads_map [OF reads_catalog_string], simp_all)
qed (simp_all add: catalog_kind_def reads_map [OF reads_file_prim(1)])

lemma reads_catalog_index: "wf_index ix \<Longrightarrow> reads catalog_index (concat (catalog_index_bytes ix)) ix"
  unfolding catalog_index_def catalog_index_bytes_def
  by (simp only: concat_append, intro reads_bind [OF reads_catalog_string] reads_map [OF reads_catalog_kind])
     (simp_all add: wf_index_def)

lemma catalog_roundtrip: "wf_catalog c \<Longrightarrow> catalog_parse (emitted (catalog_bytes c)) = Inr c"
proof -
  assume wf: "wf_catalog c"
  have out: "emitted (catalog_bytes c) = catalog_magic @ write_u64 (catalog_version c) @
      write_u64 (of_nat (length (catalog_indexes c))) @
      concat (map (\<lambda>ix. concat (catalog_index_bytes ix)) (catalog_indexes c))"
    unfolding catalog_bytes_def emit_list_emits by (simp add: emitted_def concat_concat_map)
  have "reads catalog_read (emitted (catalog_bytes c)) c"
    unfolding out catalog_read_def catalog_u64_def using wf
    by (intro reads_bind [OF reads_header], intro reads_bind [OF reads_file_prim(3) reads_counted_u64])
       (auto simp: wf_catalog_def list_all_iff reads_catalog_index)
  then show ?thesis using wf by (simp add: catalog_parse_def then_eof_reads wf_catalog_def)
qed

section \<open>The stores keep the contract\<close>

lemma bin_tmp_differs:
  "bin_tmp (commit_path d s) \<noteq> commit_path d s" "bin_tmp (checkpoint_path d s) \<noteq> checkpoint_path d s"
  "bin_tmp (routing_path d) \<noteq> routing_path d" "bin_tmp (catalog_path d) \<noteq> catalog_path d"
  unfolding bin_tmp_def commit_path_def checkpoint_path_def routing_path_def catalog_path_def
  by (rule tmp_differs, simp add: file_stem_def split_at_dot_def join_path_def)+

lemma bytes_total: "snd (commit_bytes s v) = None" "snd (checkpoint_bytes s w) = None"
    "snd (routing_bytes t) = None" "snd (catalog_bytes c) = None"
  using emit_list_emits
  by (simp_all add: commit_bytes_def checkpoint_bytes_def routing_bytes_def catalog_bytes_def emit_list_def emit_def
      emit_seq_def split: prod.splits)

interpretation commit_file: file_store "commit_path d s" "bin_tmp (commit_path d s)" "commit_bytes s"
    "commit_parse s" "\<lambda>(term, index). \<lparr>lc_shard_id = s, lc_term = term, lc_index = index\<rparr>" "\<lambda>_. True" for d s
  by unfold_locales (auto simp: bin_tmp_differs bytes_total commit_roundtrip)

interpretation checkpoint_file: file_store "checkpoint_path d s" "bin_tmp (checkpoint_path d s)" "checkpoint_bytes s"
    "checkpoint_parse s" "\<lambda>(term, index, ts). \<lparr>lp_shard_id = s, lp_last_applied_term = term,
      lp_last_applied_index = index, lp_timestamp = ts\<rparr>" "\<lambda>_. True" for d s
  by unfold_locales (auto simp: bin_tmp_differs bytes_total checkpoint_roundtrip)

interpretation routing_file: file_store "routing_path d" "bin_tmp (routing_path d)" routing_bytes routing_parse
    "\<lambda>t. t" wf_routing for d
  by unfold_locales (auto simp: bin_tmp_differs bytes_total routing_roundtrip)

interpretation catalog_file: file_store "catalog_path d" "bin_tmp (catalog_path d)" catalog_bytes catalog_parse
    "\<lambda>c. c" wf_catalog for d
  by unfold_locales (auto simp: bin_tmp_differs bytes_total catalog_roundtrip)

section \<open>Properties\<close>

text \<open>A data directory in which the file \<open>p\<close> can be saved and was synced by whoever wrote it last.\<close>

definition save_ready :: "path \<Rightarrow> fs \<Rightarrow> bool" where
  "save_ready p f \<longleftrightarrow> replaceable (bin_tmp p) p f \<and> durable f p"

text \<open>
  C20. The positions that recovery starts from survive a crash. Wherever \<open>CommitStore::save\<close> or
  \<open>CheckpointStore::save_with_timestamp\<close> is interrupted, with any part of the unsynced data lost, the next
  \<open>load\<close> returns either what it would have returned before the save or exactly the new position; it never
  sees a torn file.
\<close>

theorem recovery_position_crash_atomic:
  assumes "save_ready (commit_path d s) f" and "save_ready (checkpoint_path d s) f"
  shows "(crashes_to (commit_save \<lparr>cs_shard_id = s, cs_path = commit_path d s\<rparr> term index) f f' \<longrightarrow>
      (let load = commit_load \<lparr>cs_shard_id = s, cs_path = commit_path d s\<rparr>
       in load f' = load f \<or> load f' = Inr (Some \<lparr>lc_shard_id = s, lc_term = term, lc_index = index\<rparr>))) \<and>
    (crashes_to (checkpoint_save_with_timestamp \<lparr>cps_shard_id = s, cps_path = checkpoint_path d s\<rparr> term index ts) f f' \<longrightarrow>
      (let load = checkpoint_load \<lparr>cps_shard_id = s, cps_path = checkpoint_path d s\<rparr>
       in load f' = load f \<or> load f' = Inr (Some \<lparr>lp_shard_id = s, lp_last_applied_term = term,
            lp_last_applied_index = index, lp_timestamp = ts\<rparr>)))"
  using assms commit_file.crash_atomic [where v = "(term, index)" and d = d and s = s and f = f and f' = f']
    checkpoint_file.crash_atomic [where v = "(term, index, ts)" and d = d and s = s and f = f and f' = f']
  by (simp add: save_ready_def commit_save_def commit_load_def checkpoint_save_with_timestamp_def checkpoint_load_def)

definition sample_fs :: fs where
  "sample_fs = io_final (create_dir_all (shard_dir [''data''] 3)) \<lparr>fs_dirs = {|[]|}, fs_files = fmempty\<rparr>"

lemma sample_fs_ready: "save_ready (commit_path [''data''] 3) sample_fs" "save_ready (checkpoint_path [''data''] 3) sample_fs"
proof -
  have dirs: "fs_dirs sample_fs = {|[], [''data''], [''data'', ''shards''], [''data'', ''shards'', ''3'']|}"
    and files: "fs_files sample_fs = fmempty" by code_simp+
  have tmp: "bin_tmp [''data'', ''shards'', ''3'', ''commit.bin''] = [''data'', ''shards'', ''3'', ''commit.bin.tmp'']"
    "bin_tmp [''data'', ''shards'', ''3'', ''checkpoint.bin''] = [''data'', ''shards'', ''3'', ''checkpoint.bin.tmp'']"
    "commit_path [''data''] 3 = [''data'', ''shards'', ''3'', ''commit.bin'']"
    "checkpoint_path [''data''] 3 = [''data'', ''shards'', ''3'', ''checkpoint.bin'']" by code_simp+
  show "save_ready (commit_path [''data''] 3) sample_fs" "save_ready (checkpoint_path [''data''] 3) sample_fs"
    by (simp_all add: save_ready_def replaceable_def tmp dirs files dir_exists_def durable_def parent_def)
qed

text \<open>A crash after the temporary file has been written but before it is synced.\<close>

definition torn_fs :: fs where
  "torn_fs = set_file (bin_tmp (commit_path [''data''] 3)) \<lparr>i_data = [78], i_synced = 1\<rparr> sample_fs"

lemma torn_fs_crash: "crashes_to (commit_save \<lparr>cs_shard_id = 3, cs_path = commit_path [''data''] 3\<rparr> 7 42) sample_fs torn_fs"
proof -
  let ?tmp = "bin_tmp (commit_path [''data''] 3)"
  let ?g = "set_file ?tmp \<lparr>i_data = commit_magic, i_synced = 0\<rparr> sample_fs"
  have "?g \<in> set (io_trace (commit_save \<lparr>cs_shard_id = 3, cs_path = commit_path [''data''] 3\<rparr> 7 42) sample_fs)"
    by code_simp
  moreover have "survives ?g torn_fs"
  proof -
    have "fs_files sample_fs = fmempty" by code_simp
    moreover have "take 1 commit_magic = [78]" by code_simp
    ultimately show ?thesis by (auto simp: survives_def torn_fs_def intro!: exI [of _ 1])
  qed
  ultimately show ?thesis by (auto simp: crashes_to_def crash_points_def)
qed

theorem recovery_position_crash_atomic_witness:
  "commit_load \<lparr>cs_shard_id = 3, cs_path = commit_path [''data''] 3\<rparr> torn_fs = Inr None \<or>
   commit_load \<lparr>cs_shard_id = 3, cs_path = commit_path [''data''] 3\<rparr> torn_fs =
     Inr (Some \<lparr>lc_shard_id = 3, lc_term = 7, lc_index = 42\<rparr>)"
proof -
  have "commit_load \<lparr>cs_shard_id = 3, cs_path = commit_path [''data''] 3\<rparr> sample_fs = Inr None" by code_simp
  then show ?thesis
    using recovery_position_crash_atomic [OF sample_fs_ready, of 7 42 torn_fs timestamp_zero] torn_fs_crash
    by (simp add: Let_def)
qed

text \<open>
  C30. What is saved is loaded: after a successful save the commit index, the checkpoint with its timestamp,
  the routing table and the index catalog come back unchanged, for tables and catalogs whose sizes fit the
  64-bit length fields; the file is synced when \<open>save\<close> returns. A checkpoint of the first format, which has no
  timestamp, loads with the zero timestamp.
\<close>

theorem metadata_save_load:
  assumes "replaceable (bin_tmp (commit_path d s)) (commit_path d s) f"
    and "replaceable (bin_tmp (checkpoint_path d s)) (checkpoint_path d s) f"
    and "replaceable (bin_tmp (routing_path d)) (routing_path d) f" and "wf_routing table"
    and "replaceable (bin_tmp (catalog_path d)) (catalog_path d) f" and "wf_catalog catalog"
  shows "(\<exists>f'. io_run (commit_save \<lparr>cs_shard_id = s, cs_path = commit_path d s\<rparr> term index) f () f' \<and>
      commit_load \<lparr>cs_shard_id = s, cs_path = commit_path d s\<rparr> f' =
        Inr (Some \<lparr>lc_shard_id = s, lc_term = term, lc_index = index\<rparr>) \<and> durable f' (commit_path d s)) \<and>
    (\<exists>f'. io_run (checkpoint_save_with_timestamp \<lparr>cps_shard_id = s, cps_path = checkpoint_path d s\<rparr> term index ts) f () f' \<and>
      checkpoint_load \<lparr>cps_shard_id = s, cps_path = checkpoint_path d s\<rparr> f' =
        Inr (Some \<lparr>lp_shard_id = s, lp_last_applied_term = term, lp_last_applied_index = index, lp_timestamp = ts\<rparr>) \<and>
      durable f' (checkpoint_path d s)) \<and>
    (\<exists>f'. io_run (routing_save \<lparr>sm_path = routing_path d\<rparr> table) f () f' \<and>
      routing_load \<lparr>sm_path = routing_path d\<rparr> f' = Inr (Some table) \<and> durable f' (routing_path d)) \<and>
    (\<exists>f'. io_run (catalog_save \<lparr>ic_path = catalog_path d\<rparr> catalog) f () f' \<and>
      catalog_load \<lparr>ic_path = catalog_path d\<rparr> f' = Inr (Some catalog) \<and> durable f' (catalog_path d)) \<and>
    checkpoint_parse s (checkpoint_magic_v1 @ write_u64 s @ write_u64 term @ write_u64 index) =
      Inr \<lparr>lp_shard_id = s, lp_last_applied_term = term, lp_last_applied_index = index, lp_timestamp = timestamp_zero\<rparr>"
  unfolding commit_save_def commit_load_def checkpoint_save_with_timestamp_def checkpoint_load_def
    routing_save_def routing_load_def catalog_save_def catalog_load_def
  using commit_file.load_after_save [OF _ assms(1), of "(term, index)"]
    checkpoint_file.load_after_save [OF _ assms(2), of "(term, index, ts)"]
    routing_file.load_after_save [OF assms(4,3)] catalog_file.load_after_save [OF assms(6,5)]
  by (intro conjI) (simp_all add: checkpoint_legacy)

definition sample_table :: shard_routing_table where
  "sample_table = \<lparr>table_version = 4, table_placements =
     [\<lparr>placement_shard_id = 0, placement_replicas =
        [\<lparr>replica_server_id = 10, replica_role = Primary\<rparr>, \<lparr>replica_server_id = 11, replica_role = Replica\<rparr>]\<rparr>]\<rparr>"

definition sample_catalog :: index_catalog where
  "sample_catalog = \<lparr>catalog_version = 2, catalog_indexes =
     [node_property ''by_name'' ''P'' ''name'', vector_index ''v'' ''P'' ''e'' 3 ''cosine'']\<rparr>"

definition sample_dirs :: fs where
  "sample_dirs = io_final (io_seq (create_dir_all [''cluster'']) (create_dir_all [''indexes'']))
     (io_final (create_dir_all (shard_dir [] 3)) \<lparr>fs_dirs = {|[]|}, fs_files = fmempty\<rparr>)"

lemma sample_sizes: "length (emitted (routing_bytes sample_table)) = 57" "length (emitted (catalog_bytes sample_catalog)) = 110"
  by code_simp+

theorem metadata_save_load_witness:
  "\<exists>f'. io_run (catalog_save \<lparr>ic_path = catalog_path []\<rparr> sample_catalog) sample_dirs () f' \<and>
     catalog_load \<lparr>ic_path = catalog_path []\<rparr> f' = Inr (Some sample_catalog) \<and> durable f' (catalog_path [])"
proof -
  have "replaceable (bin_tmp (commit_path [] 3)) (commit_path [] 3) sample_dirs"
    "replaceable (bin_tmp (checkpoint_path [] 3)) (checkpoint_path [] 3) sample_dirs"
    "replaceable (bin_tmp (routing_path [])) (routing_path []) sample_dirs"
    "replaceable (bin_tmp (catalog_path [])) (catalog_path []) sample_dirs" by code_simp+
  moreover have "wf_routing sample_table"
    by (simp add: wf_routing_def sample_sizes) (simp add: sample_table_def)
  moreover have "wf_catalog sample_catalog"
  proof -
    have "list_all (\<lambda>s. valid_string s) [''by_name'', ''P'', ''name'', ''v'', ''e'', ''cosine'']" by code_simp
    then show ?thesis
      by (simp add: wf_catalog_def sample_sizes)
         (simp add: sample_catalog_def wf_index_def node_property_def vector_index_def)
  qed
  ultimately show ?thesis
    using metadata_save_load [of "[]" 3 sample_dirs sample_table sample_catalog] by blast
qed

end
