(* ===== verification/Snapshot_Store.thy ===== *)
theory Snapshot_Store
  imports Meta_Stores Graph_Read
begin

text \<open>
  Shard snapshots (\<open>snapshot.rs\<close>): the graph is written as three counted sections of commands and read
  back by applying them to an empty graph. The abstract graph survives the round trip, provided that every
  relationship is listed at its target; the allocation counters and the order of the adjacency lists do not.
\<close>

section \<open>The store\<close>

record snapshot_store =
  ss_shard_id :: shard_id
  ss_path :: path

record loaded_snapshot =
  ls_shard_id :: shard_id
  ls_last_included_term :: u64
  ls_last_included_index :: u64
  ls_graph :: graph_state

definition snapshot_magic :: bytes where
  "snapshot_magic = as_bytes (''N4RSNP1'' @ [CHR 0x0A])"

definition snapshot_path :: "path \<Rightarrow> shard_id \<Rightarrow> path" where
  "snapshot_path data_dir s = join_path (shard_dir data_dir s) ''snapshot.bin''"

definition snapshot_open :: "path \<Rightarrow> shard_id \<Rightarrow> snapshot_store io" where
  "snapshot_open data_dir s =
     io_seq (create_dir_all (shard_dir data_dir s))
       (io_return \<lparr>ss_shard_id = s, ss_path = snapshot_path data_dir s\<rparr>)"

definition snapshot_u32 :: "nat \<Rightarrow> written" where
  "snapshot_u32 n =
     (if fits_u32 n then emit (write_u32 (of_nat n))
      else emit_fail (CorruptSnapshot ''snapshot section is too large''))"

definition snapshot_write_command :: "command \<Rightarrow> written list" where
  "snapshot_write_command c = [snapshot_u32 (length (encode_command c)), emit (encode_command c)]"

definition snapshot_section :: "command list \<Rightarrow> written list" where
  "snapshot_section cs = snapshot_u32 (length cs) # concat (map snapshot_write_command cs)"

definition node_commands :: "graph_state \<Rightarrow> command list" where
  "node_commands g = map (\<lambda>n. CreateNode (node_id n) (node_labels n) (node_properties n))
     (sort_key node_id (map snd (hm_iter (nodes g))))"

definition boundary_commands :: "graph_state \<Rightarrow> command list" where
  "boundary_commands g =
     map (\<lambda>n. UpsertBoundaryNode (bn_id n) (bn_owner_shard n) (bn_labels n) (bn_properties n) (bn_version n))
       (sort_key bn_id (map snd (hm_iter (boundary_nodes g))))"

definition relationship_commands :: "graph_state \<Rightarrow> command list" where
  "relationship_commands g =
     map (\<lambda>r. CreateRelationship (rel_id r) (rel_from r) (rel_to r) (rel_type r) (rel_properties r))
       (sort_key rel_id (map snd (hm_iter (relationships g))))"

definition snapshot_bytes :: "shard_id \<Rightarrow> graph_state \<times> u64 \<times> u64 \<Rightarrow> written" where
  "snapshot_bytes s v = (case v of (g, term, index) \<Rightarrow> emit_list (
     [emit snapshot_magic, emit (write_u64 s), emit (write_u64 term), emit (write_u64 index)] @
     snapshot_section (node_commands g) @ snapshot_section (boundary_commands g) @
     snapshot_section (relationship_commands g)))"

definition snapshot_save :: "snapshot_store \<Rightarrow> graph_state \<Rightarrow> u64 \<Rightarrow> u64 \<Rightarrow> unit io" where
  "snapshot_save st g term index =
     replace_file (bin_tmp (ss_path st)) (ss_path st) (snapshot_bytes (ss_shard_id st) (g, term, index))"

definition snapshot_save_payload :: "snapshot_store \<Rightarrow> bytes \<Rightarrow> unit io" where
  "snapshot_save_payload st payload = replace_file (bin_tmp (ss_path st)) (ss_path st) (emit payload)"

definition snapshot_load_payload :: "snapshot_store \<Rightarrow> fs \<Rightarrow> storage_error + bytes option" where
  "snapshot_load_payload st = load_file Inr (ss_path st)"

definition snapshot_read_u32 :: "u32 rd" where
  "snapshot_read_u32 = file_u32 (CorruptSnapshot ''truncated u32'')"

definition snapshot_read_command :: "command rd" where
  "snapshot_read_command = rd_bind snapshot_read_u32 (\<lambda>len.
     rd_bind (file_read_exact (CorruptSnapshot ''truncated command payload'') (unat len)) (\<lambda>payload.
     lift_rd (decode_command payload)))"

text \<open>The body of the three loops: the command must be of the section's kind and apply cleanly.\<close>

definition snapshot_apply :: "(command \<Rightarrow> bool) \<Rightarrow> string \<Rightarrow> command \<Rightarrow> graph_state \<Rightarrow> storage_error + graph_state" where
  "snapshot_apply kind what c g =
     (if kind c
      then (case apply_command c g of
              (Inl e, _) \<Rightarrow> Inl (CorruptSnapshot (''invalid '' @ what @ '' command: '' @ display_graph_error e))
            | (Inr _, g') \<Rightarrow> Inr g')
      else Inl (CorruptSnapshot (''expected '' @ what @ '' command'')))"

fun snapshot_loop :: "nat \<Rightarrow> (command \<Rightarrow> graph_state \<Rightarrow> storage_error + graph_state) \<Rightarrow> graph_state \<Rightarrow> graph_state rd" where
  "snapshot_loop 0 body g = rd_return g"
| "snapshot_loop (Suc n) body g =
     rd_bind snapshot_read_command (\<lambda>c. rd_bind (lift_rd (body c g)) (snapshot_loop n body))"

definition snapshot_read_section ::
  "(command \<Rightarrow> bool) \<Rightarrow> string \<Rightarrow> graph_state \<Rightarrow> graph_state rd" where
  "snapshot_read_section kind what g =
     rd_bind snapshot_read_u32 (\<lambda>count. snapshot_loop (unat count) (snapshot_apply kind what) g)"

definition is_create_node :: "command \<Rightarrow> bool" where
  "is_create_node c = (case c of CreateNode _ _ _ \<Rightarrow> True | _ \<Rightarrow> False)"

definition is_upsert_boundary :: "command \<Rightarrow> bool" where
  "is_upsert_boundary c = (case c of UpsertBoundaryNode _ _ _ _ _ \<Rightarrow> True | _ \<Rightarrow> False)"

definition is_create_relationship :: "command \<Rightarrow> bool" where
  "is_create_relationship c = (case c of CreateRelationship _ _ _ _ _ \<Rightarrow> True | _ \<Rightarrow> False)"

definition snapshot_read :: "shard_id \<Rightarrow> loaded_snapshot rd" where
  "snapshot_read s =
     (let u64 = file_u64 (CorruptSnapshot ''truncated u64'')
      in rd_bind (file_header (CorruptSnapshot ''missing header'') (CorruptSnapshot ''invalid header'') snapshot_magic) (\<lambda>_.
         rd_bind u64 (\<lambda>shard_id.
         if shard_id \<noteq> s then rd_error (WrongShard s shard_id)
         else rd_bind u64 (\<lambda>term. rd_bind u64 (\<lambda>index.
           rd_bind (snapshot_read_section is_create_node ''node'' new_graph) (\<lambda>g1.
           rd_bind (snapshot_read_section is_upsert_boundary ''boundary node'' g1) (\<lambda>g2.
           rd_bind (snapshot_read_section is_create_relationship ''relationship'' g2) (\<lambda>g3.
           rd_return \<lparr>ls_shard_id = shard_id, ls_last_included_term = term, ls_last_included_index = index,
                      ls_graph = g3\<rparr>))))))))"

definition snapshot_parse :: "shard_id \<Rightarrow> bytes \<Rightarrow> storage_error + loaded_snapshot" where
  "snapshot_parse s = read_file (then_eof (CorruptSnapshot ''trailing bytes'') (snapshot_read s))"

definition snapshot_load :: "snapshot_store \<Rightarrow> fs \<Rightarrow> storage_error + loaded_snapshot option" where
  "snapshot_load st = load_file (snapshot_parse (ss_shard_id st)) (ss_path st)"

section \<open>Reading a section back\<close>

text \<open>\<open>runs f cs g g'\<close>: the loop body takes the graph through the commands.\<close>

fun applies :: "(command \<Rightarrow> graph_state \<Rightarrow> storage_error + graph_state) \<Rightarrow> command list \<Rightarrow> graph_state \<Rightarrow> graph_state \<Rightarrow> bool" where
  "applies body [] g g' \<longleftrightarrow> g' = g"
| "applies body (c # cs) g g' \<longleftrightarrow> (\<exists>h. body c g = Inr h \<and> applies body cs h g')"

definition wf_commands :: "command list \<Rightarrow> bool" where
  "wf_commands cs \<longleftrightarrow> fits_u32 (length cs) \<and> list_all (\<lambda>c. wf_command c \<and> fits_u32 (length (encode_command c))) cs"

definition section_bytes :: "command list \<Rightarrow> bytes" where
  "section_bytes cs = write_u32 (of_nat (length cs)) @
     concat (map (\<lambda>c. write_u32 (of_nat (length (encode_command c))) @ encode_command c) cs)"

lemma reads_snapshot_command:
  assumes "wf_command c" and "fits_u32 (length (encode_command c))"
  shows "reads snapshot_read_command (write_u32 (of_nat (length (encode_command c))) @ encode_command c) c"
proof -
  have "length (encode_command c) < 2 ^ 64" using assms(2) by (simp add: fits_u32_def)
  then show ?thesis
    unfolding snapshot_read_command_def snapshot_read_u32_def using assms decode_command_ok
    by (intro reads_bind [OF reads_file_prim(2)] reads_map [OF reads_file_exact])
       (simp_all add: unat_of_nat_u32 lift_rd_def)
qed

lemma reads_snapshot_loop:
  assumes "list_all (\<lambda>c. wf_command c \<and> fits_u32 (length (encode_command c))) cs" and "applies body cs g g'"
  shows "reads (snapshot_loop (length cs) body g)
    (concat (map (\<lambda>c. write_u32 (of_nat (length (encode_command c))) @ encode_command c) cs)) g'"
  using assms
proof (induction cs arbitrary: g)
  case (Cons c cs)
  then obtain h where h: "body c g = Inr h" "applies body cs h g'" by auto
  have "reads (rd_bind (lift_rd (body c g)) (snapshot_loop (length cs) body))
      (concat (map (\<lambda>c. write_u32 (of_nat (length (encode_command c))) @ encode_command c) cs)) g'"
    using Cons h by (simp add: lift_rd_def)
  moreover have "reads snapshot_read_command (write_u32 (of_nat (length (encode_command c))) @ encode_command c) c"
    using Cons.prems(1) reads_snapshot_command by simp
  ultimately show ?case
    using reads_bind [where g = "\<lambda>c. rd_bind (lift_rd (body c g)) (snapshot_loop (length cs) body)" and v = c]
    by (simp del: append_assoc)
qed (simp add: reads_return)

lemma reads_snapshot_section:
  assumes "wf_commands cs" and "applies (snapshot_apply kind what) cs g g'"
  shows "reads (snapshot_read_section kind what g) (section_bytes cs) g'"
  using assms reads_snapshot_loop [of cs "snapshot_apply kind what" g g']
  unfolding snapshot_read_section_def section_bytes_def snapshot_read_u32_def wf_commands_def
  by (intro reads_bind [OF reads_file_prim(2)]) (simp add: unat_of_nat_u32)

lemma emitted_command:
  "fits_u32 (length (encode_command c)) \<Longrightarrow>
     snapshot_write_command c = map emit [write_u32 (of_nat (length (encode_command c))), encode_command c]"
  by (simp add: snapshot_write_command_def snapshot_u32_def)

lemma emitted_commands:
  assumes "list_all (\<lambda>c. wf_command c \<and> fits_u32 (length (encode_command c))) cs"
  shows "concat (map snapshot_write_command cs) =
    map emit (concat (map (\<lambda>c. [write_u32 (of_nat (length (encode_command c))), encode_command c]) cs))"
  using assms by (induction cs) (simp_all add: emitted_command)

lemma emitted_section:
  assumes "wf_commands cs"
  shows "snapshot_section cs = map emit (write_u32 (of_nat (length cs)) #
    concat (map (\<lambda>c. [write_u32 (of_nat (length (encode_command c))), encode_command c]) cs))"
  using assms emitted_commands by (simp add: snapshot_section_def snapshot_u32_def wf_commands_def)

lemma concat_section:
  "concat (write_u32 (of_nat (length cs)) #
     concat (map (\<lambda>c. [write_u32 (of_nat (length (encode_command c))), encode_command c]) cs)) = section_bytes cs"
proof -
  have "concat (concat (map (\<lambda>c. [write_u32 (of_nat (length (encode_command c))), encode_command c]) ds)) =
      concat (map (\<lambda>c. write_u32 (of_nat (length (encode_command c))) @ encode_command c) ds)" for ds
    by (induction ds) simp_all
  then show ?thesis by (simp add: section_bytes_def)
qed

section \<open>Replaying the sections\<close>

fun spec_ok :: "command list \<Rightarrow> agraph \<Rightarrow> bool" where
  "spec_ok [] a = True"
| "spec_ok (c # cs) a = (fst (spec_apply c a) = Inr () \<and> spec_ok cs (snd (spec_apply c a)))"

definition apply_commands :: "command list \<Rightarrow> graph_state \<Rightarrow> graph_state" where
  "apply_commands cs = fold (\<lambda>c g. snd (apply_command c g)) cs"

definition spec_commands :: "command list \<Rightarrow> agraph \<Rightarrow> agraph" where
  "spec_commands cs = fold (\<lambda>c a. snd (spec_apply c a)) cs"

lemma apply_commands_refine:
  assumes "graph_inv g" and "list_all kind cs" and "spec_ok cs (abs_graph g)"
  shows "applies (snapshot_apply kind what) cs g (apply_commands cs g) \<and> graph_inv (apply_commands cs g) \<and>
    abs_graph (apply_commands cs g) = spec_commands cs (abs_graph g)"
  using assms
proof (induction cs arbitrary: g)
  case (Cons c cs)
  let ?h = "snd (apply_command c g)"
  have ok: "fst (apply_command c g) = Inr ()" and abs: "abs_graph ?h = snd (spec_apply c (abs_graph g))"
    using apply_command_abs [OF Cons.prems(1), of c] Cons.prems(3) by simp_all
  have "snapshot_apply kind what c g = Inr ?h"
    using Cons.prems(2) ok by (cases "apply_command c g") (simp add: snapshot_apply_def)
  moreover have "graph_inv ?h" by (rule apply_command_graph_inv [OF Cons.prems(1)])
  ultimately show ?case
    using Cons.IH [of ?h] Cons.prems abs by (simp add: apply_commands_def spec_commands_def)
qed (simp add: apply_commands_def spec_commands_def)

text \<open>A map rebuilt from its values, visited in any order, is the map.\<close>

definition insert_values :: "('v \<Rightarrow> 'k) \<Rightarrow> 'v list \<Rightarrow> ('k \<rightharpoonup> 'v) \<Rightarrow> ('k \<rightharpoonup> 'v)" where
  "insert_values k xs = fold (\<lambda>x m. m(k x \<mapsto> x)) xs"

lemma insert_values_lookup:
  "distinct (map k xs) \<Longrightarrow> insert_values k xs m i = Some x \<longleftrightarrow>
     (x \<in> set xs \<and> k x = i) \<or> (i \<notin> k ` set xs \<and> m i = Some x)"
proof (induction xs arbitrary: m)
  case (Cons y ys)
  then show ?case by (auto simp: insert_values_def)
qed (simp add: insert_values_def)

definition values_sorted :: "('v \<Rightarrow> 'k::linorder) \<Rightarrow> ('k, 'v) fmap \<Rightarrow> 'v list" where
  "values_sorted k m = sort_key k (map snd (hm_iter m))"

lemma values_sorted:
  assumes "\<forall>i x. fmlookup m i = Some x \<longrightarrow> k x = i"
  shows "distinct (map k (values_sorted k m))"
    and "x \<in> set (values_sorted k m) \<longleftrightarrow> fmlookup m (k x) = Some x"
    and "insert_values k (values_sorted k m) Map.empty = fmlookup m"
proof -
  have keys: "map (k \<circ> snd) (hm_iter m) = map fst (hm_iter m)"
    using assms by (auto simp: set_hm_iter)
  have "mset (map k (values_sorted k m)) = mset (map fst (hm_iter m))"
    unfolding values_sorted_def by (simp add: keys [symmetric] comp_def multiset.map_comp)
  then show d: "distinct (map k (values_sorted k m))"
    using distinct_hm_iter mset_eq_imp_distinct_iff by blast
  have "x \<in> set (values_sorted k m) \<longleftrightarrow> (\<exists>i. fmlookup m i = Some x)" for x
    by (force simp: values_sorted_def set_hm_iter)
  then show mem: "x \<in> set (values_sorted k m) \<longleftrightarrow> fmlookup m (k x) = Some x" for x using assms by metis
  show "insert_values k (values_sorted k m) Map.empty = fmlookup m"
  proof
    fix i
    have "insert_values k (values_sorted k m) Map.empty i = Some x \<longleftrightarrow> fmlookup m i = Some x" for x
      using insert_values_lookup [OF d, of Map.empty i x] mem [of x] assms [rule_format, of i x] by (simp, blast)
    then show "insert_values k (values_sorted k m) Map.empty i = fmlookup m i" by (metis option.exhaust)
  qed
qed

lemma spec_create_nodes:
  assumes "distinct (map node_id ns)" and "\<forall>n \<in> set ns. ag_nodes a (node_id n) = None"
  defines "cs \<equiv> map (\<lambda>n. CreateNode (node_id n) (node_labels n) (node_properties n)) ns"
  shows "spec_ok cs a \<and> spec_commands cs a = a\<lparr>ag_nodes := insert_values node_id ns (ag_nodes a)\<rparr>"
  using assms(1,2) unfolding cs_def
proof (induction ns arbitrary: a)
  case (Cons n ns)
  have [simp]: "new_node (node_id n) (node_labels n) (node_properties n) = n" by (simp add: new_node_def)
  let ?b = "a\<lparr>ag_nodes := (ag_nodes a)(node_id n \<mapsto> n)\<rparr>"
  have "\<forall>m \<in> set ns. ag_nodes ?b (node_id m) = None" using Cons.prems by (auto simp: image_iff)
  then show ?case
    using Cons.IH [of ?b] Cons.prems by (simp add: spec_commands_def insert_values_def del: fun_upd_apply)
qed (simp add: spec_commands_def insert_values_def)

lemma spec_upsert_boundaries:
  defines "cs bs \<equiv> map (\<lambda>n. UpsertBoundaryNode (bn_id n) (bn_owner_shard n) (bn_labels n) (bn_properties n) (bn_version n)) bs"
  shows "spec_ok (cs bs) a \<and> spec_commands (cs bs) a = a\<lparr>ag_boundary := insert_values bn_id bs (ag_boundary a)\<rparr>"
  unfolding cs_def
proof (induction bs arbitrary: a)
  case (Cons b bs)
  have [simp]: "new_boundary_node (bn_id b) (bn_owner_shard b) (bn_labels b) (bn_properties b) (bn_version b) = b"
    by (simp add: new_boundary_node_def)
  show ?case
    using Cons.IH [of "a\<lparr>ag_boundary := (ag_boundary a)(bn_id b \<mapsto> b)\<rparr>"]
    by (simp add: spec_commands_def insert_values_def del: fun_upd_apply)
qed (simp add: spec_commands_def insert_values_def)

lemma spec_create_relationships:
  assumes "distinct (map rel_id rs)" and "\<forall>r \<in> set rs. ag_rels a (rel_id r) = None \<and> ag_nodes a (rel_from r) \<noteq> None \<and>
      (ag_nodes a (rel_to r) \<noteq> None \<or> ag_boundary a (rel_to r) \<noteq> None)"
  defines "cs \<equiv> map (\<lambda>r. CreateRelationship (rel_id r) (rel_from r) (rel_to r) (rel_type r) (rel_properties r)) rs"
  shows "spec_ok cs a \<and> spec_commands cs a = a\<lparr>ag_rels := insert_values rel_id rs (ag_rels a),
    ag_linked := ag_linked a \<union> {rid. \<exists>r \<in> set rs. rel_id r = rid \<and> ag_nodes a (rel_to r) \<noteq> None}\<rparr>"
  using assms(1,2) unfolding cs_def
proof (induction rs arbitrary: a)
  case (Cons r rs)
  have [simp]: "new_relationship (rel_id r) (rel_from r) (rel_to r) (rel_type r) (rel_properties r) = r"
    by (simp add: new_relationship_def)
  let ?b = "a\<lparr>ag_rels := (ag_rels a)(rel_id r \<mapsto> r), ag_linked := (if ag_nodes a (rel_to r) = None
    then ag_linked a else insert (rel_id r) (ag_linked a))\<rparr>"
  have step: "spec_apply (CreateRelationship (rel_id r) (rel_from r) (rel_to r) (rel_type r) (rel_properties r)) a =
      (Inr (), ?b)"
    using Cons.prems by auto
  have "ag_linked ?b \<union> {rid. \<exists>q \<in> set rs. rel_id q = rid \<and> ag_nodes a (rel_to q) \<noteq> None} =
      ag_linked a \<union> {rid. \<exists>q \<in> set (r # rs). rel_id q = rid \<and> ag_nodes a (rel_to q) \<noteq> None}"
    by auto
  moreover have "\<forall>q \<in> set rs. ag_rels ?b (rel_id q) = None \<and> ag_nodes ?b (rel_from q) \<noteq> None \<and>
      (ag_nodes ?b (rel_to q) \<noteq> None \<or> ag_boundary ?b (rel_to q) \<noteq> None)"
    using Cons.prems by (auto simp: image_iff)
  ultimately show ?case
    using Cons.IH [of ?b] Cons.prems(1) step
    by (simp add: spec_commands_def insert_values_def del: fun_upd_apply spec_apply.simps)
qed (simp add: spec_commands_def insert_values_def)

text \<open>The graph that a load rebuilds; its abstract graph is the saved one with every local target linked (\<open>link_all\<close>).\<close>

definition snapshot_graph :: "graph_state \<Rightarrow> graph_state" where
  "snapshot_graph g = apply_commands (relationship_commands g)
     (apply_commands (boundary_commands g) (apply_commands (node_commands g) new_graph))"

definition snapshot_ok :: "graph_state \<Rightarrow> bool" where
  "snapshot_ok g \<longleftrightarrow> graph_inv g \<and> wf_commands (node_commands g) \<and> wf_commands (boundary_commands g) \<and>
     wf_commands (relationship_commands g) \<and>
     32 + length (section_bytes (node_commands g) @ section_bytes (boundary_commands g) @
       section_bytes (relationship_commands g)) < 2 ^ 64"

lemma section_kinds:
  "list_all is_create_node (node_commands g)" "list_all is_upsert_boundary (boundary_commands g)"
  "list_all is_create_relationship (relationship_commands g)"
  by (simp_all add: list_all_iff node_commands_def boundary_commands_def relationship_commands_def
      is_create_node_def is_upsert_boundary_def is_create_relationship_def)

lemma abs_new_graph: "abs_graph new_graph = \<lparr>ag_nodes = Map.empty, ag_boundary = Map.empty, ag_rels = Map.empty, ag_linked = {}\<rparr>"
  by (simp add: abs_graph_def new_graph_def fun_eq_iff)

lemma node_section:
  assumes "graph_inv g"
  shows "spec_ok (node_commands g) (abs_graph new_graph)" and "spec_commands (node_commands g) (abs_graph new_graph) =
    \<lparr>ag_nodes = fmlookup (nodes g), ag_boundary = Map.empty, ag_rels = Map.empty, ag_linked = {}\<rparr>"
proof -
  have k: "\<forall>i x. fmlookup (nodes g) i = Some x \<longrightarrow> node_id x = i"
    using graph_invD(1) [OF assms] by (simp add: keyed_by_id_def)
  from spec_create_nodes [OF values_sorted(1) [OF k], of "abs_graph new_graph"] values_sorted(3) [OF k]
  show "spec_ok (node_commands g) (abs_graph new_graph)" "spec_commands (node_commands g) (abs_graph new_graph) =
    \<lparr>ag_nodes = fmlookup (nodes g), ag_boundary = Map.empty, ag_rels = Map.empty, ag_linked = {}\<rparr>"
    by (simp_all add: abs_new_graph node_commands_def values_sorted_def)
qed

lemma boundary_section:
  assumes "graph_inv g"
  shows "spec_ok (boundary_commands g) a"
    and "ag_boundary a = Map.empty \<Longrightarrow> spec_commands (boundary_commands g) a = a\<lparr>ag_boundary := fmlookup (boundary_nodes g)\<rparr>"
proof -
  have k: "\<forall>i x. fmlookup (boundary_nodes g) i = Some x \<longrightarrow> bn_id x = i"
    using graph_invD(1) [OF assms] by (simp add: keyed_by_id_def)
  from spec_upsert_boundaries [of "values_sorted bn_id (boundary_nodes g)" a] values_sorted(3) [OF k]
  show "spec_ok (boundary_commands g) a"
    "ag_boundary a = Map.empty \<Longrightarrow> spec_commands (boundary_commands g) a = a\<lparr>ag_boundary := fmlookup (boundary_nodes g)\<rparr>"
    by (simp_all add: boundary_commands_def values_sorted_def)
qed

lemma relationship_section:
  assumes g: "graph_inv g" and a: "ag_nodes a = fmlookup (nodes g)" "ag_boundary a = fmlookup (boundary_nodes g)"
    "ag_rels a = Map.empty" "ag_linked a = {}"
  shows "spec_ok (relationship_commands g) a \<and> spec_commands (relationship_commands g) a = link_all (abs_graph g)"
proof -
  let ?rs = "values_sorted rel_id (relationships g)"
  have k: "\<forall>i x. fmlookup (relationships g) i = Some x \<longrightarrow> rel_id x = i"
    using graph_invD(1) [OF g] by (simp add: keyed_by_id_def)
  have adj: "adjacency_inv g" and ends: "endpoints_inv g" using graph_invD [OF g] by simp_all
  have "ag_nodes a (rel_from r) \<noteq> None \<and> (ag_nodes a (rel_to r) \<noteq> None \<or> ag_boundary a (rel_to r) \<noteq> None)"
    if "r \<in> set ?rs" for r
  proof -
    have r: "fmlookup (relationships g) (rel_id r) = Some r" using that values_sorted(2) [OF k] by simp
    have "rel_to r |\<in>| fmdom (nodes g)" if "rel_id r \<in> set (in_ids g (rel_to r))"
    proof -
      have "rel_to r |\<in>| fmdom (incoming g)"
        using that by (cases "fmlookup (incoming g) (rel_to r)") (simp_all add: in_ids_def fmlookup_dom_iff look_list_def)
      then show ?thesis using adj by (simp add: adjacency_inv_def)
    qed
    then show ?thesis using r ends a unfolding endpoints_inv_def by (auto simp: fmlookup_dom_iff)
  qed
  then have *: "spec_ok (relationship_commands g) a \<and> spec_commands (relationship_commands g) a =
      a\<lparr>ag_rels := fmlookup (relationships g),
        ag_linked := {rid. \<exists>r \<in> set ?rs. rel_id r = rid \<and> ag_nodes a (rel_to r) \<noteq> None}\<rparr>"
    using spec_create_relationships [OF values_sorted(1) [OF k], of a] values_sorted(3) [OF k] a(3,4)
    by (simp add: relationship_commands_def values_sorted_def)
  have "{rid. \<exists>r \<in> set ?rs. rel_id r = rid \<and> ag_nodes a (rel_to r) \<noteq> None} = ag_linked (link_all (abs_graph g))"
  proof (rule set_eqI)
    fix rid
    have "(\<exists>r. fmlookup (relationships g) (rel_id r) = Some r \<and> rel_id r = rid \<and> fmlookup (nodes g) (rel_to r) \<noteq> None) \<longleftrightarrow>
        (\<exists>r. fmlookup (relationships g) rid = Some r \<and> fmlookup (nodes g) (rel_to r) \<noteq> None)"
      using k by blast
    then show "rid \<in> {rid. \<exists>r \<in> set ?rs. rel_id r = rid \<and> ag_nodes a (rel_to r) \<noteq> None} \<longleftrightarrow>
        rid \<in> ag_linked (link_all (abs_graph g))"
      by (simp add: link_all_def values_sorted(2) [OF k] a(1) Bex_def)
  qed
  then show ?thesis using * a by (cases a) (simp add: link_all_def abs_graph_def)
qed

lemma snapshot_sections:
  assumes "graph_inv g"
  obtains g1 g2 where "applies (snapshot_apply is_create_node ''node'') (node_commands g) new_graph g1"
    and "applies (snapshot_apply is_upsert_boundary ''boundary node'') (boundary_commands g) g1 g2"
    and "applies (snapshot_apply is_create_relationship ''relationship'') (relationship_commands g) g2 (snapshot_graph g)"
    and "graph_inv (snapshot_graph g)" and "abs_graph (snapshot_graph g) = link_all (abs_graph g)"
proof -
  let ?g1 = "apply_commands (node_commands g) new_graph"
  let ?g2 = "apply_commands (boundary_commands g) ?g1"
  note n = apply_commands_refine [OF graph_inv_new_graph section_kinds(1) node_section(1) [OF assms], where what = "''node''"]
  note a1 = trans [OF n [THEN conjunct2, THEN conjunct2] node_section(2) [OF assms]]
  note b = apply_commands_refine [OF n [THEN conjunct2, THEN conjunct1] section_kinds(2) boundary_section(1) [OF assms],
    where what = "''boundary node''"]
  have a2: "abs_graph ?g2 = \<lparr>ag_nodes = fmlookup (nodes g), ag_boundary = fmlookup (boundary_nodes g), ag_rels = Map.empty, ag_linked = {}\<rparr>"
    unfolding b [THEN conjunct2, THEN conjunct2] a1 using boundary_section(2) [OF assms] by simp
  have r: "spec_ok (relationship_commands g) (abs_graph ?g2) \<and>
    spec_commands (relationship_commands g) (abs_graph ?g2) = link_all (abs_graph g)"
    by (rule relationship_section [OF assms]) (simp_all add: a2)
  note c = apply_commands_refine [OF b [THEN conjunct2, THEN conjunct1] section_kinds(3) r [THEN conjunct1],
    where what = "''relationship''", folded snapshot_graph_def]
  show ?thesis
    by (rule that [OF n [THEN conjunct1] b [THEN conjunct1] c [THEN conjunct1] c [THEN conjunct2, THEN conjunct1]
      trans [OF c [THEN conjunct2, THEN conjunct2] r [THEN conjunct2]]])
qed

section \<open>The store keeps the contract\<close>

lemma snapshot_emits:
  assumes "snapshot_ok g"
  shows "snd (snapshot_bytes s (g, term, index)) = None"
    and "emitted (snapshot_bytes s (g, term, index)) =
      snapshot_magic @ write_u64 s @ write_u64 term @ write_u64 index @ section_bytes (node_commands g) @
      section_bytes (boundary_commands g) @ section_bytes (relationship_commands g)"
proof -
  let ?part = "\<lambda>cs. write_u32 (of_nat (length cs)) #
    concat (map (\<lambda>c. [write_u32 (of_nat (length (encode_command c))), encode_command c]) cs)"
  have "snapshot_bytes s (g, term, index) = emit_list (map emit ([snapshot_magic, write_u64 s, write_u64 term, write_u64 index] @
      ?part (node_commands g) @ ?part (boundary_commands g) @ ?part (relationship_commands g)))"
    using assms by (simp add: snapshot_bytes_def snapshot_ok_def emitted_section)
  then have out: "snapshot_bytes s (g, term, index) = ([snapshot_magic, write_u64 s, write_u64 term, write_u64 index] @
      ?part (node_commands g) @ ?part (boundary_commands g) @ ?part (relationship_commands g), None)"
    unfolding emit_list_emits .
  then show "snd (snapshot_bytes s (g, term, index)) = None" by simp
  show "emitted (snapshot_bytes s (g, term, index)) =
      snapshot_magic @ write_u64 s @ write_u64 term @ write_u64 index @ section_bytes (node_commands g) @
      section_bytes (boundary_commands g) @ section_bytes (relationship_commands g)"
    unfolding out emitted_def fst_conv concat_append concat_section by simp
qed

lemma snapshot_roundtrip:
  assumes "snapshot_ok g"
  shows "snapshot_parse s (emitted (snapshot_bytes s (g, term, index))) =
    Inr \<lparr>ls_shard_id = s, ls_last_included_term = term, ls_last_included_index = index, ls_graph = snapshot_graph g\<rparr>"
proof -
  have wf: "wf_commands (node_commands g)" "wf_commands (boundary_commands g)" "wf_commands (relationship_commands g)"
    and inv: "graph_inv g" using assms by (simp_all add: snapshot_ok_def)
  obtain g1 g2 where g1: "applies (snapshot_apply is_create_node ''node'') (node_commands g) new_graph g1"
    and g2: "applies (snapshot_apply is_upsert_boundary ''boundary node'') (boundary_commands g) g1 g2"
    and g3: "applies (snapshot_apply is_create_relationship ''relationship'') (relationship_commands g) g2 (snapshot_graph g)"
    using snapshot_sections [OF inv] by blast
  have "reads (snapshot_read s) (emitted (snapshot_bytes s (g, term, index)))
      \<lparr>ls_shard_id = s, ls_last_included_term = term, ls_last_included_index = index, ls_graph = snapshot_graph g\<rparr>"
    unfolding snapshot_emits(2) [OF assms] snapshot_read_def Let_def
    by (rule reads_bind [OF reads_header], rule reads_bind [OF reads_file_prim(3)], unfold simp_thms if_False,
        rule reads_bind [OF reads_file_prim(3)], rule reads_bind [OF reads_file_prim(3)],
        rule reads_bind [OF reads_snapshot_section [OF wf(1) g1]], rule reads_bind [OF reads_snapshot_section [OF wf(2) g2]],
        rule reads_map [OF reads_snapshot_section [OF wf(3) g3]]) simp
  moreover have "length (emitted (snapshot_bytes s (g, term, index))) < 2 ^ 64"
    unfolding snapshot_emits(2) [OF assms]
    using assms by (simp add: snapshot_ok_def snapshot_magic_def as_bytes_def write_u64_def)
  ultimately show ?thesis unfolding snapshot_parse_def by (rule then_eof_reads)
qed

lemma snapshot_tmp_differs: "bin_tmp (snapshot_path d s) \<noteq> snapshot_path d s"
  unfolding bin_tmp_def snapshot_path_def
  by (rule tmp_differs, simp add: file_stem_def split_at_dot_def join_path_def)

interpretation snapshot_file: file_store "snapshot_path d s" "bin_tmp (snapshot_path d s)" "snapshot_bytes s"
    "snapshot_parse s" "\<lambda>(g, term, index). \<lparr>ls_shard_id = s, ls_last_included_term = term,
      ls_last_included_index = index, ls_graph = snapshot_graph g\<rparr>" "\<lambda>(g, _, _). snapshot_ok g" for d s
  by unfold_locales (auto simp: snapshot_tmp_differs snapshot_emits(1) snapshot_roundtrip)

section \<open>Properties\<close>

lemma link_all_id:
  assumes "graph_inv g" and "ag_linked (link_all (abs_graph g)) \<subseteq> ag_linked (abs_graph g)"
  shows "link_all (abs_graph g) = abs_graph g"
proof -
  have "ag_linked (abs_graph g) \<subseteq> ag_linked (link_all (abs_graph g))"
  proof
    fix rid
    assume "rid \<in> ag_linked (abs_graph g)"
    then obtain r where r: "fmlookup (relationships g) rid = Some r" "rid \<in> set (in_ids g (rel_to r))"
      by (auto simp: abs_graph_def)
    then have "rel_to r |\<in>| fmdom (incoming g)"
      by (cases "fmlookup (incoming g) (rel_to r)") (simp_all add: in_ids_def fmlookup_dom_iff look_list_def)
    then show "rid \<in> ag_linked (link_all (abs_graph g))"
      using r(1) graph_invD(3) [OF assms(1)] by (auto simp: link_all_def adjacency_inv_def fmlookup_dom_iff)
  qed
  with assms(2) show ?thesis by (simp add: link_all_def)
qed

text \<open>
  C6. A snapshot restores the graph. For a graph whose commands fit the length fields, \<open>SnapshotStore::save\<close>
  succeeds, the file is synced when it returns, and \<open>load\<close> then returns the saved position and a graph that
  satisfies the representation invariant and has the same nodes, boundary nodes and relationships; every
  relationship with a local target is listed at its target. If that was so before, the abstract graph is the one
  that was saved. A crash during the save leaves a file that loads as before or as the new snapshot.
\<close>

theorem snapshot_save_load:
  assumes "snapshot_ok g" and "save_ready (snapshot_path d s) f"
  defines "st \<equiv> \<lparr>ss_shard_id = s, ss_path = snapshot_path d s\<rparr>"
  shows "\<exists>g'. graph_inv g' \<and> abs_graph g' = link_all (abs_graph g) \<and>
    (ag_linked (link_all (abs_graph g)) \<subseteq> ag_linked (abs_graph g) \<longrightarrow> abs_graph g' = abs_graph g) \<and>
    (let new = Inr (Some \<lparr>ls_shard_id = s, ls_last_included_term = term, ls_last_included_index = index, ls_graph = g'\<rparr>)
     in (\<exists>f'. io_run (snapshot_save st g term index) f () f' \<and> snapshot_load st f' = new \<and> durable f' (snapshot_path d s)) \<and>
        (\<forall>f'. crashes_to (snapshot_save st g term index) f f' \<longrightarrow>
           snapshot_load st f' = snapshot_load st f \<or> snapshot_load st f' = new))"
proof (intro exI [of _ "snapshot_graph g"] conjI impI)
  have inv: "graph_inv g" using assms(1) by (simp add: snapshot_ok_def)
  show "graph_inv (snapshot_graph g)" and abs: "abs_graph (snapshot_graph g) = link_all (abs_graph g)"
    using snapshot_sections [OF inv] by blast+
  show "abs_graph (snapshot_graph g) = abs_graph g" if "ag_linked (link_all (abs_graph g)) \<subseteq> ag_linked (abs_graph g)"
    unfolding abs by (rule link_all_id [OF inv that])
  show "let new = Inr (Some \<lparr>ls_shard_id = s, ls_last_included_term = term, ls_last_included_index = index, ls_graph = snapshot_graph g\<rparr>)
     in (\<exists>f'. io_run (snapshot_save st g term index) f () f' \<and> snapshot_load st f' = new \<and> durable f' (snapshot_path d s)) \<and>
        (\<forall>f'. crashes_to (snapshot_save st g term index) f f' \<longrightarrow>
           snapshot_load st f' = snapshot_load st f \<or> snapshot_load st f' = new)"
    using snapshot_file.load_after_save [where v = "(g, term, index)" and d = d and s = s and f = f]
      snapshot_file.crash_atomic [where v = "(g, term, index)" and d = d and s = s and f = f] assms(1,2)
    by (auto simp: st_def snapshot_save_def snapshot_load_def save_ready_def Let_def)
qed

lemma sample_snapshot_ok: "snapshot_ok sample_graph"
proof -
  have cs: "node_commands sample_graph = [CreateNode 7 [''Person''] fmempty]" "boundary_commands sample_graph = []"
    "relationship_commands sample_graph = [CreateRelationship 1 7 7 ''KNOWS'' fmempty]" by code_simp+
  have "length (encode_command (CreateNode 7 [''Person''] fmempty)) = 27"
    "length (encode_command (CreateRelationship 1 7 7 ''KNOWS'' fmempty)) = 38"
    "wf_string ''Person''" "wf_string ''KNOWS''" by code_simp+
  then show ?thesis
    by (simp add: snapshot_ok_def sample_graph_inv cs wf_commands_def fits_u32_def wf_props_def
        section_bytes_def write_u32_def)
qed

lemma sample_snapshot_ready: "save_ready (snapshot_path [''data''] 3) sample_fs"
proof -
  have dirs: "fs_dirs sample_fs = {|[], [''data''], [''data'', ''shards''], [''data'', ''shards'', ''3'']|}"
    and files: "fs_files sample_fs = fmempty" by code_simp+
  have "snapshot_path [''data''] 3 = [''data'', ''shards'', ''3'', ''snapshot.bin'']"
    "bin_tmp [''data'', ''shards'', ''3'', ''snapshot.bin''] = [''data'', ''shards'', ''3'', ''snapshot.bin.tmp'']" by code_simp+
  then show ?thesis
    by (simp add: save_ready_def replaceable_def dirs files dir_exists_def durable_def parent_def)
qed

theorem snapshot_save_load_witness:
  "\<exists>g' f'. abs_graph g' = abs_graph sample_graph \<and>
     snapshot_load \<lparr>ss_shard_id = 3, ss_path = snapshot_path [''data''] 3\<rparr> f' =
       Inr (Some \<lparr>ls_shard_id = 3, ls_last_included_term = 2, ls_last_included_index = 9, ls_graph = g'\<rparr>)"
proof -
  have f: "fmlookup (relationships sample_graph) 1 = Some (new_relationship 1 7 7 ''KNOWS'' fmempty)"
    "fmdom (relationships sample_graph) = {|1|}" "in_ids sample_graph 7 = [1]" by code_simp+
  then have "1 \<in> ag_linked (abs_graph sample_graph)" by (simp add: abs_graph_def new_relationship_def)
  moreover have "ag_linked (link_all (abs_graph sample_graph)) \<subseteq> {1}"
    using fmdomI [of "relationships sample_graph"] unfolding f(2) by (auto simp: link_all_def)
  ultimately have "ag_linked (link_all (abs_graph sample_graph)) \<subseteq> ag_linked (abs_graph sample_graph)" by blast
  then show ?thesis
    using snapshot_save_load [OF sample_snapshot_ok sample_snapshot_ready, of 2 9] by (auto simp: Let_def)
qed

definition recreated_graph :: graph_state where
  "recreated_graph = apply_commands [CreateNode 0 [] fmempty, CreateNode 1 [] fmempty, DeleteNode 1,
     UpsertBoundaryNode 2 5 [] fmempty 1, CreateRelationship 4 0 2 ''R'' fmempty, CreateNode 2 [] fmempty,
     CreateNode 3 [] fmempty, DeleteNode 3] new_graph"

lemma recreated_graph_inv: "graph_inv recreated_graph"
  by (simp only: recreated_graph_def apply_commands_def fold_simps comp_def id_apply apply_command_graph_inv graph_inv_new_graph)

lemma recreated_snapshot_ok: "snapshot_ok recreated_graph"
proof -
  have cs: "node_commands recreated_graph = [CreateNode 0 [] fmempty, CreateNode 2 [] fmempty]"
    "boundary_commands recreated_graph = [UpsertBoundaryNode 2 5 [] fmempty 1]"
    "relationship_commands recreated_graph = [CreateRelationship 4 0 2 ''R'' fmempty]" by code_simp+
  have "length (encode_command (CreateNode 0 [] fmempty)) = 17" "length (encode_command (CreateNode 2 [] fmempty)) = 17"
    "length (encode_command (UpsertBoundaryNode 2 5 [] fmempty 1)) = 33"
    "length (encode_command (CreateRelationship 4 0 2 ''R'' fmempty)) = 34" "wf_string ''R''" by code_simp+
  then show ?thesis
    by (simp add: snapshot_ok_def recreated_graph_inv cs wf_commands_def fits_u32_def wf_props_def
        section_bytes_def write_u32_def)
qed

text \<open>
  C34. What a snapshot does not restore: a concrete history after which the loaded graph allocates the
  identifier of a deleted node, although the saved graph would not, and lists a relationship at a node that
  became local after the relationship was created, although the saved graph does not.
\<close>

theorem snapshot_load_differs:
  "\<exists>g'. snapshot_parse 3 (emitted (snapshot_bytes 3 (recreated_graph, 1, 7))) =
      Inr \<lparr>ls_shard_id = 3, ls_last_included_term = 1, ls_last_included_index = 7, ls_graph = g'\<rparr> \<and>
    fst (allocate_node_id recreated_graph) = 4 \<and> fst (allocate_node_id g') = 3 \<and>
    incoming_rels recreated_graph 2 = Inr [] \<and>
    incoming_rels g' 2 = Inr [new_relationship 4 0 2 ''R'' fmempty]"
proof (intro exI [of _ "snapshot_graph recreated_graph"] conjI)
  show "snapshot_parse 3 (emitted (snapshot_bytes 3 (recreated_graph, 1, 7))) =
      Inr \<lparr>ls_shard_id = 3, ls_last_included_term = 1, ls_last_included_index = 7, ls_graph = snapshot_graph recreated_graph\<rparr>"
    by (rule snapshot_roundtrip [OF recreated_snapshot_ok])
qed (code_simp+)

end
