(* ===== verification/Text.thy ===== *)
theory Text
  imports Bytes Decimal
begin

text \<open>
  The string functions of the standard library that the line-based formats use: \<open>split\<close>, \<open>split_once\<close>,
  \<open>strip_prefix\<close>, \<open>lines\<close>, \<open>join\<close>, \<open>trim().is_empty()\<close>, and hexadecimal text. A string is the list of its
  UTF-8 bytes as characters, so a character that the formats split at is one element of the list.
\<close>

unbundle bit_operations_syntax

section \<open>Splitting and joining\<close>

fun split_on :: "char \<Rightarrow> string \<Rightarrow> string list" where
  "split_on c [] = [[]]"
| "split_on c (x # xs) =
     (if x = c then [] # split_on c xs
      else case split_on c xs of [] \<Rightarrow> [[x]] | p # ps \<Rightarrow> (x # p) # ps)"

definition split_once :: "char \<Rightarrow> string \<Rightarrow> (string \<times> string) option" where
  "split_once c s =
     (case dropWhile (\<lambda>x. x \<noteq> c) s of [] \<Rightarrow> None | _ # r \<Rightarrow> Some (takeWhile (\<lambda>x. x \<noteq> c) s, r))"

fun join_with :: "string \<Rightarrow> string list \<Rightarrow> string" where
  "join_with sep [] = []"
| "join_with sep [x] = x"
| "join_with sep (x # y # xs) = x @ sep @ join_with sep (y # xs)"

definition strip_text_prefix :: "string \<Rightarrow> string \<Rightarrow> string option" where
  "strip_text_prefix p s = (if prefix p s then Some (drop (length p) s) else None)"

text \<open>\<open>str::lines\<close> and \<open>BufRead::lines\<close>: a line ends at a newline, which goes with a carriage return before it.\<close>

definition strip_cr :: "string \<Rightarrow> string" where
  "strip_cr s = (if s \<noteq> [] \<and> last s = CHR 0x0D then butlast s else s)"

definition text_lines :: "string \<Rightarrow> string list" where
  "text_lines s =
     (let pieces = split_on (CHR 0x0A) s
      in map strip_cr (butlast pieces) @ (if last pieces = [] then [] else [last pieces]))"

text \<open>The characters of Unicode's \<open>White_Space\<close>, as UTF-8.\<close>

definition whitespace :: "string list" where
  "whitespace =
    [[CHR 0x09], [CHR 0x0A], [CHR 0x0B], [CHR 0x0C], [CHR 0x0D], [CHR 0x20], [CHR 0xC2, CHR 0x85],
     [CHR 0xC2, CHR 0xA0], [CHR 0xE1, CHR 0x9A, CHR 0x80], [CHR 0xE2, CHR 0x80, CHR 0x80],
     [CHR 0xE2, CHR 0x80, CHR 0x81], [CHR 0xE2, CHR 0x80, CHR 0x82], [CHR 0xE2, CHR 0x80, CHR 0x83],
     [CHR 0xE2, CHR 0x80, CHR 0x84], [CHR 0xE2, CHR 0x80, CHR 0x85], [CHR 0xE2, CHR 0x80, CHR 0x86],
     [CHR 0xE2, CHR 0x80, CHR 0x87], [CHR 0xE2, CHR 0x80, CHR 0x88], [CHR 0xE2, CHR 0x80, CHR 0x89],
     [CHR 0xE2, CHR 0x80, CHR 0x8A], [CHR 0xE2, CHR 0x80, CHR 0xA8], [CHR 0xE2, CHR 0x80, CHR 0xA9],
     [CHR 0xE2, CHR 0x80, CHR 0xAF], [CHR 0xE2, CHR 0x81, CHR 0x9F], [CHR 0xE3, CHR 0x80, CHR 0x80]]"

function trim_start :: "string \<Rightarrow> string" where
  "trim_start s =
     (case find (\<lambda>w. w \<noteq> [] \<and> prefix w s) whitespace of
        None \<Rightarrow> s
      | Some w \<Rightarrow> trim_start (drop (length w) s))"
  by pat_completeness auto
termination
  by (relation "measure length") (auto simp: find_Some_iff prefix_def)

declare trim_start.simps [simp del]

text \<open>\<open>s.trim().is_empty()\<close>\<close>

definition is_blank :: "string \<Rightarrow> bool" where
  "is_blank s \<longleftrightarrow> trim_start s = []"

section \<open>Hexadecimal text\<close>

definition hex_digits :: string where
  "hex_digits = ''0123456789abcdef''"

definition hex_encode :: "bytes \<Rightarrow> string" where
  "hex_encode bs = concat (map (\<lambda>b. [hex_digits ! unat (drop_bit 4 b), hex_digits ! unat (take_bit 4 b)]) bs)"

definition hex_nibble :: "char \<Rightarrow> u8 option" where
  "hex_nibble c =
     (let n = (of_char c :: nat) in
      if 48 \<le> n \<and> n \<le> 57 then Some (word_of_nat (n - 48))
      else if 97 \<le> n \<and> n \<le> 102 then Some (word_of_nat (n - 97 + 10))
      else if 65 \<le> n \<and> n \<le> 70 then Some (word_of_nat (n - 65 + 10))
      else None)"

section \<open>Laws\<close>

lemma split_on_nonempty [simp]: "split_on c s \<noteq> []"
  by (induction s) (auto split: list.splits)

lemma split_on_none: "c \<notin> set s \<Longrightarrow> split_on c s = [s]"
  by (induction s) auto

lemma split_on_append: "c \<notin> set s \<Longrightarrow> split_on c (s @ c # r) = s # split_on c r"
  by (induction s) auto

lemma split_on_join:
  "\<forall>x\<in>set xs. c \<notin> set x \<Longrightarrow> xs \<noteq> [] \<Longrightarrow> split_on c (join_with [c] xs) = xs"
  by (induction "[c]" xs rule: join_with.induct) (simp_all add: split_on_none split_on_append)

lemma split_once_append: "c \<notin> set s \<Longrightarrow> split_once c (s @ c # r) = Some (s, r)"
  by (auto simp: split_once_def dropWhile_append takeWhile_append split: list.splits)

lemma text_lines_append: "CHR 0x0A \<notin> set s \<Longrightarrow> text_lines (s @ CHR 0x0A # r) = strip_cr s # text_lines r"
  by (simp add: text_lines_def split_on_append Let_def)

lemma text_lines_Nil [simp]: "text_lines [] = []"
  by (simp add: text_lines_def)

definition plain_line :: "string \<Rightarrow> bool" where
  "plain_line s \<longleftrightarrow> CHR 0x0A \<notin> set s \<and> CHR 0x0D \<notin> set s"

lemma strip_cr_plain: "plain_line s \<Longrightarrow> strip_cr s = s"
  unfolding strip_cr_def plain_line_def by (metis last_in_set)

lemma text_lines_concat:
  "\<forall>l\<in>set ls. plain_line l \<Longrightarrow> text_lines (concat (map (\<lambda>l. l @ [CHR 0x0A]) ls) @ r) = ls @ text_lines r"
  by (induction ls) (auto simp: text_lines_append strip_cr_plain plain_line_def)

lemma plain_line_append [simp]: "plain_line (s @ t) \<longleftrightarrow> plain_line s \<and> plain_line t" "plain_line []"
    "plain_line (c # s) \<longleftrightarrow> c \<noteq> CHR 0x0A \<and> c \<noteq> CHR 0x0D \<and> plain_line s"
  by (auto simp: plain_line_def)

lemma plain_join: "plain_line sep \<Longrightarrow> \<forall>x\<in>set xs. plain_line x \<Longrightarrow> plain_line (join_with sep xs)"
  by (induction sep xs rule: join_with.induct) auto

lemma show_u64_chars: "c \<in> set (show_u64 x) \<Longrightarrow> digit_value c \<noteq> None"
  unfolding show_u64_def by (rule show_nat_digits)

lemma show_u64_free: "digit_value c = None \<Longrightarrow> c \<notin> set (show_u64 x)"
  using show_u64_chars by blast

lemma plain_show_u64 [simp]: "plain_line (show_u64 x)"
  by (simp add: plain_line_def show_u64_free digit_value_def)

lemma show_u64_nonempty [simp]: "show_u64 x \<noteq> []"
  by (simp add: show_u64_def)

lemma hex_digits_bytes: "list_all (\<lambda>n. hex_nibble (hex_digits ! n) = Some (word_of_nat n)) [0..<16]"
  by code_simp

lemma hex_nibble_digit: "n < 16 \<Longrightarrow> hex_nibble (hex_digits ! n) = Some (word_of_nat n)"
  using hex_digits_bytes by (simp add: list_all_iff)

lemma hex_nibbles:
  "hex_nibble (hex_digits ! unat (drop_bit 4 b)) = Some (drop_bit 4 b)"
  "hex_nibble (hex_digits ! unat (take_bit 4 b)) = Some (take_bit 4 b)" for b :: u8
proof -
  have "unat (drop_bit 4 b) < 16" "unat (take_bit 4 b) < 16"
    using unat_less_pow [of b] by (simp_all add: drop_bit_eq_div take_bit_eq_mod unat_div unat_mod)
  then show "hex_nibble (hex_digits ! unat (drop_bit 4 b)) = Some (drop_bit 4 b)"
    "hex_nibble (hex_digits ! unat (take_bit 4 b)) = Some (take_bit 4 b)"
    by (simp_all add: hex_nibble_digit)
qed

lemma nibbles_join: "push_bit 4 (drop_bit 4 b) OR take_bit 4 b = b" for b :: u8
  by (rule bit_word_eqI) (auto simp: bit_simps)

section \<open>ASCII text\<close>

definition ascii :: "string \<Rightarrow> bool" where
  "ascii s \<longleftrightarrow> (\<forall>c\<in>set s. (of_char c :: nat) < 128)"

lemma ascii_simps [simp]: "ascii []" "ascii (c # s) \<longleftrightarrow> (of_char c :: nat) < 128 \<and> ascii s" "ascii (s @ t) \<longleftrightarrow> ascii s \<and> ascii t"
  by (auto simp: ascii_def)

lemma ascii_valid_string: "ascii s \<Longrightarrow> valid_string s"
  unfolding valid_string_def
  by (rule ascii_valid)
     (auto simp: list_all_iff as_bytes_def ascii_def word_le_nat_alt unsigned_of_nat take_bit_eq_mod)

lemma ascii_show_u64 [simp]: "ascii (show_u64 x)"
proof -
  have "(of_char c :: nat) < 128" if "digit_value c \<noteq> None" for c
    using that by (auto simp: digit_value_def Let_def split: if_splits)
  then show ?thesis using show_u64_chars by (auto simp: ascii_def)
qed

end
