(* ===== verification/Transaction_Store.thy ===== *)
theory Transaction_Store
  imports Meta_Stores Text
begin

text \<open>
  The coordinator's log of transaction decisions (\<open>transaction.rs\<close>): a text file with a header line and one
  line per decision, appended to and rewritten when decisions are forgotten. The record syntax round trips,
  the file stands for the list of its records under every operation, and the rewrite is crash atomic. A crash
  in the middle of an append is not: the part of a line that reached the disk may read as another decision.
\<close>

unbundle bit_operations_syntax

section \<open>Records\<close>

datatype transaction_decision = DecideCommit | DecideAbort

record transaction_participant =
  tp_location :: string
  tp_shard_id :: u64
  tp_prepared_id :: u64

record decision_record =
  td_tx_id :: u64
  td_decision :: transaction_decision
  td_participants :: "transaction_participant list"

definition tx_magic :: string where
  "tx_magic = ''N4RTXD1''"

fun hex_decode_chars :: "string \<Rightarrow> storage_error + bytes" where
  "hex_decode_chars (a # b # cs) =
     (case (hex_nibble a, hex_nibble b) of
        (Some h, Some l) \<Rightarrow> rbind (hex_decode_chars cs) (\<lambda>bs. Inr ((push_bit 4 h OR l) # bs))
      | _ \<Rightarrow> Inl (CorruptStore ''invalid transaction decision hex byte''))"
| "hex_decode_chars cs = Inr []"

definition hex_decode :: "string \<Rightarrow> storage_error + bytes" where
  "hex_decode input =
     (if length input mod 2 \<noteq> 0 then Inl (CorruptStore ''odd transaction decision hex length'')
      else hex_decode_chars input)"

definition tx_parse_u64 :: "string \<Rightarrow> string \<Rightarrow> storage_error + u64" where
  "tx_parse_u64 input name =
     (case parse_u64 input of
        Some x \<Rightarrow> Inr x
      | None \<Rightarrow> Inl (CorruptStore (''invalid transaction decision '' @ name @ '': '' @ input)))"

definition encode_participant :: "transaction_participant \<Rightarrow> string" where
  "encode_participant p =
     hex_encode (as_bytes (tp_location p)) @ '':'' @ show_u64 (tp_shard_id p) @ '':'' @ show_u64 (tp_prepared_id p)"

definition decision_text :: "transaction_decision \<Rightarrow> string" where
  "decision_text d = (case d of DecideCommit \<Rightarrow> ''commit'' | DecideAbort \<Rightarrow> ''abort'')"

definition tab :: string where
  "tab = [CHR 0x09]"

definition encode_record :: "decision_record \<Rightarrow> string" where
  "encode_record r =
     decision_text (td_decision r) @ tab @ show_u64 (td_tx_id r) @ tab @
     join_with '','' (map encode_participant (td_participants r))"

definition decode_participant :: "string \<Rightarrow> storage_error + transaction_participant" where
  "decode_participant item =
     (case split_on (CHR '':'') item of
        [location, shard, prepared] \<Rightarrow>
          rbind (hex_decode location) (\<lambda>bs.
          rbind (if valid_utf8 bs then Inr (of_bytes bs)
                 else Inl (CorruptStore ''participant location is not utf-8'')) (\<lambda>loc.
          rbind (tx_parse_u64 shard ''participant shard id'') (\<lambda>s.
          rbind (tx_parse_u64 prepared ''participant prepared id'') (\<lambda>i.
          Inr \<lparr>tp_location = loc, tp_shard_id = s, tp_prepared_id = i\<rparr>))))
      | _ \<Rightarrow> Inl (CorruptStore ''malformed transaction participant record''))"

definition decode_record :: "string \<Rightarrow> storage_error + decision_record" where
  "decode_record line =
     (case split_on (CHR 0x09) line of
        [decision, tx, participants] \<Rightarrow>
          rbind (if decision = ''commit'' then Inr DecideCommit
                 else if decision = ''abort'' then Inr DecideAbort
                 else Inl (CorruptStore (''unknown transaction decision '' @ decision))) (\<lambda>d.
          rbind (tx_parse_u64 tx ''transaction id'') (\<lambda>i.
          rbind (if participants = [] then Inr []
                 else collect_results (map decode_participant (split_on (CHR '','') participants))) (\<lambda>ps.
          Inr \<lparr>td_tx_id = i, td_decision = d, td_participants = ps\<rparr>)))
      | _ \<Rightarrow> Inl (CorruptStore ''malformed transaction decision record''))"

section \<open>The store\<close>

record transaction_decision_store =
  tx_path :: path

definition decisions_path :: "path \<Rightarrow> path" where
  "decisions_path data_dir = join_path (join_path data_dir ''transactions'') ''decisions.log''"

definition tx_open :: "path \<Rightarrow> transaction_decision_store io" where
  "tx_open data_dir =
     io_seq (create_dir_all (join_path data_dir ''transactions'')) (io_return \<lparr>tx_path = decisions_path data_dir\<rparr>)"

definition line_bytes :: "string \<Rightarrow> bytes" where
  "line_bytes s = as_bytes (s @ [CHR 0x0A])"

definition tx_append :: "transaction_decision_store \<Rightarrow> decision_record \<Rightarrow> unit io" where
  "tx_append s r =
     io_bind (io_get (\<lambda>f. Inr (case file_content f (tx_path s) of None \<Rightarrow> True | Some bs \<Rightarrow> length bs = 0))) (\<lambda>needs_header.
     io_seq (open_append (tx_path s))
       (io_seq (if needs_header then write_all (tx_path s) (line_bytes tx_magic) else io_return ())
         (io_seq (write_all (tx_path s) (line_bytes (encode_record r))) (sync_all (tx_path s)))))"

text \<open>\<open>BufReader::lines\<close>: a line that is not UTF-8 is an I/O error.\<close>

definition checked_line :: "string \<Rightarrow> storage_error + string" where
  "checked_line l = (if valid_string l then Inr l else Inl (Io ''stream did not contain valid UTF-8''))"

fun tx_records :: "string list \<Rightarrow> storage_error + decision_record list" where
  "tx_records [] = Inr []"
| "tx_records (l # ls) =
     rbind (checked_line l) (\<lambda>line.
       if is_blank line then tx_records ls
       else rbind (decode_record line) (\<lambda>r. rbind (tx_records ls) (\<lambda>rs. Inr (r # rs))))"

definition tx_parse :: "bytes \<Rightarrow> storage_error + decision_record list" where
  "tx_parse bs =
     (case text_lines (of_bytes bs) of
        [] \<Rightarrow> Inl (CorruptStore ''missing transaction decision header'')
      | l # ls \<Rightarrow> rbind (checked_line l) (\<lambda>header.
          if header \<noteq> tx_magic then Inl (CorruptStore ''invalid transaction decision header'')
          else tx_records ls))"

definition tx_load :: "transaction_decision_store \<Rightarrow> fs \<Rightarrow> storage_error + decision_record list" where
  "tx_load s f = rbind (load_file tx_parse (tx_path s) f) (\<lambda>rs. Inr (case rs of None \<Rightarrow> [] | Some rs \<Rightarrow> rs))"

definition tx_bytes :: "decision_record list \<Rightarrow> written" where
  "tx_bytes rs = emit_list (map emit (line_bytes tx_magic # map (\<lambda>r. line_bytes (encode_record r)) rs))"

definition tx_save_all :: "transaction_decision_store \<Rightarrow> decision_record list \<Rightarrow> unit io" where
  "tx_save_all s rs = replace_file (with_extension ''log.tmp'' (tx_path s)) (tx_path s) (tx_bytes rs)"

definition tx_remove_tx_ids :: "transaction_decision_store \<Rightarrow> u64 fset \<Rightarrow> nat io" where
  "tx_remove_tx_ids s ids =
     (if ids = {||} then io_return 0
      else io_bind (io_get (tx_load s)) (\<lambda>records.
        let retained = filter (\<lambda>r. td_tx_id r |\<notin>| ids) records;
            removed = length records - length retained
        in if 0 < removed then io_seq (tx_save_all s retained) (io_return removed) else io_return removed))"

section \<open>Round trip of a record\<close>

lemma hex_decode_encode: "hex_decode (hex_encode bs) = Inr bs"
proof -
  have "hex_decode_chars (hex_encode bs) = Inr bs"
    by (induction bs) (simp_all add: hex_encode_def hex_nibbles nibbles_join)
  moreover have "length (hex_encode bs) = 2 * length bs" by (induction bs) (simp_all add: hex_encode_def)
  ultimately show ?thesis by (simp add: hex_decode_def)
qed

lemma hex_encode_chars: "c \<in> set (hex_encode bs) \<Longrightarrow> hex_nibble c \<noteq> None"
  by (induction bs) (auto simp: hex_encode_def hex_nibbles)

lemma hex_encode_free: "hex_nibble c = None \<Longrightarrow> c \<notin> set (hex_encode bs)"
  using hex_encode_chars by blast

lemma decode_encode_participant: "valid_string (tp_location p) \<Longrightarrow> decode_participant (encode_participant p) = Inr p"
proof -
  assume valid: "valid_string (tp_location p)"
  have "split_on (CHR '':'') (encode_participant p) =
      [hex_encode (as_bytes (tp_location p)), show_u64 (tp_shard_id p), show_u64 (tp_prepared_id p)]"
    by (simp add: encode_participant_def split_on_append split_on_none show_u64_free hex_encode_free
        hex_nibble_def digit_value_def)
  then show ?thesis
    using valid by (simp add: decode_participant_def hex_decode_encode valid_string_def tx_parse_u64_def)
qed

lemma encode_participant_free:
  assumes "hex_nibble c = None" and "digit_value c = None" and "c \<noteq> CHR '':''"
  shows "c \<notin> set (encode_participant p)"
  using assms by (simp add: encode_participant_def show_u64_free hex_encode_free)

lemma join_with_set: "c \<in> set (join_with sep xs) \<Longrightarrow> c \<in> set sep \<or> (\<exists>x\<in>set xs. c \<in> set x)"
  by (induction sep xs rule: join_with.induct) auto

lemma encode_participant_nonempty: "encode_participant p \<noteq> []"
  by (simp add: encode_participant_def)

lemma join_with_nonempty: "\<forall>x\<in>set xs. x \<noteq> [] \<Longrightarrow> join_with sep xs = [] \<longleftrightarrow> xs = []"
  by (induction sep xs rule: join_with.induct) auto

definition wf_decision :: "decision_record \<Rightarrow> bool" where
  "wf_decision r \<longleftrightarrow> list_all (\<lambda>p. valid_string (tp_location p)) (td_participants r)"

lemma decode_encode_record:
  assumes "wf_decision r"
  shows "decode_record (encode_record r) = Inr r"
proof -
  let ?ps = "map encode_participant (td_participants r)"
  have tab: "CHR 0x09 \<notin> set (join_with '','' ?ps)" "CHR 0x09 \<notin> set (decision_text (td_decision r))"
      "CHR 0x09 \<notin> set (show_u64 (td_tx_id r))"
    using encode_participant_free [of "CHR 0x09"]
    by (auto dest!: join_with_set simp: hex_nibble_def digit_value_def decision_text_def show_u64_free
        split: transaction_decision.splits)
  then have "split_on (CHR 0x09) (encode_record r) = [decision_text (td_decision r), show_u64 (td_tx_id r), join_with '','' ?ps]"
    by (simp add: encode_record_def tab_def split_on_append split_on_none)
  moreover have "(if join_with '','' ?ps = [] then Inr []
      else collect_results (map decode_participant (split_on (CHR '','') (join_with '','' ?ps)))) = Inr (td_participants r)"
  proof (cases "td_participants r")
    case (Cons p ps)
    have "split_on (CHR '','') (join_with '','' ?ps) = ?ps"
      using Cons encode_participant_free [of "CHR '',''"]
      by (intro split_on_join) (auto simp: hex_nibble_def digit_value_def)
    moreover have "collect_results (map decode_participant ?ps) = Inr (map (\<lambda>p. p) (td_participants r))"
      using assms unfolding map_map
      by (intro collect_results_map_Inr) (simp add: wf_decision_def list_all_iff decode_encode_participant)
    ultimately show ?thesis
      using Cons join_with_nonempty [of ?ps "'',''"] encode_participant_nonempty by auto
  qed simp
  moreover have "\<lparr>td_tx_id = td_tx_id r, td_decision = td_decision r, td_participants = td_participants r\<rparr> = r"
    by (cases r) simp
  ultimately show ?thesis
    by (cases "td_decision r") (simp_all add: decode_record_def decision_text_def tx_parse_u64_def)
qed

section \<open>Lines of the file\<close>

lemma ascii_hex [simp]: "ascii (hex_encode bs)"
proof -
  have "(of_char c :: nat) < 128" if "hex_nibble c \<noteq> None" for c
    using that by (auto simp: hex_nibble_def Let_def split: if_splits)
  then show ?thesis using hex_encode_chars by (auto simp: ascii_def)
qed

lemma encode_record_ascii: "ascii (encode_record r)"
proof -
  have "ascii (encode_participant p)" for p by (simp add: encode_participant_def)
  then have "ascii (join_with '','' (map encode_participant (td_participants r)))"
    by (auto simp: ascii_def dest!: join_with_set)
  then show ?thesis by (auto simp: encode_record_def tab_def decision_text_def split: transaction_decision.splits)
qed

lemma encode_record_plain: "plain_line (encode_record r)"
proof -
  have "plain_line (hex_encode bs)" for bs by (simp add: plain_line_def hex_encode_free hex_nibble_def)
  then have "plain_line (join_with '','' (map encode_participant (td_participants r)))"
    by (intro plain_join) (auto simp: encode_participant_def)
  then show ?thesis by (auto simp: encode_record_def tab_def decision_text_def split: transaction_decision.splits)
qed

lemma whitespace_heads: "list_all (\<lambda>w. w \<noteq> [] \<longrightarrow> hd w \<noteq> CHR ''c'' \<and> hd w \<noteq> CHR ''a'') whitespace"
  by code_simp

lemma encode_record_not_blank: "\<not> is_blank (encode_record r)"
proof -
  obtain c s where r: "encode_record r = c # s" and c: "c = CHR ''c'' \<or> c = CHR ''a''"
    by (cases "td_decision r") (auto simp: encode_record_def decision_text_def)
  have "find (\<lambda>w. w \<noteq> [] \<and> prefix w (c # s)) whitespace = None"
    using whitespace_heads c by (auto simp: find_None_iff list_all_iff prefix_Cons)
  then have "trim_start (c # s) = c # s" by (subst trim_start.simps) simp
  then show ?thesis by (simp add: is_blank_def r)
qed

definition tx_text :: "decision_record list \<Rightarrow> string" where
  "tx_text rs = concat (map (\<lambda>l. l @ [CHR 0x0A]) (tx_magic # map encode_record rs))"

lemma tx_records_encoded: "list_all wf_decision rs \<Longrightarrow> tx_records (map encode_record rs) = Inr rs"
  by (induction rs)
     (simp_all add: checked_line_def ascii_valid_string encode_record_ascii encode_record_not_blank decode_encode_record)

lemma tx_parse_text: "list_all wf_decision rs \<Longrightarrow> tx_parse (as_bytes (tx_text rs)) = Inr rs"
proof -
  assume "list_all wf_decision rs"
  moreover have "text_lines (tx_text rs) = tx_magic # map encode_record rs"
    using text_lines_concat [of "tx_magic # map encode_record rs" "[]"] encode_record_plain
    by (simp add: tx_text_def tx_magic_def)
  moreover have "checked_line tx_magic = Inr tx_magic" by code_simp
  ultimately show ?thesis by (simp add: tx_parse_def tx_records_encoded)
qed

text \<open>A last line without its newline counts as a line.\<close>

lemma tx_parse_unterminated:
  assumes "list_all wf_decision rs" and "wf_decision r"
  shows "tx_parse (as_bytes (tx_text rs @ encode_record r)) = Inr (rs @ [r])"
proof -
  have "encode_record r \<noteq> []" by (simp add: encode_record_def tab_def)
  then have "text_lines (encode_record r) = [encode_record r]"
    using encode_record_plain [of r] by (simp add: text_lines_def split_on_none plain_line_def)
  then have "text_lines (tx_text rs @ encode_record r) = tx_magic # map encode_record (rs @ [r])"
    using text_lines_concat [of "tx_magic # map encode_record rs" "encode_record r"] encode_record_plain
    by (simp add: tx_text_def tx_magic_def)
  moreover have "checked_line tx_magic = Inr tx_magic" by code_simp
  ultimately show ?thesis using tx_records_encoded [of "rs @ [r]"] assms by (simp add: tx_parse_def)
qed

declare as_bytes_append [simp]

lemma tx_text_append: "as_bytes (tx_text (rs @ [r])) = as_bytes (tx_text rs) @ line_bytes (encode_record r)"
  by (simp add: tx_text_def line_bytes_def as_bytes_def)

lemma emitted_tx_bytes: "emitted (tx_bytes rs) = as_bytes (tx_text rs)"
proof -
  have "concat (map (\<lambda>r. line_bytes (encode_record r)) rs) = as_bytes (concat (map (\<lambda>l. l @ [CHR 0x0A]) (map encode_record rs)))"
    by (induction rs) (simp_all add: line_bytes_def as_bytes_def)
  then show ?thesis
    unfolding tx_bytes_def emit_list_emits
    by (simp add: emitted_def tx_text_def) (simp add: line_bytes_def as_bytes_def)
qed

lemma log_tmp_differs: "with_extension ''log.tmp'' (decisions_path d) \<noteq> decisions_path d"
  unfolding decisions_path_def by (rule tmp_differs) (simp add: file_stem_def split_at_dot_def join_path_def)

interpretation tx_file: file_store "decisions_path d" "with_extension ''log.tmp'' (decisions_path d)" tx_bytes tx_parse
    "\<lambda>rs. rs" "list_all wf_decision" for d
  by unfold_locales
     (auto simp: log_tmp_differs emitted_tx_bytes tx_parse_text, simp add: parent_def with_extension_def,
       simp add: tx_bytes_def emit_list_emits del: list.map)

section \<open>The file stands for its records\<close>

definition tx_rel :: "path \<Rightarrow> fs \<Rightarrow> decision_record list \<Rightarrow> bool" where
  "tx_rel d f rs \<longleftrightarrow> replaceable (with_extension ''log.tmp'' (decisions_path d)) (decisions_path d) f \<and>
     list_all wf_decision rs \<and>
     (case fmlookup (fs_files f) (decisions_path d) of
        None \<Rightarrow> rs = []
      | Some i \<Rightarrow> i_data i = as_bytes (tx_text rs) \<and> i_synced i = length (i_data i))"

lemma tx_text_nonempty: "tx_text rs \<noteq> []"
  by (simp add: tx_text_def tx_magic_def)

lemma tx_rel_load: "tx_rel d f rs \<Longrightarrow> tx_load \<lparr>tx_path = decisions_path d\<rparr> f = Inr rs"
  by (auto simp: tx_rel_def tx_load_def load_file_def replaceable_def file_content_def tx_parse_text split: option.splits)

lemma tx_rel_append:
  assumes rel: "tx_rel d f rs" and wf: "wf_decision r"
  shows "\<exists>f'. io_run (tx_append \<lparr>tx_path = decisions_path d\<rparr> r) f () f' \<and> tx_rel d f' (rs @ [r])"
proof -
  let ?p = "decisions_path d"
  let ?i = "\<lambda>data n. \<lparr>i_data = data, i_synced = n\<rparr>"
  define base where "base = (case fmlookup (fs_files f) ?p of None \<Rightarrow> ([], 0) | Some i \<Rightarrow> (i_data i, i_synced i))"
  have dirs: "dir_exists f (parent ?p)" "\<not> dir_exists f ?p" using rel by (simp_all add: tx_rel_def replaceable_def)
  define g where "g = (if ?p |\<in>| fmdom (fs_files f) then f else set_file ?p (?i [] 0) f)"
  have g: "fmlookup (fs_files g) ?p = Some (?i (fst base) (snd base))" "fs_dirs g = fs_dirs f"
    by (auto simp: g_def base_def fmlookup_dom_iff split: option.splits)
  have opened: "io_run (open_append ?p) f () g"
    unfolding open_append_def using dirs by (intro io_run_step) (simp add: fs_open_append_def g_def)
  have header: "io_run (if fst base = [] then write_all ?p (line_bytes tx_magic) else io_return ()) g ()
      (if fst base = [] then set_file ?p (?i (line_bytes tx_magic) (snd base)) g else g)"
    using g by (auto simp: write_all_def fs_write_all_def intro!: io_run_step io_run_return)
  define h where "h = (if fst base = [] then set_file ?p (?i (line_bytes tx_magic) (snd base)) g else g)"
  have h: "fmlookup (fs_files h) ?p = Some (?i (as_bytes (tx_text rs)) (snd base))" "fs_dirs h = fs_dirs f"
    using rel g tx_text_nonempty [of rs]
    by (auto simp: h_def tx_rel_def base_def tx_text_def line_bytes_def as_bytes_def split: option.splits)
  let ?new = "set_file ?p (?i (as_bytes (tx_text (rs @ [r]))) (snd base)) h"
  have line: "io_run (write_all ?p (line_bytes (encode_record r))) h () ?new"
    using h by (auto simp: write_all_def fs_write_all_def tx_text_append intro!: io_run_step)
  let ?final = "set_file ?p (?i (as_bytes (tx_text (rs @ [r]))) (length (as_bytes (tx_text (rs @ [r]))))) h"
  have sync: "io_run (sync_all ?p) ?new () ?final"
    unfolding sync_all_def by (rule io_run_step) (simp add: fs_sync_all_def)
  have need: "(case file_content f ?p of None \<Rightarrow> True | Some bs \<Rightarrow> length bs = 0) = (fst base = [])"
    by (auto simp: file_content_def base_def split: option.splits)
  have "io_run (tx_append \<lparr>tx_path = ?p\<rparr> r) f () ?final"
    unfolding tx_append_def transaction_decision_store.simps
    by (rule io_run_bind [OF io_run_get [where x = "fst base = []"]]) (simp add: need,
        intro io_run_seq [OF opened] io_run_seq [OF header [folded h_def]] io_run_seq [OF line] sync)
  moreover have "tx_rel d ?final (rs @ [r])"
    using rel wf h by (simp add: tx_rel_def replaceable_def dir_exists_def)
  ultimately show ?thesis by blast
qed

lemma tx_rel_replaced:
  assumes "tx_rel d f rs" and "list_all wf_decision rs'"
  shows "tx_rel d (replaced (with_extension ''log.tmp'' (decisions_path d)) (decisions_path d) (as_bytes (tx_text rs')) f) rs'"
  using assms by (simp add: tx_rel_def replaceable_def replaced_def dir_exists_def)

lemma tx_rel_remove:
  assumes rel: "tx_rel d f rs"
  shows "\<exists>f'. io_run (tx_remove_tx_ids \<lparr>tx_path = decisions_path d\<rparr> ids) f (length (filter (\<lambda>r. td_tx_id r |\<in>| ids) rs)) f' \<and>
    tx_rel d f' (filter (\<lambda>r. td_tx_id r |\<notin>| ids) rs)"
proof -
  let ?s = "\<lparr>tx_path = decisions_path d\<rparr>"
  let ?kept = "filter (\<lambda>r. td_tx_id r |\<notin>| ids) rs" and ?gone = "filter (\<lambda>r. td_tx_id r |\<in>| ids) rs"
  have count: "length rs - length ?kept = length ?gone"
    using sum_length_filter_compl [of "\<lambda>r. td_tx_id r |\<notin>| ids" rs] by simp
  have wf: "list_all wf_decision ?kept" using rel by (auto simp: tx_rel_def list_all_iff)
  let ?f' = "replaced (with_extension ''log.tmp'' (decisions_path d)) (decisions_path d) (as_bytes (tx_text ?kept)) f"
  have save: "io_run (tx_save_all ?s ?kept) f () ?f'"
    using replace_file_run [of "with_extension ''log.tmp'' (decisions_path d)" "decisions_path d" f "tx_bytes ?kept"]
      rel tx_file.total [OF wf] by (simp add: tx_save_all_def emitted_tx_bytes tx_rel_def)
  let ?k = "\<lambda>records. let retained = filter (\<lambda>r. td_tx_id r |\<notin>| ids) records; removed = length records - length retained
    in if 0 < removed then io_seq (tx_save_all ?s retained) (io_return removed) else io_return removed"
  show ?thesis
  proof (cases "ids = {||}")
    case True
    then show ?thesis using rel io_run_return [of 0 f] by (auto simp: tx_remove_tx_ids_def)
  next
    case False
    then have split: "tx_remove_tx_ids ?s ids = io_bind (io_get (tx_load ?s)) ?k" by (simp add: tx_remove_tx_ids_def)
    show ?thesis
    proof (cases "?gone = []")
      case True
      then have "?kept = rs" by (simp add: filter_id_conv filter_empty_conv)
      then show ?thesis
        unfolding split using rel True io_run_return
        by (intro exI conjI io_run_bind [OF io_run_get [where x = rs]]) (auto simp: tx_rel_load Let_def)
    next
      case False
      then show ?thesis
        unfolding split using io_run_seq [OF save io_run_return] count tx_rel_load [OF rel] tx_rel_replaced [OF rel wf]
        by (intro exI [of _ ?f'] conjI io_run_bind [OF io_run_get [where x = rs]]) (auto simp: Let_def)
    qed
  qed
qed

section \<open>Properties\<close>

text \<open>
  C31. The decision file stands for the list of its records. A load returns them, an append adds one at the
  end, and removing transaction ids leaves exactly the other records, in order, and reports how many went.
\<close>

theorem decision_store_is_record_list:
  assumes "tx_rel d f rs" and "wf_decision r"
  shows "tx_load \<lparr>tx_path = decisions_path d\<rparr> f = Inr rs \<and>
    (\<exists>f'. io_run (tx_append \<lparr>tx_path = decisions_path d\<rparr> r) f () f' \<and> tx_rel d f' (rs @ [r])) \<and>
    (\<exists>f'. io_run (tx_remove_tx_ids \<lparr>tx_path = decisions_path d\<rparr> ids) f (length (filter (\<lambda>r. td_tx_id r |\<in>| ids) rs)) f' \<and>
      tx_rel d f' (filter (\<lambda>r. td_tx_id r |\<notin>| ids) rs))"
  using tx_rel_load [OF assms(1)] tx_rel_append [OF assms] tx_rel_remove [OF assms(1)] by blast

definition tx_sample_fs :: fs where
  "tx_sample_fs = io_final (tx_open [''data'']) \<lparr>fs_dirs = {|[]|}, fs_files = fmempty\<rparr>"

definition tx_sample :: decision_record where
  "tx_sample = \<lparr>td_tx_id = 7, td_decision = DecideCommit, td_participants =
     [\<lparr>tp_location = ''a'', tp_shard_id = 1, tp_prepared_id = 25\<rparr>]\<rparr>"

lemma tx_sample_rel: "tx_rel [''data''] tx_sample_fs []" "wf_decision tx_sample"
proof -
  have "replaceable (with_extension ''log.tmp'' (decisions_path [''data''])) (decisions_path [''data'']) tx_sample_fs"
    "fmlookup (fs_files tx_sample_fs) (decisions_path [''data'']) = None" by code_simp+
  then show "tx_rel [''data''] tx_sample_fs []" by (simp add: tx_rel_def)
  show "wf_decision tx_sample" by code_simp
qed

theorem decision_store_is_record_list_witness:
  "\<exists>f'. io_run (tx_append \<lparr>tx_path = decisions_path [''data'']\<rparr> tx_sample) tx_sample_fs () f' \<and>
     tx_rel [''data''] f' [tx_sample]"
  using decision_store_is_record_list [OF tx_sample_rel, of "{||}"] by simp

text \<open>
  Forgetting decisions is crash atomic: wherever the rewrite of \<open>save_all\<close> is interrupted, the next load
  returns the old records or the new ones.
\<close>

lemma save_all_crash_atomic:
  assumes "tx_rel d f rs" and "list_all wf_decision rs'"
    and "crashes_to (tx_save_all \<lparr>tx_path = decisions_path d\<rparr> rs') f f'"
  shows "tx_load \<lparr>tx_path = decisions_path d\<rparr> f' = Inr rs \<or> tx_load \<lparr>tx_path = decisions_path d\<rparr> f' = Inr rs'"
proof -
  have "durable f (decisions_path d)"
    using assms(1) by (auto simp: tx_rel_def durable_def split: option.splits)
  then have "load_file tx_parse (decisions_path d) f' = load_file tx_parse (decisions_path d) f \<or>
      load_file tx_parse (decisions_path d) f' = Inr (Some rs')"
    using tx_file.crash_atomic [OF assms(2)] assms(1,3) by (simp add: tx_rel_def tx_save_all_def)
  then show ?thesis using tx_rel_load [OF assms(1)] by (auto simp: tx_load_def)
qed

text \<open>
  C32. An append is not crash atomic. When the crash comes after the line was written and before it was synced,
  and the last digits of the line are lost, the next load takes the rest of the line for a complete decision: it
  returns a commit for the prepared transaction 2 where the coordinator had decided on 25.
\<close>

theorem torn_append_changes_decision:
  "\<exists>g\<in>crash_points (tx_append \<lparr>tx_path = decisions_path [''data'']\<rparr> tx_sample) tx_sample_fs.
     \<exists>i n. fmlookup (fs_files g) (decisions_path [''data'']) = Some i \<and> i_synced i \<le> n \<and> n \<le> length (i_data i) \<and>
       tx_load \<lparr>tx_path = decisions_path [''data'']\<rparr>
         (set_file (decisions_path [''data'']) \<lparr>i_data = take n (i_data i), i_synced = n\<rparr> g) =
       Inr [tx_sample\<lparr>td_participants := [\<lparr>tp_location = ''a'', tp_shard_id = 1, tp_prepared_id = 2\<rparr>]\<rparr>]"
proof -
  let ?p = "decisions_path [''data'']" and ?bs = "as_bytes (tx_text [tx_sample])"
  let ?r = "tx_sample\<lparr>td_participants := [\<lparr>tp_location = ''a'', tp_shard_id = 1, tp_prepared_id = 2\<rparr>]\<rparr>"
  let ?g = "set_file ?p \<lparr>i_data = ?bs, i_synced = 0\<rparr> tx_sample_fs"
  have trace: "?g \<in> set (io_trace (tx_append \<lparr>tx_path = ?p\<rparr> tx_sample) tx_sample_fs)" by code_simp
  have cut: "take 23 ?bs = as_bytes (tx_text [] @ encode_record ?r)" by code_simp
  have "tx_parse (take 23 ?bs) = Inr ([] @ [?r])"
    unfolding cut by (rule tx_parse_unterminated) code_simp+
  moreover have "\<not> dir_exists tx_sample_fs ?p" by code_simp
  ultimately have load: "tx_load \<lparr>tx_path = ?p\<rparr> (set_file ?p \<lparr>i_data = take 23 ?bs, i_synced = 23\<rparr> ?g) = Inr [?r]"
    by (simp add: tx_load_def load_file_def file_content_def)
  have "length ?bs = 25" by code_simp
  then show ?thesis
    using trace load by (intro bexI [of _ ?g] exI [of _ "\<lparr>i_data = ?bs, i_synced = 0\<rparr>"] exI [of _ 23])
       (simp_all add: crash_points_def)
qed

end
