(* ===== verification/Membership_Store.thy ===== *)
theory Membership_Store
  imports Transaction_Store
begin

text \<open>
  The cluster membership file (\<open>membership.rs\<close> of the storage crate): a header line with the version, one
  tab-separated line per node and per shard assignment. Names and reasons that would break a line are
  rejected in the middle of a save. The round trip, the rejected save and the crash behaviour are the
  \<open>file_store\<close> facts for this format.
\<close>

section \<open>Data\<close>

datatype node_membership_state = Negotiating | Joining | Active | Draining | Leaving | NodeRemoved | Dead | Rejected

record cluster_node =
  cn_server_id :: u64
  cn_address :: string
  cn_state :: node_membership_state
  cn_protocol_version :: u64
  cn_storage_version :: u64
  cn_shard_count :: u64
  cn_rejection_reason :: string

datatype shard_assignment_state =
  Planned | CatchingUp | CaughtUp | ServingReplica | Promoting | ServingPrimary | Removing | AssignmentRemoved

record cluster_shard_assignment =
  ca_shard_id :: u64
  ca_server_id :: u64
  ca_state :: shard_assignment_state
  ca_match_index :: u64

record cluster_membership =
  cm_version :: u64
  cm_nodes :: "cluster_node list"
  cm_shard_assignments :: "cluster_shard_assignment list"

section \<open>Names of the states\<close>

fun encode_state :: "node_membership_state \<Rightarrow> string" where
  "encode_state Negotiating = ''negotiating''"
| "encode_state Joining = ''joining''"
| "encode_state Active = ''active''"
| "encode_state Draining = ''draining''"
| "encode_state Leaving = ''leaving''"
| "encode_state NodeRemoved = ''removed''"
| "encode_state Dead = ''dead''"
| "encode_state Rejected = ''rejected''"

text \<open>
  \<open>{value:?}\<close> of a string: quoted, with the escapes of \<open>char::escape_debug\<close> for the ASCII characters; other
  characters are printed as they are.
\<close>

definition hex_text :: "nat \<Rightarrow> string" where
  "hex_text n = (if n < 16 then [hex_digits ! n] else [hex_digits ! (n div 16 mod 16), hex_digits ! (n mod 16)])"

definition debug_char :: "char \<Rightarrow> string" where
  "debug_char c =
     (let n = (of_char c :: nat) in
      if n = 0 then [CHR 0x5C, CHR ''0'']
      else if n = 9 then [CHR 0x5C, CHR ''t'']
      else if n = 13 then [CHR 0x5C, CHR ''r'']
      else if n = 10 then [CHR 0x5C, CHR ''n'']
      else if n = 34 \<or> n = 92 then [CHR 0x5C, c]
      else if n < 32 \<or> n = 127 then [CHR 0x5C, CHR ''u'', CHR 0x7B] @ hex_text n @ [CHR 0x7D]
      else [c])"

definition debug_str :: "string \<Rightarrow> string" where
  "debug_str s = [CHR 0x22] @ concat (map debug_char s) @ [CHR 0x22]"

definition decode_state :: "string \<Rightarrow> storage_error + node_membership_state" where
  "decode_state v =
     (if v = ''negotiating'' then Inr Negotiating
      else if v = ''joining'' then Inr Joining
      else if v = ''active'' then Inr Active
      else if v = ''draining'' then Inr Draining
      else if v = ''leaving'' then Inr Leaving
      else if v = ''removed'' then Inr NodeRemoved
      else if v = ''dead'' then Inr Dead
      else if v = ''rejected'' then Inr Rejected
      else Inl (CorruptStore (''unknown cluster node state '' @ debug_str v)))"

fun encode_assignment_state :: "shard_assignment_state \<Rightarrow> string" where
  "encode_assignment_state Planned = ''planned''"
| "encode_assignment_state CatchingUp = ''catching_up''"
| "encode_assignment_state CaughtUp = ''caught_up''"
| "encode_assignment_state ServingReplica = ''serving_replica''"
| "encode_assignment_state Promoting = ''promoting''"
| "encode_assignment_state ServingPrimary = ''serving_primary''"
| "encode_assignment_state Removing = ''removing''"
| "encode_assignment_state AssignmentRemoved = ''removed''"

definition decode_assignment_state :: "string \<Rightarrow> storage_error + shard_assignment_state" where
  "decode_assignment_state v =
     (if v = ''planned'' then Inr Planned
      else if v = ''catching_up'' then Inr CatchingUp
      else if v = ''caught_up'' then Inr CaughtUp
      else if v = ''serving_replica'' then Inr ServingReplica
      else if v = ''promoting'' then Inr Promoting
      else if v = ''serving_primary'' then Inr ServingPrimary
      else if v = ''removing'' then Inr Removing
      else if v = ''removed'' then Inr AssignmentRemoved
      else Inl (CorruptStore (''unknown cluster shard assignment state '' @ debug_str v)))"

definition member_parse_u64 :: "string \<Rightarrow> string \<Rightarrow> storage_error + u64" where
  "member_parse_u64 input name =
     (case parse_u64 input of Some x \<Rightarrow> Inr x | None \<Rightarrow> Inl (CorruptStore (''invalid '' @ name)))"

section \<open>The store\<close>

record cluster_membership_store =
  cm_path :: path

definition membership_path :: "path \<Rightarrow> path" where
  "membership_path data_dir = join_path (join_path data_dir ''cluster'') ''membership.txt''"

definition membership_open :: "path \<Rightarrow> cluster_membership_store io" where
  "membership_open data_dir =
     io_seq (create_dir_all (join_path data_dir ''cluster'')) (io_return \<lparr>cm_path = membership_path data_dir\<rparr>)"

definition member_magic :: string where
  "member_magic = ''N4RMEM1''"

definition breaks_line :: "string \<Rightarrow> bool" where
  "breaks_line s = list_ex (\<lambda>c. c = CHR 0x09 \<or> c = CHR 0x0A \<or> c = CHR 0x0D) s"

definition node_line :: "cluster_node \<Rightarrow> string" where
  "node_line n = join_with tab
     [''node'', show_u64 (cn_server_id n), encode_state (cn_state n), show_u64 (cn_protocol_version n),
      show_u64 (cn_storage_version n), show_u64 (cn_shard_count n), cn_address n, cn_rejection_reason n]"

definition assignment_line :: "cluster_shard_assignment \<Rightarrow> string" where
  "assignment_line a = join_with tab
     [''assignment'', show_u64 (ca_shard_id a), show_u64 (ca_server_id a), encode_assignment_state (ca_state a),
      show_u64 (ca_match_index a)]"

definition header_line :: "u64 \<Rightarrow> string" where
  "header_line version = member_magic @ tab @ show_u64 version"

definition membership_bytes :: "cluster_membership \<Rightarrow> written" where
  "membership_bytes m = emit_list (
     [emit (line_bytes (header_line (cm_version m)))] @
     map (\<lambda>n. if breaks_line (cn_address n) \<or> breaks_line (cn_rejection_reason n)
              then emit_fail (CorruptStore ''cluster node contains invalid characters'')
              else emit (line_bytes (node_line n))) (cm_nodes m) @
     map (\<lambda>a. emit (line_bytes (assignment_line a))) (cm_shard_assignments m))"

definition membership_save :: "cluster_membership_store \<Rightarrow> cluster_membership \<Rightarrow> unit io" where
  "membership_save s m = replace_file (with_extension ''txt.tmp'' (cm_path s)) (cm_path s) (membership_bytes m)"

definition parse_node :: "string list \<Rightarrow> storage_error + cluster_node" where
  "parse_node parts =
     (if length parts \<noteq> 8 then Inl (CorruptStore ''invalid cluster node record'')
      else rbind (member_parse_u64 (parts ! 1) ''cluster node server id'') (\<lambda>server.
           rbind (decode_state (parts ! 2)) (\<lambda>state.
           rbind (member_parse_u64 (parts ! 3) ''cluster node protocol version'') (\<lambda>protocol.
           rbind (member_parse_u64 (parts ! 4) ''cluster node storage version'') (\<lambda>storage.
           rbind (member_parse_u64 (parts ! 5) ''cluster node shard count'') (\<lambda>shards.
           Inr \<lparr>cn_server_id = server, cn_address = parts ! 6, cn_state = state, cn_protocol_version = protocol,
                cn_storage_version = storage, cn_shard_count = shards, cn_rejection_reason = parts ! 7\<rparr>))))))"

definition parse_assignment :: "string list \<Rightarrow> storage_error + cluster_shard_assignment" where
  "parse_assignment parts =
     (if length parts \<noteq> 5 then Inl (CorruptStore ''invalid cluster shard assignment record'')
      else rbind (member_parse_u64 (parts ! 1) ''cluster assignment shard id'') (\<lambda>shard.
           rbind (member_parse_u64 (parts ! 2) ''cluster assignment server id'') (\<lambda>server.
           rbind (decode_assignment_state (parts ! 3)) (\<lambda>state.
           rbind (member_parse_u64 (parts ! 4) ''cluster assignment match index'') (\<lambda>index.
           Inr \<lparr>ca_shard_id = shard, ca_server_id = server, ca_state = state, ca_match_index = index\<rparr>)))))"

definition parse_legacy_node :: "string list \<Rightarrow> storage_error + cluster_node" where
  "parse_legacy_node parts =
     rbind (member_parse_u64 (parts ! 0) ''cluster node server id'') (\<lambda>server.
     rbind (decode_state (parts ! 1)) (\<lambda>state.
     Inr \<lparr>cn_server_id = server, cn_address = parts ! 2, cn_state = state, cn_protocol_version = 0,
          cn_storage_version = 0, cn_shard_count = 0, cn_rejection_reason = []\<rparr>))"

text \<open>The body of the loop over the lines; the nodes and assignments read so far are the state.\<close>

definition member_line ::
  "string \<Rightarrow> cluster_node list \<times> cluster_shard_assignment list \<Rightarrow>
    storage_error + cluster_node list \<times> cluster_shard_assignment list" where
  "member_line l st = (case st of (nodes, assignments) \<Rightarrow>
     rbind (checked_line l) (\<lambda>line.
     if line = [] then Inr st
     else let parts = split_on (CHR 0x09) line in
       if parts ! 0 = ''node'' then rbind (parse_node parts) (\<lambda>n. Inr (nodes @ [n], assignments))
       else if parts ! 0 = ''assignment'' then rbind (parse_assignment parts) (\<lambda>a. Inr (nodes, assignments @ [a]))
       else if length parts = 3 then rbind (parse_legacy_node parts) (\<lambda>n. Inr (nodes @ [n], assignments))
       else Inl (CorruptStore ''invalid cluster membership record'')))"

definition membership_parse :: "bytes \<Rightarrow> storage_error + cluster_membership" where
  "membership_parse bs =
     (case text_lines (of_bytes bs) of
        [] \<Rightarrow> Inl (CorruptStore ''missing cluster membership header'')
      | l # ls \<Rightarrow> rbind (checked_line l) (\<lambda>header.
          (case split_once (CHR 0x09) header of
             None \<Rightarrow> Inl (CorruptStore ''invalid cluster membership header'')
           | Some (magic, version) \<Rightarrow>
               if magic \<noteq> member_magic then Inl (CorruptStore ''invalid cluster membership magic'')
               else (case parse_u64 version of
                       None \<Rightarrow> Inl (CorruptStore ''invalid cluster membership version'')
                     | Some v \<Rightarrow> rbind (for_each ls member_line ([], [])) (\<lambda>(nodes, assignments).
                         Inr \<lparr>cm_version = v, cm_nodes = nodes, cm_shard_assignments = assignments\<rparr>)))))"

definition membership_load :: "cluster_membership_store \<Rightarrow> fs \<Rightarrow> storage_error + cluster_membership option" where
  "membership_load s = load_file membership_parse (cm_path s)"

section \<open>Round trip\<close>

lemma valid_utf8_append: "valid_utf8 a \<Longrightarrow> valid_utf8 b \<Longrightarrow> valid_utf8 (a @ b)"
proof (induction "length a" arbitrary: a rule: less_induct)
  case less
  note IH = less.hyps [OF _ _ less.prems(2)]
  show ?case
  proof (cases a)
    case (Cons x r)
    note valid = less.prems(1) [unfolded Cons valid_utf8.simps]
    let ?two = "0xC2 \<le> x \<and> x \<le> 0xDF" and ?three = "0xE0 \<le> x \<and> x \<le> 0xEF" and ?four = "0xF0 \<le> x \<and> x \<le> 0xF4"
    consider (one) "x \<le> 0x7F" | (two) "\<not> x \<le> 0x7F" ?two | (three) "\<not> x \<le> 0x7F" "\<not> ?two" ?three
      | (four) "\<not> x \<le> 0x7F" "\<not> ?two" "\<not> ?three" ?four
      using valid by argo
    then show ?thesis
    proof cases
      case one
      then show ?thesis using valid IH [of r] Cons by simp
    next
      case two
      note eqs = if_not_P [OF two(1)] if_P [OF two(2)]
      show ?thesis
        using valid IH unfolding Cons append_Cons valid_utf8.simps(2) eqs by (cases r) simp_all
    next
      case three
      note eqs = if_not_P [OF three(1)] if_not_P [OF three(2)] if_P [OF three(3)]
      show ?thesis
        using valid IH unfolding Cons append_Cons valid_utf8.simps(2) eqs by (cases r; cases "tl r") simp_all
    next
      case four
      note eqs = if_not_P [OF four(1)] if_not_P [OF four(2)] if_not_P [OF four(3)] if_P [OF four(4)]
      show ?thesis
        using valid IH unfolding Cons append_Cons valid_utf8.simps(2) eqs
        by (cases r; cases "tl r"; cases "tl (tl r)") simp_all
    qed
  qed (use less.prems in simp)
qed

lemma valid_string_append: "valid_string s \<Longrightarrow> valid_string t \<Longrightarrow> valid_string (s @ t)"
  by (simp add: valid_string_def valid_utf8_append)

lemma valid_string_join: "valid_string sep \<Longrightarrow> \<forall>x\<in>set xs. valid_string x \<Longrightarrow> valid_string (join_with sep xs)"
  by (induction sep xs rule: join_with.induct) (simp_all add: valid_string_append, simp add: valid_string_def as_bytes_def)

definition wf_node :: "cluster_node \<Rightarrow> bool" where
  "wf_node n \<longleftrightarrow> \<not> breaks_line (cn_address n) \<and> \<not> breaks_line (cn_rejection_reason n) \<and>
     valid_string (cn_address n) \<and> valid_string (cn_rejection_reason n)"

definition wf_membership :: "cluster_membership \<Rightarrow> bool" where
  "wf_membership m \<longleftrightarrow> list_all wf_node (cm_nodes m)"

lemma breaks_line_plain: "\<not> breaks_line s \<longleftrightarrow> plain_line s \<and> CHR 0x09 \<notin> set s"
  by (auto simp: breaks_line_def list_ex_iff plain_line_def)

definition field :: "string \<Rightarrow> bool" where
  "field s \<longleftrightarrow> plain_line s \<and> CHR 0x09 \<notin> set s \<and> valid_string s"

lemma ascii_field: "ascii s \<Longrightarrow> plain_line s \<Longrightarrow> CHR 0x09 \<notin> set s \<Longrightarrow> field s"
  by (simp add: field_def ascii_valid_string)

lemma field_show_u64 [simp]: "field (show_u64 x)"
  by (rule ascii_field) (simp_all add: show_u64_free digit_value_def)

lemma field_names [simp]: "field (encode_state st)" "field (encode_assignment_state sa)" "field ''node''" "field ''assignment''"
proof -
  show "field (encode_state st)" by (cases st; intro ascii_field; simp)
  show "field (encode_assignment_state sa)" by (cases sa; intro ascii_field; simp)
qed (intro ascii_field; simp)+

lemma field_lines:
  assumes "\<forall>x\<in>set xs. field x" and "xs \<noteq> []" and "hd xs \<noteq> []"
  shows "plain_line (join_with tab xs)" "checked_line (join_with tab xs) = Inr (join_with tab xs)"
    "split_on (CHR 0x09) (join_with tab xs) = xs" "join_with tab xs \<noteq> []"
proof -
  show "plain_line (join_with tab xs)" using assms(1) by (intro plain_join) (auto simp: field_def tab_def)
  have "valid_string tab" by code_simp
  then show "checked_line (join_with tab xs) = Inr (join_with tab xs)"
    using assms(1) valid_string_join [of tab xs] by (auto simp: field_def checked_line_def)
  show "split_on (CHR 0x09) (join_with tab xs) = xs"
    using assms(1,2) unfolding tab_def by (intro split_on_join) (auto simp: field_def)
  show "join_with tab xs \<noteq> []" using assms(2,3) by (cases xs; cases "tl xs") auto
qed

lemma decode_encode_states [simp]: "decode_state (encode_state st) = Inr st"
    "decode_assignment_state (encode_assignment_state sa) = Inr sa"
proof -
  show "decode_state (encode_state st) = Inr st" by (cases st; simp add: decode_state_def)
  show "decode_assignment_state (encode_assignment_state sa) = Inr sa"
    by (cases sa; simp add: decode_assignment_state_def)
qed

lemma member_line_node:
  "wf_node n \<Longrightarrow> member_line (node_line n) (nodes, assignments) = Inr (nodes @ [n], assignments)"
proof -
  assume wf: "wf_node n"
  let ?xs = "[''node'', show_u64 (cn_server_id n), encode_state (cn_state n), show_u64 (cn_protocol_version n),
      show_u64 (cn_storage_version n), show_u64 (cn_shard_count n), cn_address n, cn_rejection_reason n]"
  have "\<forall>x\<in>set ?xs. field x" using wf by (simp add: wf_node_def breaks_line_plain) (simp add: field_def)
  note lines = field_lines [OF this]
  have "parse_node ?xs = Inr n" by (cases n) (simp add: parse_node_def member_parse_u64_def)
  then show ?thesis using lines by (simp add: member_line_def node_line_def)
qed

lemma member_line_assignment:
  "member_line (assignment_line a) (nodes, assignments) = Inr (nodes, assignments @ [a])"
proof -
  let ?xs = "[''assignment'', show_u64 (ca_shard_id a), show_u64 (ca_server_id a), encode_assignment_state (ca_state a),
      show_u64 (ca_match_index a)]"
  have "\<forall>x\<in>set ?xs. field x" by simp
  note lines = field_lines [OF this]
  have "parse_assignment ?xs = Inr a" by (cases a) (simp add: parse_assignment_def member_parse_u64_def)
  then show ?thesis using lines by (simp add: member_line_def assignment_line_def)
qed

lemma for_each_append: "for_each (xs @ ys) f s = rbind (for_each xs f s) (for_each ys f)"
proof (induction xs arbitrary: s)
  case (Cons x xs)
  then show ?case by (cases "f x s") simp_all
qed simp

lemma member_lines:
  assumes "list_all wf_node ns"
  shows "for_each (map node_line ns @ map assignment_line sas) member_line ([], []) = Inr (ns, sas)"
proof -
  have "for_each (map node_line ns) member_line (nodes, assignments) = Inr (nodes @ ns, assignments)" for nodes assignments
    using assms by (induction ns arbitrary: nodes) (simp_all add: member_line_node)
  moreover have "for_each (map assignment_line sas) member_line (nodes, assignments) = Inr (nodes, assignments @ sas)"
    for nodes assignments
    by (induction sas arbitrary: assignments) (simp_all add: member_line_assignment)
  ultimately show ?thesis by (simp add: for_each_append)
qed

definition membership_text :: "cluster_membership \<Rightarrow> string list" where
  "membership_text m = header_line (cm_version m) # map node_line (cm_nodes m) @ map assignment_line (cm_shard_assignments m)"

lemma membership_text_plain: "wf_membership m \<Longrightarrow> \<forall>l\<in>set (membership_text m). plain_line l"
proof -
  assume wf: "wf_membership m"
  have "plain_line (node_line n)" if "n \<in> set (cm_nodes m)" for n
    using wf that by (auto simp: wf_membership_def list_all_iff wf_node_def breaks_line_plain node_line_def tab_def
        field_def [symmetric] intro!: plain_join) (use field_names in \<open>simp_all add: field_def\<close>)
  moreover have "plain_line (assignment_line a)" for a
    unfolding assignment_line_def by (intro plain_join) (use field_names in \<open>auto simp: tab_def field_def\<close>)
  ultimately show ?thesis by (auto simp: membership_text_def header_line_def member_magic_def tab_def)
qed

lemma membership_bytes_ok:
  assumes "wf_membership m"
  shows "membership_bytes m = (map line_bytes (membership_text m), None)"
proof -
  have nodes: "map (\<lambda>n. if breaks_line (cn_address n) \<or> breaks_line (cn_rejection_reason n)
      then emit_fail (CorruptStore ''cluster node contains invalid characters'')
      else emit (line_bytes (node_line n))) (cm_nodes m) = map emit (map (\<lambda>n. line_bytes (node_line n)) (cm_nodes m))"
    using assms by (simp add: wf_membership_def list_all_iff wf_node_def)
  show ?thesis
    unfolding membership_bytes_def nodes
    using emit_list_emits [of "map line_bytes (membership_text m)"] by (simp add: membership_text_def comp_def)
qed

lemma membership_roundtrip:
  assumes "wf_membership m"
  shows "membership_parse (emitted (membership_bytes m)) = Inr m"
proof -
  have "concat (map line_bytes ls) = as_bytes (concat (map (\<lambda>l. l @ [CHR 0x0A]) ls))" for ls
    by (induction ls) (simp_all add: line_bytes_def as_bytes_def)
  then have bytes: "emitted (membership_bytes m) = as_bytes (concat (map (\<lambda>l. l @ [CHR 0x0A]) (membership_text m)))"
    using assms by (simp add: membership_bytes_ok emitted_def)
  have lines: "text_lines (of_bytes (emitted (membership_bytes m))) = membership_text m"
    using text_lines_concat [OF membership_text_plain [OF assms], of "[]"] unfolding bytes by simp
  have "ascii (header_line (cm_version m))" by (simp add: header_line_def member_magic_def tab_def)
  then have "checked_line (header_line (cm_version m)) = Inr (header_line (cm_version m))"
    by (simp add: checked_line_def ascii_valid_string)
  moreover have "split_once (CHR 0x09) (header_line (cm_version m)) = Some (member_magic, show_u64 (cm_version m))"
    using split_once_append [of "CHR 0x09" member_magic] by (simp add: header_line_def tab_def member_magic_def)
  ultimately show ?thesis
    using assms by (simp add: membership_parse_def lines) (simp add: membership_text_def member_lines wf_membership_def)
qed

section \<open>The store keeps the contract\<close>

lemma txt_tmp_differs: "with_extension ''txt.tmp'' (membership_path d) \<noteq> membership_path d"
  unfolding membership_path_def by (rule tmp_differs) (simp add: file_stem_def split_at_dot_def join_path_def)

interpretation membership_file: file_store "membership_path d" "with_extension ''txt.tmp'' (membership_path d)"
    membership_bytes membership_parse "\<lambda>m. m" wf_membership for d
  by unfold_locales
     (rule txt_tmp_differs, simp add: parent_def with_extension_def, simp add: membership_bytes_ok, rule membership_roundtrip)

lemma breaking_node_fails:
  assumes "\<exists>n\<in>set (cm_nodes m). breaks_line (cn_address n) \<or> breaks_line (cn_rejection_reason n)"
  shows "snd (membership_bytes m) = Some (CorruptStore ''cluster node contains invalid characters'')"
proof -
  let ?e = "CorruptStore ''cluster node contains invalid characters''"
  have fails: "snd (foldr emit_seq outs ([], None)) = Some ?e"
    if "emit_fail ?e \<in> set outs" "\<forall>out\<in>set outs. snd out \<in> {None, Some ?e}" for outs
    using that by (induction outs) (auto simp: emit_seq_def emit_fail_def split: option.splits)
  show ?thesis
    unfolding membership_bytes_def emit_list_def
    by (rule fails) (use assms in \<open>auto simp: emit_def emit_fail_def image_iff\<close>)
qed

text \<open>
  C33. The membership file. A membership whose addresses and reasons contain no tab and no line break is
  loaded as it was saved, and a crash during the save leaves the old membership or the new one. A node with
  such a character makes the save fail, and the stored membership stays what it was.
\<close>

theorem membership_save_load:
  assumes "replaceable (with_extension ''txt.tmp'' (membership_path d)) (membership_path d) f"
    and "durable f (membership_path d)" and "wf_membership m"
    and "\<exists>n\<in>set (cm_nodes bad). breaks_line (cn_address n) \<or> breaks_line (cn_rejection_reason n)"
  shows "(\<exists>f'. io_run (membership_save \<lparr>cm_path = membership_path d\<rparr> m) f () f' \<and>
      membership_load \<lparr>cm_path = membership_path d\<rparr> f' = Inr (Some m) \<and> durable f' (membership_path d)) \<and>
    (\<forall>f'. crashes_to (membership_save \<lparr>cm_path = membership_path d\<rparr> m) f f' \<longrightarrow>
      membership_load \<lparr>cm_path = membership_path d\<rparr> f' = membership_load \<lparr>cm_path = membership_path d\<rparr> f \<or>
      membership_load \<lparr>cm_path = membership_path d\<rparr> f' = Inr (Some m)) \<and>
    io_result (membership_save \<lparr>cm_path = membership_path d\<rparr> bad) f =
      Inl (CorruptStore ''cluster node contains invalid characters'') \<and>
    membership_load \<lparr>cm_path = membership_path d\<rparr> (io_final (membership_save \<lparr>cm_path = membership_path d\<rparr> bad) f) =
      membership_load \<lparr>cm_path = membership_path d\<rparr> f"
  using membership_file.load_after_save [OF assms(3,1)] membership_file.crash_atomic [OF assms(3,1,2)]
    membership_file.failed_save [OF breaking_node_fails [OF assms(4)] assms(1)]
  by (simp add: membership_save_def membership_load_def)

definition sample_member :: "string \<Rightarrow> cluster_membership" where
  "sample_member address = \<lparr>cm_version = 3, cm_nodes =
     [\<lparr>cn_server_id = 1, cn_address = address, cn_state = Active, cn_protocol_version = 1, cn_storage_version = 1,
       cn_shard_count = 4, cn_rejection_reason = []\<rparr>],
     cm_shard_assignments = [\<lparr>ca_shard_id = 0, ca_server_id = 1, ca_state = CaughtUp, ca_match_index = 9\<rparr>]\<rparr>"

definition sample_cluster_fs :: fs where
  "sample_cluster_fs = io_final (membership_open [''data'']) \<lparr>fs_dirs = {|[]|}, fs_files = fmempty\<rparr>"

theorem membership_save_load_witness:
  "\<exists>f'. io_run (membership_save \<lparr>cm_path = membership_path [''data'']\<rparr> (sample_member ''h:1'')) sample_cluster_fs () f' \<and>
     membership_load \<lparr>cm_path = membership_path [''data'']\<rparr> f' = Inr (Some (sample_member ''h:1''))"
proof -
  have "replaceable (with_extension ''txt.tmp'' (membership_path [''data''])) (membership_path [''data'']) sample_cluster_fs"
    by code_simp
  moreover have "fs_files sample_cluster_fs = fmempty" by code_simp
  then have "durable sample_cluster_fs (membership_path [''data''])" by (simp add: durable_def)
  moreover have "wf_membership (sample_member ''h:1'')" by code_simp
  moreover have "\<exists>n\<in>set (cm_nodes (sample_member [CHR 0x0A])). breaks_line (cn_address n) \<or> breaks_line (cn_rejection_reason n)"
    by code_simp
  ultimately show ?thesis using membership_save_load [of "[''data'']" sample_cluster_fs] by blast
qed

end
