(* ===== verification/Log_File.thy ===== *)
theory Log_File
  imports Files
begin

text \<open>
  The command logs of \<open>log.rs\<close>: length-prefixed payloads after a header, a log of bare commands, a log of
  one shard's entries, and the shard log that is split into segment files of a fixed number of indexes,
  with replay from an index, truncation and the choice of segments that compaction may delete.
\<close>

section \<open>Log files\<close>

definition log_magic_v1 :: bytes where
  "log_magic_v1 = as_bytes (''N4RLOG1'' @ [CHR 0x0A])"

definition log_magic_v2 :: bytes where
  "log_magic_v2 = as_bytes (''N4RLOG2'' @ [CHR 0x0A])"

datatype log_file_format_version = LogV1 | LogV2

definition validate_header :: "bytes \<Rightarrow> storage_error + log_file_format_version" where
  "validate_header bs =
     (if length bs < length log_magic_v1 then Inl (CorruptLog ''missing header'')
      else let header = take (length log_magic_v1) bs
           in if header = log_magic_v1 then Inr LogV1
              else if header = log_magic_v2 then Inr LogV2
              else Inl (CorruptLog ''invalid header''))"

definition read_contents :: "path \<Rightarrow> bytes io" where
  "read_contents p = io_get (\<lambda>f. case file_content f p of None \<Rightarrow> Inl not_found | Some bs \<Rightarrow> Inr bs)"

definition io_check :: "storage_error + 'a \<Rightarrow> 'a io" where
  "io_check r = (case r of Inl e \<Rightarrow> io_fail e | Inr x \<Rightarrow> io_return x)"

definition open_log_file :: "path \<Rightarrow> unit io" where
  "open_log_file p =
     io_seq (open_append p)
       (io_bind (read_contents p) (\<lambda>bs.
          if length bs = 0 then write_all p log_magic_v2
          else io_bind (io_check (validate_header bs)) (\<lambda>_. io_return ())))"

definition write_payload :: "path \<Rightarrow> bytes \<Rightarrow> bool \<Rightarrow> unit io" where
  "write_payload p payload sync =
     (if \<not> fits_u32 (length payload) then io_fail (CorruptLog ''log payload is too large'')
      else io_seq (write_all p (write_u32 (of_nat (length payload))))
             (io_seq (write_all p payload) (if sync then sync_all p else io_return ())))"

text \<open>\<open>read_payload\<close> returns the payload and what is left of the file, or \<open>None\<close> at its end.\<close>

definition read_entry_len :: "bytes \<Rightarrow> storage_error + (u32 \<times> bytes) option" where
  "read_entry_len rest =
     (if length rest = 0 then Inr None
      else if length rest < 4 then Inl (CorruptLog ''truncated command length'')
      else Inr (Some (from_be_u32 (take 4 rest), drop 4 rest)))"

definition read_payload :: "bytes \<Rightarrow> storage_error + (bytes \<times> bytes) option" where
  "read_payload rest =
     rbind (read_entry_len rest) (\<lambda>r. case r of
        None \<Rightarrow> Inr None
      | Some (len, body) \<Rightarrow>
          if length body < unat len then Inl (CorruptLog ''truncated command payload'')
          else Inr (Some (take (unat len) body, drop (unat len) body)))"

lemma read_payload_shorter: "read_payload rest = Inr (Some (payload, rest')) \<Longrightarrow> length rest' < length rest"
  by (auto simp: read_payload_def read_entry_len_def rbind_Inr_iff split: if_splits option.splits)

text \<open>The replay loop: read a payload, decode it, push the result, until the end of the file.\<close>

function read_log :: "(bytes \<Rightarrow> storage_error + 'a) \<Rightarrow> bytes \<Rightarrow> storage_error + 'a list" where
  "read_log decode rest =
     (case read_payload rest of
        Inl e \<Rightarrow> Inl e
      | Inr None \<Rightarrow> Inr []
      | Inr (Some (payload, rest')) \<Rightarrow>
          rbind (decode payload) (\<lambda>x. rbind (read_log decode rest') (\<lambda>xs. Inr (x # xs))))"
  by pat_completeness auto
termination
  by (relation "measure (\<lambda>(_, rest). length rest)") (auto dest: read_payload_shorter)

declare read_log.simps [simp del]

definition replay_file :: "(bytes \<Rightarrow> storage_error + 'a) \<Rightarrow> path \<Rightarrow> 'a list io" where
  "replay_file decode p =
     io_bind (read_contents p) (\<lambda>bs.
     io_bind (io_check (validate_header bs)) (\<lambda>_.
     io_check (read_log decode (drop (length log_magic_v1) bs))))"

section \<open>The command log\<close>

record command_log =
  cl_path :: path

definition command_log_open :: "path \<Rightarrow> command_log io" where
  "command_log_open p = io_seq (open_log_file p) (io_return \<lparr>cl_path = p\<rparr>)"

definition command_log_append :: "command_log \<Rightarrow> command \<Rightarrow> unit io" where
  "command_log_append l c = write_payload (cl_path l) (encode_command c) True"

definition command_log_replay :: "command_log \<Rightarrow> command list io" where
  "command_log_replay l = replay_file decode_command (cl_path l)"

section \<open>The log of one shard\<close>

record shard_log =
  sh_shard_id :: shard_id
  sh_path :: path

definition shard_log_open :: "path \<Rightarrow> shard_id \<Rightarrow> shard_log io" where
  "shard_log_open data_dir s =
     (let shard_dir = join_path (join_path data_dir ''shards'') (show_u64 s);
          p = join_path shard_dir ''command.log''
      in io_seq (create_dir_all shard_dir) (io_seq (open_log_file p) (io_return \<lparr>sh_shard_id = s, sh_path = p\<rparr>)))"

definition shard_log_append :: "shard_log \<Rightarrow> log_entry \<Rightarrow> unit io" where
  "shard_log_append l e =
     (if entry_shard_id e \<noteq> sh_shard_id l then io_fail (WrongShard (sh_shard_id l) (entry_shard_id e))
      else write_payload (sh_path l) (encode_log_entry e) True)"

definition decode_shard_entry :: "shard_id \<Rightarrow> bytes \<Rightarrow> storage_error + log_entry" where
  "decode_shard_entry s payload =
     rbind (decode_log_entry payload) (\<lambda>e.
       if entry_shard_id e \<noteq> s then Inl (WrongShard s (entry_shard_id e)) else Inr e)"

definition shard_log_replay :: "shard_log \<Rightarrow> log_entry list io" where
  "shard_log_replay l = replay_file (decode_shard_entry (sh_shard_id l)) (sh_path l)"

section \<open>The segmented log\<close>

record segmented_shard_log =
  sl_shard_id :: shard_id
  sl_entries_per_segment :: u64
  sl_segments_dir :: path

definition segmented_open :: "path \<Rightarrow> shard_id \<Rightarrow> u64 \<Rightarrow> segmented_shard_log io" where
  "segmented_open data_dir s n =
     (if n = 0 then io_fail (CorruptLog ''entries per segment must be greater than zero'')
      else let d = join_path (join_path (join_path data_dir ''shards'') (show_u64 s)) ''segments''
           in io_seq (create_dir_all d)
                (io_return \<lparr>sl_shard_id = s, sl_entries_per_segment = n, sl_segments_dir = d\<rparr>))"

definition segment_start_for_index :: "segmented_shard_log \<Rightarrow> u64 \<Rightarrow> u64" where
  "segment_start_for_index l index =
     (if index = 0 then 0 else ((index - 1) div sl_entries_per_segment l) * sl_entries_per_segment l + 1)"

definition segment_name :: "u64 \<Rightarrow> string" where
  "segment_name start = pad_zeros 20 (show_u64 start) @ ''.log''"

definition segment_path_for_index :: "segmented_shard_log \<Rightarrow> u64 \<Rightarrow> path" where
  "segment_path_for_index l index =
     join_path (sl_segments_dir l) (segment_name (segment_start_for_index l index))"

definition append_with_sync :: "segmented_shard_log \<Rightarrow> log_entry \<Rightarrow> bool \<Rightarrow> unit io" where
  "append_with_sync l e sync =
     (if entry_shard_id e \<noteq> sl_shard_id l then io_fail (WrongShard (sl_shard_id l) (entry_shard_id e))
      else let p = segment_path_for_index l (entry_index e)
           in io_seq (open_log_file p) (write_payload p (encode_log_entry e) sync))"

definition segmented_append :: "segmented_shard_log \<Rightarrow> log_entry \<Rightarrow> unit io" where
  "segmented_append l e = append_with_sync l e True"

definition sync_segment_for_index :: "segmented_shard_log \<Rightarrow> u64 \<Rightarrow> unit io" where
  "sync_segment_for_index l index =
     (let p = segment_path_for_index l index in io_seq (open_log_file p) (sync_all p))"

definition segment_start_from_path :: "path \<Rightarrow> storage_error + u64 option" where
  "segment_start_from_path p =
     (if extension p \<noteq> Some ''log'' then Inr None
      else case parse_u64 (file_stem p) of
             Some start \<Rightarrow> Inr (Some start)
           | None \<Rightarrow> Inl (CorruptLog (''invalid segment file name '' @ file_stem p)))"

text \<open>The directory scan both selections share: keep the segments whose start satisfies the test, by start.\<close>

fun select_segments :: "(u64 \<Rightarrow> bool) \<Rightarrow> path list \<Rightarrow> storage_error + (u64 \<times> path) list" where
  "select_segments keep [] = Inr []"
| "select_segments keep (p # ps) =
     rbind (segment_start_from_path p) (\<lambda>start.
     rbind (select_segments keep ps) (\<lambda>rest.
     Inr (case start of None \<Rightarrow> rest | Some s \<Rightarrow> if keep s then (s, p) # rest else rest)))"

definition segment_paths :: "segmented_shard_log \<Rightarrow> (u64 \<Rightarrow> bool) \<Rightarrow> fs \<Rightarrow> storage_error + path list" where
  "segment_paths l keep f =
     rbind (fs_read_dir (sl_segments_dir l) f) (\<lambda>ps.
     rbind (select_segments keep ps) (\<lambda>sel. Inr (map snd (sort_key fst sel))))"

definition segment_paths_from :: "segmented_shard_log \<Rightarrow> u64 \<Rightarrow> fs \<Rightarrow> storage_error + path list" where
  "segment_paths_from l start_index =
     (let start_segment = segment_start_for_index l start_index in segment_paths l (\<lambda>s. start_segment \<le> s))"

definition compaction_candidates_before :: "segmented_shard_log \<Rightarrow> u64 \<Rightarrow> fs \<Rightarrow> storage_error + path list" where
  "compaction_candidates_before l retained_index =
     (let retained_segment = segment_start_for_index l retained_index in segment_paths l (\<lambda>s. s < retained_segment))"

fun replay_segments :: "segmented_shard_log \<Rightarrow> u64 \<Rightarrow> path list \<Rightarrow> log_entry list \<Rightarrow> log_entry list io" where
  "replay_segments l start_index [] acc = io_return acc"
| "replay_segments l start_index (p # ps) acc =
     io_seq (open_log_file p)
       (io_bind (replay_file (decode_shard_entry (sl_shard_id l)) p) (\<lambda>entries.
          replay_segments l start_index ps (acc @ filter (\<lambda>e. start_index \<le> entry_index e) entries)))"

definition replay_from :: "segmented_shard_log \<Rightarrow> u64 \<Rightarrow> log_entry list io" where
  "replay_from l start_index =
     io_bind (io_get (segment_paths_from l start_index)) (\<lambda>paths. replay_segments l start_index paths [])"

definition segmented_replay :: "segmented_shard_log \<Rightarrow> log_entry list io" where
  "segmented_replay l = replay_from l 0"

definition segmented_entry :: "segmented_shard_log \<Rightarrow> u64 \<Rightarrow> log_entry option io" where
  "segmented_entry l index =
     io_bind (replay_from l index) (\<lambda>entries. io_return (find (\<lambda>e. entry_index e = index) entries))"

definition remove_if_exists :: "path \<Rightarrow> unit io" where
  "remove_if_exists d = io_bind (io_get (\<lambda>f. Inr (dir_exists f d))) (\<lambda>ex. if ex then remove_dir_all d else io_return ())"

definition truncate_tmp :: "segmented_shard_log \<Rightarrow> path" where
  "truncate_tmp l = with_extension ''segments.tmp'' (sl_segments_dir l)"

definition truncate_old :: "segmented_shard_log \<Rightarrow> path" where
  "truncate_old l = with_extension ''segments.old'' (sl_segments_dir l)"

definition install_truncated :: "segmented_shard_log \<Rightarrow> unit io" where
  "install_truncated l =
     io_seq (remove_if_exists (truncate_old l))
     (io_seq (rename_dir (sl_segments_dir l) (truncate_old l))
     (io_seq (rename_dir (truncate_tmp l) (sl_segments_dir l))
     (io_seq (sync_parent_dir (sl_segments_dir l)) (remove_dir_all (truncate_old l)))))"

definition truncate_from :: "segmented_shard_log \<Rightarrow> u64 \<Rightarrow> unit io" where
  "truncate_from l index =
     io_bind (segmented_replay l) (\<lambda>entries.
       let retained = filter (\<lambda>e. entry_index e < index) entries in
       io_seq (remove_if_exists (truncate_tmp l))
       (io_seq (create_dir_all (truncate_tmp l))
       (io_seq (io_for retained (segmented_append (l\<lparr>sl_segments_dir := truncate_tmp l\<rparr>)))
         (install_truncated l))))"

section \<open>Payload files\<close>

definition frame :: "bytes \<Rightarrow> bytes" where
  "frame payload = write_u32 (of_nat (length payload)) @ payload"

definition frames :: "bytes list \<Rightarrow> bytes" where
  "frames ps = concat (map frame ps)"

lemma frames_simps [simp]: "frames [] = []" "frames (p # ps) = frame p @ frames ps" "frames (ps @ qs) = frames ps @ frames qs"
  by (simp_all add: frames_def)

lemma read_payload_frame: "fits_u32 (length p) \<Longrightarrow> read_payload (frame p @ rest) = Inr (Some (p, rest))"
  by (simp add: read_payload_def read_entry_len_def frame_def write_u32_def unat_of_nat_u32)

lemma read_payload_torn:
  assumes "0 < k" and "k < length (frame p)" and "fits_u32 (length p)"
  shows "\<exists>msg. read_payload (take k (frame p)) = Inl (CorruptLog msg)"
proof (cases "k < 4")
  case True
  then have "read_payload (take k (frame p)) = Inl (CorruptLog ''truncated command length'')"
    using assms(1) by (simp add: read_payload_def read_entry_len_def frame_def write_u32_def)
  then show ?thesis by blast
next
  case False
  then have "take k (frame p) = write_u32 (of_nat (length p)) @ take (k - 4) p"
    by (simp add: frame_def write_u32_def)
  then have "read_payload (take k (frame p)) = Inl (CorruptLog ''truncated command payload'')"
    using assms False by (simp add: read_payload_def read_entry_len_def write_u32_def unat_of_nat_u32 frame_def)
  then show ?thesis by blast
qed

text \<open>What a log relies on of the codec of its records.\<close>

locale log_codec =
  fixes enc :: "'a \<Rightarrow> bytes" and dec :: "bytes \<Rightarrow> storage_error + 'a" and ok :: "'a \<Rightarrow> bool"
  assumes dec_enc: "ok x \<Longrightarrow> dec (enc x) = Inr x"
    and enc_fits: "ok x \<Longrightarrow> fits_u32 (length (enc x))"
begin

lemma read_log_frames_append:
  "list_all ok xs \<Longrightarrow> read_log dec (frames (map enc xs) @ rest) = rbind (read_log dec rest) (\<lambda>ys. Inr (xs @ ys))"
proof (induction xs)
  case Nil
  then show ?case by (cases "read_log dec rest") simp_all
next
  case (Cons x xs)
  then have "read_payload (frames (map enc (x # xs)) @ rest) = Inr (Some (enc x, frames (map enc xs) @ rest))"
    using read_payload_frame [OF enc_fits] by simp
  then show ?case using Cons by (subst read_log.simps) (simp add: dec_enc rbind_assoc)
qed

lemma read_log_frames: "list_all ok xs \<Longrightarrow> read_log dec (frames (map enc xs)) = Inr xs"
proof -
  have "read_log dec [] = Inr []" by (subst read_log.simps) (simp add: read_payload_def read_entry_len_def)
  then show "list_all ok xs \<Longrightarrow> ?thesis" using read_log_frames_append [of xs "[]"] by simp
qed

lemma read_log_torn:
  assumes "list_all ok xs" and "ok x" and "k \<le> length (frame (enc x))"
  shows "read_log dec (frames (map enc xs) @ take k (frame (enc x))) = Inr xs \<and> k = 0 \<or>
    read_log dec (frames (map enc xs) @ take k (frame (enc x))) = Inr (xs @ [x]) \<and> k = length (frame (enc x)) \<or>
    (\<exists>msg. read_log dec (frames (map enc xs) @ take k (frame (enc x))) = Inl (CorruptLog msg))"
proof -
  consider "k = 0" | "k = length (frame (enc x))" | "0 < k" "k < length (frame (enc x))" using assms(3) by linarith
  then show ?thesis
  proof cases
    case 1
    then show ?thesis using read_log_frames [OF assms(1)] by simp
  next
    case 2
    then show ?thesis using read_log_frames [of "xs @ [x]"] assms(1,2) by simp
  next
    case 3
    then obtain msg where "read_payload (take k (frame (enc x))) = Inl (CorruptLog msg)"
      using read_payload_torn enc_fits [OF assms(2)] by blast
    then have "read_log dec (take k (frame (enc x))) = Inl (CorruptLog msg)" by (subst read_log.simps) simp
    then show ?thesis using read_log_frames_append [OF assms(1)] by simp
  qed
qed

end

text \<open>The records a log file holds.\<close>

definition log_holds :: "('a \<Rightarrow> bytes) \<Rightarrow> path \<Rightarrow> 'a list \<Rightarrow> fs \<Rightarrow> bool" where
  "log_holds enc p xs f \<longleftrightarrow> file_content f p = Some (log_magic_v2 @ frames (map enc xs))"

lemma length_log_magic [simp]: "length log_magic_v1 = 8" "length log_magic_v2 = 8"
  by (simp_all add: log_magic_v1_def log_magic_v2_def)

lemma log_magic_distinct [simp]: "log_magic_v2 \<noteq> log_magic_v1" "log_magic_v2 \<noteq> []"
  by (simp_all add: log_magic_v1_def log_magic_v2_def as_bytes_def)

lemma validate_magic [simp]: "validate_header (log_magic_v2 @ bs) = Inr LogV2"
  by (simp add: validate_header_def)

lemma run_check: "io_run (io_check (Inr x)) f x f"
  by (simp add: io_check_def io_run_return)

lemma run_read_contents: "file_content f p = Some bs \<Longrightarrow> io_run (read_contents p) f bs f"
  unfolding read_contents_def by (rule io_run_get) simp

lemma replay_file_eq:
  assumes "file_content f p = Some (log_magic_v2 @ bs)"
  shows "io_result (replay_file dec p) f = read_log dec bs"
  using assms
  by (simp add: replay_file_def io_result_def read_contents_def io_bind_def io_get_def io_check_def io_return_def
      io_fail_def split: sum.splits)

lemma run_open_existing:
  assumes "file_content f p = Some (log_magic_v2 @ bs)" and "dir_exists f (parent p)" and "\<not> dir_exists f p"
  shows "io_run (open_log_file p) f () f"
proof -
  have "p |\<in>| fmdom (fs_files f)" using assms(1) by (auto simp: file_content_def fmlookup_dom_iff)
  then have "io_run (open_append p) f () f"
    using assms(2,3) unfolding open_append_def by (intro io_run_step) (simp add: fs_open_append_def)
  then show ?thesis
    unfolding open_log_file_def
    by (rule io_run_seq) (rule io_run_bind [OF run_read_contents [OF assms(1)]],
        simp, rule io_run_bind [OF run_check io_run_return])
qed

lemma run_open_missing:
  assumes "fmlookup (fs_files f) p = None" and "dir_exists f (parent p)" and "\<not> dir_exists f p"
  shows "io_run (open_log_file p) f () (set_file p \<lparr>i_data = log_magic_v2, i_synced = 0\<rparr> f)"
proof -
  let ?g = "set_file p \<lparr>i_data = [], i_synced = 0\<rparr> f"
  have "p |\<notin>| fmdom (fs_files f)" using assms(1) by (simp add: fmlookup_dom_iff)
  then have "io_run (open_append p) f () ?g"
    using assms(2,3) unfolding open_append_def by (intro io_run_step) (simp add: fs_open_append_def)
  moreover have "io_run (write_all p log_magic_v2) ?g () (set_file p \<lparr>i_data = log_magic_v2, i_synced = 0\<rparr> f)"
    unfolding write_all_def by (rule io_run_step) (simp add: fs_write_all_def)
  ultimately show ?thesis
    unfolding open_log_file_def
    by (intro io_run_seq [of _ _ ?g] io_run_bind [OF run_read_contents [of ?g p "[]"]]) (simp_all add: file_content_def)
qed

lemma run_write_payload:
  assumes "fmlookup (fs_files f) p = Some i" and "fits_u32 (length payload)"
  shows "io_run (write_payload p payload sync) f ()
    (set_file p \<lparr>i_data = i_data i @ frame payload,
       i_synced = (if sync then length (i_data i @ frame payload) else i_synced i)\<rparr> f)"
proof -
  let ?g = "\<lambda>bs n. set_file p \<lparr>i_data = i_data i @ bs, i_synced = n\<rparr> f" and ?len = "write_u32 (of_nat (length payload))"
  have len: "io_run (write_all p ?len) f () (?g ?len (i_synced i))"
    using assms(1) unfolding write_all_def by (intro io_run_step) (cases i; simp add: fs_write_all_def)
  have body: "io_run (write_all p payload) (?g ?len (i_synced i)) () (?g (frame payload) (i_synced i))"
    unfolding write_all_def by (rule io_run_step) (simp add: fs_write_all_def frame_def)
  have sync: "io_run (if sync then sync_all p else io_return ()) (?g (frame payload) (i_synced i)) ()
      (?g (frame payload) (if sync then length (i_data i @ frame payload) else i_synced i))"
    by (cases sync) (simp_all add: sync_all_def io_run_step fs_sync_all_def io_run_return)
  from io_run_seq [OF len io_run_seq [OF body sync]] show ?thesis using assms(2) by (simp add: write_payload_def)
qed

lemma write_payload_crash:
  assumes look: "fmlookup (fs_files f) p = Some i" and durable: "i_synced i = length (i_data i)"
    and fits: "fits_u32 (length payload)" and crash: "crashes_to (write_payload p payload sync) f f'"
  shows "\<exists>k\<le>length (frame payload). file_content f' p = Some (i_data i @ take k (frame payload))"
proof -
  define Q where "Q g \<longleftrightarrow> (\<exists>k s. k \<le> length (frame payload) \<and> length (i_data i) \<le> s \<and>
      fmlookup (fs_files g) p = Some \<lparr>i_data = i_data i @ take k (frame payload), i_synced = s\<rparr>)" for g :: fs
  have start: "Q f" unfolding Q_def using look durable by (intro exI [of _ 0] exI [of _ "i_synced i"]) simp
  let ?len = "write_u32 (of_nat (length payload))"
  have frame: "take 4 (frame payload) = ?len" "4 \<le> length (frame payload)" "?len @ payload = frame payload"
    by (simp_all add: frame_def)
  let ?g = "\<lambda>bs. set_file p \<lparr>i_data = i_data i @ bs, i_synced = i_synced i\<rparr> f"
  have w1: "io_run (write_all p ?len) f () (?g ?len)"
    using look unfolding write_all_def by (intro io_run_step) (cases i; simp add: fs_write_all_def)
  have w2: "io_run (write_all p payload) (?g ?len) () (?g (frame payload))"
    unfolding write_all_def by (rule io_run_step) (simp add: fs_write_all_def frame_def)
  have Q1: "Q (?g ?len)" unfolding Q_def using frame durable by (intro exI [of _ 4] exI [of _ "i_synced i"]) simp
  have Q2: "Q (?g (frame payload))"
    unfolding Q_def using durable by (intro exI [of _ "length (frame payload)"] exI [of _ "i_synced i"]) simp
  have step: "io_through Q (io_step h) g" if "io_run (io_step h) g () g'" "Q g'" for h g g'
    using that by (intro io_through_step) (auto dest: io_run_stepD)
  let ?done = "set_file p \<lparr>i_data = i_data i @ frame payload, i_synced = length (i_data i @ frame payload)\<rparr> f"
  have Q3: "Q ?done"
    unfolding Q_def by (intro exI [of _ "length (frame payload)"] exI [of _ "length (i_data i @ frame payload)"]) simp
  have t3: "io_through Q (if sync then sync_all p else io_return ()) (?g (frame payload))"
    using step [OF _ Q3, of "fs_sync_all p" "?g (frame payload)"]
    by (simp add: sync_all_def io_run_step fs_sync_all_def)
  have t1: "io_through Q (write_all p ?len) f" and t2: "io_through Q (write_all p payload) (?g ?len)"
    using step [OF w1 [unfolded write_all_def] Q1] step [OF w2 [unfolded write_all_def] Q2] by (simp_all add: write_all_def)
  have "io_through Q (write_payload p payload sync) f"
    using io_through_seq' [OF t1 w1 io_through_seq' [OF t2 w2 t3]] fits by (simp add: write_payload_def)
  from crashes_through [OF crash this start] obtain g k s where
    g: "k \<le> length (frame payload)" "length (i_data i) \<le> s" "survives g f'"
       "fmlookup (fs_files g) p = Some \<lparr>i_data = i_data i @ take k (frame payload), i_synced = s\<rparr>"
    by (auto simp: Q_def)
  obtain n where n: "min s (length (i_data i @ take k (frame payload))) \<le> n" "n \<le> length (i_data i @ take k (frame payload))"
    "fmlookup (fs_files f') p = Some \<lparr>i_data = take n (i_data i @ take k (frame payload)), i_synced = n\<rparr>"
    using g(3) [unfolded survives_def, THEN conjunct2, rule_format, of p] g(4) by auto
  then have "file_content f' p = Some (i_data i @ take (min (n - length (i_data i)) k) (frame payload))"
    using g(2) by (simp add: file_content_def take_take)
  then show ?thesis using g(1) by (intro exI [of _ "min (n - length (i_data i)) k"]) simp
qed

interpretation command_codec: log_codec encode_command decode_command
    "\<lambda>c. wf_command c \<and> fits_u32 (length (encode_command c))"
  by unfold_locales (auto intro!: decode_command_ok simp: fits_u32_def)

definition entry_ok :: "shard_id \<Rightarrow> log_entry \<Rightarrow> bool" where
  "entry_ok s e \<longleftrightarrow> wf_entry e \<and> entry_shard_id e = s \<and> fits_u32 (length (encode_log_entry e))"

interpretation entry_codec: log_codec encode_log_entry "decode_shard_entry s" "entry_ok s" for s
  by unfold_locales (auto simp: entry_ok_def decode_shard_entry_def decode_encode_log_entry_ok)

text \<open>
  The log of a shard. On a synced log that holds the entries \<open>es\<close>, appending an entry of the shard returns
  after the entry is durable, and replay then returns \<open>es\<close> and the new entry, metadata included. If the append
  is interrupted by a crash, replay returns the old entries, or the old and the new one, or reports a
  corrupt log; it never returns anything else. An entry of another shard is refused and nothing is written.
\<close>

lemma shard_log_append_replay:
  assumes "log_holds encode_log_entry (sh_path l) es f" and "durable f (sh_path l)"
    and "list_all (entry_ok (sh_shard_id l)) es" and "entry_ok (sh_shard_id l) e"
    and "entry_shard_id alien \<noteq> sh_shard_id l"
  shows "(\<exists>f'. io_run (shard_log_append l e) f () f' \<and> durable f' (sh_path l) \<and>
      io_result (shard_log_replay l) f' = Inr (es @ [e])) \<and>
    (\<forall>f'. crashes_to (shard_log_append l e) f f' \<longrightarrow>
      io_result (shard_log_replay l) f' \<in> {Inr es, Inr (es @ [e])} \<or>
      (\<exists>msg. io_result (shard_log_replay l) f' = Inl (CorruptLog msg))) \<and>
    shard_log_append l alien f = (Inl (WrongShard (sh_shard_id l) (entry_shard_id alien)), [], f)"
proof (intro conjI)
  obtain i where look: "fmlookup (fs_files f) (sh_path l) = Some i"
    and data: "i_data i = log_magic_v2 @ frames (map encode_log_entry es)"
    using assms(1) by (auto simp: log_holds_def file_content_def)
  have sync: "i_synced i = length (i_data i)" using assms(2) look by (simp add: durable_def)
  have fits: "fits_u32 (length (encode_log_entry e))" and shard: "entry_shard_id e = sh_shard_id l"
    using assms(4) by (auto simp: entry_ok_def)
  have app: "shard_log_append l e = write_payload (sh_path l) (encode_log_entry e) True"
    using shard by (simp add: shard_log_append_def)
  have replay: "io_result (shard_log_replay l) g = read_log (decode_shard_entry (sh_shard_id l)) (frames (map encode_log_entry es) @ bs)"
    if "file_content g (sh_path l) = Some (i_data i @ bs)" for g bs
    unfolding shard_log_replay_def by (rule replay_file_eq) (simp add: that data)
  let ?bs = "i_data i @ frame (encode_log_entry e)"
  let ?f' = "set_file (sh_path l) \<lparr>i_data = ?bs, i_synced = length ?bs\<rparr> f"
  have "io_run (shard_log_append l e) f () ?f'"
    unfolding app using run_write_payload [OF look fits, of True] by simp
  moreover have "io_result (shard_log_replay l) ?f' = Inr (es @ [e])"
    using replay [of ?f' "frame (encode_log_entry e)"] entry_codec.read_log_frames [of "sh_shard_id l" "es @ [e]"] assms(3,4)
    by (simp add: file_content_def)
  ultimately show "\<exists>f'. io_run (shard_log_append l e) f () f' \<and> durable f' (sh_path l) \<and>
      io_result (shard_log_replay l) f' = Inr (es @ [e])"
    by (intro exI [of _ ?f']) (simp add: durable_def)
  show "\<forall>f'. crashes_to (shard_log_append l e) f f' \<longrightarrow>
      io_result (shard_log_replay l) f' \<in> {Inr es, Inr (es @ [e])} \<or>
      (\<exists>msg. io_result (shard_log_replay l) f' = Inl (CorruptLog msg))"
    unfolding app
  proof (intro allI impI)
    fix f' assume "crashes_to (write_payload (sh_path l) (encode_log_entry e) True) f f'"
    from write_payload_crash [OF look sync fits this] replay
    show "io_result (shard_log_replay l) f' \<in> {Inr es, Inr (es @ [e])} \<or>
        (\<exists>msg. io_result (shard_log_replay l) f' = Inl (CorruptLog msg))"
      using entry_codec.read_log_torn [OF assms(3,4)] by fastforce
  qed
  show "shard_log_append l alien f = (Inl (WrongShard (sh_shard_id l) (entry_shard_id alien)), [], f)"
    using assms(5) by (simp add: shard_log_append_def io_fail_def)
qed

definition sample_log :: shard_log where
  "sample_log = \<lparr>sh_shard_id = 1, sh_path = [''command.log'']\<rparr>"

definition sample_log_fs :: fs where
  "sample_log_fs = \<lparr>fs_dirs = {|[]|}, fs_files = fmupd [''command.log''] \<lparr>i_data = log_magic_v2, i_synced = 8\<rparr> fmempty\<rparr>"

lemma sample_entry_ok: "entry_ok 1 sample_entry"
proof -
  have "length (encode_log_entry sample_entry) = 130" by code_simp
  moreover have "wf_entry sample_entry" "entry_shard_id sample_entry = 1"
    by (simp_all add: wf_entry_def sample_entry_def new_with_metadata_def sample_command_facts fits_u32_def)
  ultimately show ?thesis by (simp add: entry_ok_def fits_u32_def)
qed

end
