(* ===== verification/Segmented_Log.thy ===== *)
theory Segmented_Log
  imports Log_File
begin

text \<open>
  What the segment directory of a shard log stands for: the list of its entries in segment order. Append,
  replay from an index, lookup of one entry, truncation and compaction are shown correct for that list.
\<close>

section \<open>Segments of indexes\<close>

lemma unat_minus_one: "x \<noteq> 0 \<Longrightarrow> unat (x - 1) = unat x - 1" for x :: "'a::len word"
proof -
  assume "x \<noteq> 0"
  then have "unat (1 :: 'a word) \<le> unat x" using unat_gt_0 [of x] by (simp add: Suc_le_eq)
  then show ?thesis by (simp add: unat_sub_if')
qed

lemma unat_segment_start:
  "unat (segment_start_for_index l i) =
     (if i = 0 then 0 else (unat i - 1) div unat (sl_entries_per_segment l) * unat (sl_entries_per_segment l) + 1)"
proof (cases "i = 0")
  case False
  let ?n = "sl_entries_per_segment l"
  have bound: "(unat i - 1) div unat ?n * unat ?n \<le> unat i - 1" by (rule div_times_less_eq_dividend)
  have i: "0 < unat i" "unat i < 2 ^ 64" using False unat_less_pow [of i] by (simp_all add: unat_gt_0)
  have div: "unat ((i - 1) div ?n) = (unat i - 1) div unat ?n" by (simp only: unat_div unat_minus_one [OF False])
  have less: "(unat i - 1) div unat ?n * unat ?n + 1 < 2 ^ 64" using bound i by linarith
  then have mult: "unat ((i - 1) div ?n * ?n) = (unat i - 1) div unat ?n * unat ?n"
    using unat_mult_lem [of "(i - 1) div ?n" ?n] unfolding div by simp
  have "unat ((i - 1) div ?n * ?n + 1) = (unat i - 1) div unat ?n * unat ?n + 1"
    using unat_add_lem [of "(i - 1) div ?n * ?n" 1] less unfolding mult by simp
  then show ?thesis using False by (simp add: segment_start_for_index_def)
qed (simp add: segment_start_for_index_def)

lemma segment_start_mono: "i \<le> j \<Longrightarrow> segment_start_for_index l i \<le> segment_start_for_index l j"
proof -
  assume "i \<le> j"
  then have "unat i \<le> unat j" by (simp add: word_le_nat_alt)
  then show ?thesis
    by (auto simp: word_le_nat_alt unat_segment_start unat_gt_0 [symmetric] intro!: mult_le_mono1 div_le_mono)
qed

lemma segment_start_le: "segment_start_for_index l i \<le> i"
proof (cases "i = 0")
  case False
  have "(unat i - 1) div unat (sl_entries_per_segment l) * unat (sl_entries_per_segment l) \<le> unat i - 1"
    by (rule div_times_less_eq_dividend)
  moreover have "0 < unat i" using False by (simp add: unat_gt_0)
  ultimately have "unat (segment_start_for_index l i) \<le> unat i"
    unfolding unat_segment_start if_not_P [OF False] by linarith
  then show ?thesis by (simp add: word_le_nat_alt)
qed (simp add: segment_start_for_index_def)

section \<open>Segment names\<close>

definition segment_file :: "segmented_shard_log \<Rightarrow> u64 \<Rightarrow> path" where
  "segment_file l start = join_path (sl_segments_dir l) (segment_name start)"

lemma padded_digits: "c \<in> set (pad_zeros 20 (show_u64 x)) \<Longrightarrow> digit_value c \<noteq> None"
  by (auto simp: pad_zeros_def show_u64_def dest: show_nat_digits)

lemma split_segment_name: "split_at_dot (segment_name start) = (pad_zeros 20 (show_u64 start), Some ''log'')"
proof -
  let ?d = "pad_zeros 20 (show_u64 start)"
  have nonempty: "?d \<noteq> []" by (simp add: pad_zeros_def show_u64_def)
  have "?d @ ''.log'' \<noteq> ''..''" by simp
  moreover have "dropWhile (\<lambda>c. c \<noteq> CHR ''.'') (rev (?d @ ''.log'')) = CHR ''.'' # rev ?d"
    "takeWhile (\<lambda>c. c \<noteq> CHR ''.'') (rev (?d @ ''.log'')) = rev ''log''" by simp_all
  ultimately show ?thesis using nonempty by (simp add: split_at_dot_def segment_name_def)
qed

lemma segment_file_start [simp]: "segment_start_from_path (segment_file l start) = Inr (Some start)"
  by (simp add: segment_start_from_path_def extension_def file_stem_def segment_file_def join_path_def split_segment_name)

lemma segment_file_inject [simp]: "segment_file l s = segment_file l t \<longleftrightarrow> s = t"
  by (metis Inr_inject option.inject segment_file_start)

lemma segment_file_simps [simp]: "parent (segment_file l s) = sl_segments_dir l" "segment_file l s \<noteq> []"
    "extension (segment_file l s) = Some ''log''"
  by (simp_all add: segment_file_def join_path_def parent_def extension_def split_segment_name)

lemma segment_path_file: "segment_path_for_index l i = segment_file l (segment_start_for_index l i)"
  by (simp add: segment_path_for_index_def segment_file_def)

section \<open>Selecting segments\<close>

lemma select_segments_files:
  assumes "\<forall>p\<in>set ps. extension p \<noteq> Some ''log'' \<or> (\<exists>s. p = segment_file l s)" and "distinct ps"
  shows "\<exists>sts. select_segments keep ps = Inr (map (\<lambda>s. (s, segment_file l s)) sts) \<and> distinct sts \<and>
    set sts = {s. keep s \<and> segment_file l s \<in> set ps}"
  using assms
proof (induction ps)
  case (Cons p ps)
  then obtain sts where sts: "select_segments keep ps = Inr (map (\<lambda>s. (s, segment_file l s)) sts)" "distinct sts"
    "set sts = {s. keep s \<and> segment_file l s \<in> set ps}" by auto
  show ?case
  proof (cases "extension p = Some ''log''")
    case True
    then obtain s where p: "p = segment_file l s" using Cons.prems(1) by auto
    show ?thesis
      using sts p Cons.prems(2) by (intro exI [of _ "if keep s then s # sts else sts"]) auto
  next
    case False
    then have "segment_file l s \<noteq> p" for s by auto
    then show ?thesis using sts False by (intro exI [of _ sts]) (auto simp: segment_start_from_path_def)
  qed
qed auto

lemma sort_key_map_pair: "sort_key fst (map (\<lambda>s. (s, h s)) sts) = map (\<lambda>s. (s, h s)) (sort sts)"
proof -
  have "insort_key fst (s, h s) (map (\<lambda>s. (s, h s)) xs) = map (\<lambda>s. (s, h s)) (insort s xs)" for s xs
    by (induction xs) auto
  then show ?thesis by (induction sts) simp_all
qed

lemma filter_least:
  "sorted (map k xs) \<Longrightarrow> \<forall>x\<in>set xs. s \<le> k x \<Longrightarrow> filter (\<lambda>x. k x = s) xs @ filter (\<lambda>x. k x \<noteq> s) xs = xs"
proof (induction xs)
  case (Cons x xs)
  show ?case
  proof (cases "k x = s")
    case False
    then have "\<forall>y\<in>set xs. k y \<noteq> s" using Cons.prems by (auto simp: order.strict_iff_order)
    then show ?thesis using False by (simp add: filter_empty_conv filter_id_conv)
  qed (use Cons in simp)
qed simp

lemma concat_groups:
  "sorted (map k xs) \<Longrightarrow> sorted sts \<Longrightarrow> distinct sts \<Longrightarrow> k ` set xs \<subseteq> set sts \<Longrightarrow>
    concat (map (\<lambda>s. filter (\<lambda>x. k x = s) xs) sts) = xs"
proof (induction sts arbitrary: xs)
  case (Cons s sts)
  let ?ys = "filter (\<lambda>x. k x \<noteq> s) xs"
  have "concat (map (\<lambda>t. filter (\<lambda>x. k x = t) ?ys) sts) = ?ys"
    using Cons.prems by (intro Cons.IH) (auto simp: sorted_map sorted_wrt_filter)
  moreover have "filter (\<lambda>x. k x = t) ?ys = filter (\<lambda>x. k x = t) xs" if "t \<in> set sts" for t
    using that Cons.prems(3) by (auto intro: filter_cong)
  then have "map (\<lambda>t. filter (\<lambda>x. k x = t) ?ys) sts = map (\<lambda>t. filter (\<lambda>x. k x = t) xs) sts" by simp
  ultimately have "concat (map (\<lambda>t. filter (\<lambda>x. k x = t) xs) sts) = ?ys" by argo
  then show ?case using filter_least [of k xs s] Cons.prems by auto
qed simp

section \<open>The entries a directory holds\<close>

definition segment_of :: "segmented_shard_log \<Rightarrow> log_entry \<Rightarrow> u64" where
  "segment_of l e = segment_start_for_index l (entry_index e)"

definition segment_bytes :: "segmented_shard_log \<Rightarrow> log_entry list \<Rightarrow> u64 \<Rightarrow> bytes" where
  "segment_bytes l es s = log_magic_v2 @ frames (map encode_log_entry (filter (\<lambda>e. segment_of l e = s) es))"

definition segments_rel :: "segmented_shard_log \<Rightarrow> fs \<Rightarrow> log_entry list \<Rightarrow> bool" where
  "segments_rel l f es \<longleftrightarrow> dir_exists f (sl_segments_dir l) \<and> list_all (entry_ok (sl_shard_id l)) es \<and>
     sorted (map (segment_of l) es) \<and> (\<forall>s. \<not> dir_exists f (segment_file l s)) \<and>
     (\<forall>p. p |\<in>| fmdom (fs_files f) \<and> p \<noteq> [] \<and> parent p = sl_segments_dir l \<and> extension p = Some ''log'' \<longrightarrow>
        (\<exists>s. p = segment_file l s \<and> file_content f p = Some (segment_bytes l es s))) \<and>
     (\<forall>e\<in>set es. segment_file l (segment_of l e) |\<in>| fmdom (fs_files f))"

lemma segments_relD:
  assumes "segments_rel l f es"
  shows "dir_exists f (sl_segments_dir l)" "list_all (entry_ok (sl_shard_id l)) es" "sorted (map (segment_of l) es)"
    "\<not> dir_exists f (segment_file l s)"
    "segment_file l s |\<in>| fmdom (fs_files f) \<Longrightarrow> file_content f (segment_file l s) = Some (segment_bytes l es s)"
    "e \<in> set es \<Longrightarrow> segment_file l (segment_of l e) |\<in>| fmdom (fs_files f)"
proof -
  note rel = assms [unfolded segments_rel_def]
  then show "dir_exists f (sl_segments_dir l)" "list_all (entry_ok (sl_shard_id l)) es" "sorted (map (segment_of l) es)"
    "\<not> dir_exists f (segment_file l s)" "e \<in> set es \<Longrightarrow> segment_file l (segment_of l e) |\<in>| fmdom (fs_files f)" by blast+
  assume "segment_file l s |\<in>| fmdom (fs_files f)"
  then obtain t where "segment_file l s = segment_file l t" "file_content f (segment_file l s) = Some (segment_bytes l es t)"
    using rel segment_file_simps by blast
  then show "file_content f (segment_file l s) = Some (segment_bytes l es s)" by simp
qed

lemma read_dir_paths:
  assumes "dir_exists f d"
  shows "\<exists>ps. fs_read_dir d f = Inr ps \<and> distinct ps \<and> set ps = {p. p |\<in>| fmdom (fs_files f) \<and> p \<noteq> [] \<and> parent p = d}"
proof -
  have "set (map fst (hm_iter (fs_files f))) = fset (fmdom (fs_files f))"
    by (simp add: map_fst_hm_iter sorted_list_of_fset.rep_eq)
  then show ?thesis
    using assms distinct_hm_iter [of "fs_files f"] by (auto simp: fs_read_dir_def simp del: set_map)
qed

lemma segment_paths_rel:
  assumes rel: "segments_rel l f es"
  shows "\<exists>sts. segment_paths l keep f = Inr (map (segment_file l) sts) \<and> sorted sts \<and> distinct sts \<and>
    set sts = {s. keep s \<and> segment_file l s |\<in>| fmdom (fs_files f)}"
proof -
  obtain ps where ps: "fs_read_dir (sl_segments_dir l) f = Inr ps" "distinct ps"
      "set ps = {p. p |\<in>| fmdom (fs_files f) \<and> p \<noteq> [] \<and> parent p = sl_segments_dir l}"
    using read_dir_paths [OF segments_relD(1) [OF rel]] by blast
  have "\<forall>p\<in>set ps. extension p \<noteq> Some ''log'' \<or> (\<exists>s. p = segment_file l s)"
    using rel unfolding ps(3) segments_rel_def by blast
  from select_segments_files [OF this ps(2), of keep] obtain sts where
    sts: "select_segments keep ps = Inr (map (\<lambda>s. (s, segment_file l s)) sts)" "distinct sts"
      "set sts = {s. keep s \<and> segment_file l s \<in> set ps}" by blast
  show ?thesis
    using sts ps by (intro exI [of _ "sort sts"]) (auto simp: segment_paths_def sort_key_map_pair comp_def)
qed

lemma run_replay_file:
  assumes "file_content f p = Some (log_magic_v2 @ bs)" and "read_log dec bs = Inr xs"
  shows "io_run (replay_file dec p) f xs f"
proof -
  have "replay_file dec p f = (Inr xs, [], f)"
    using assms by (simp add: replay_file_def read_contents_def io_bind_def io_get_def io_check_def io_return_def)
  then show ?thesis by (simp add: io_run_def io_result_def io_final_def)
qed

lemma run_replay_segments:
  assumes rel: "segments_rel l f es" and "\<forall>s\<in>set sts. segment_file l s |\<in>| fmdom (fs_files f)"
  shows "io_run (replay_segments l i (map (segment_file l) sts) acc) f
    (acc @ filter (\<lambda>e. i \<le> entry_index e) (concat (map (\<lambda>s. filter (\<lambda>e. segment_of l e = s) es) sts))) f"
  using assms(2)
proof (induction sts arbitrary: acc)
  case (Cons s sts)
  have content: "file_content f (segment_file l s) =
      Some (log_magic_v2 @ frames (map encode_log_entry (filter (\<lambda>e. segment_of l e = s) es)))"
    using segments_relD(5) [OF rel] Cons.prems by (simp add: segment_bytes_def)
  have "list_all (entry_ok (sl_shard_id l)) (filter (\<lambda>e. segment_of l e = s) es)"
    using segments_relD(2) [OF rel] by (auto simp: list_all_iff)
  note replay = run_replay_file [OF content entry_codec.read_log_frames [OF this]]
  have opened: "io_run (open_log_file (segment_file l s)) f () f"
    using run_open_existing [OF content] segments_relD(1,4) [OF rel] by simp
  have rest: "io_run (replay_segments l i (map (segment_file l) sts) (acc @ filter (\<lambda>e. i \<le> entry_index e) (filter (\<lambda>e. segment_of l e = s) es))) f
      ((acc @ filter (\<lambda>e. i \<le> entry_index e) (filter (\<lambda>e. segment_of l e = s) es)) @
        filter (\<lambda>e. i \<le> entry_index e) (concat (map (\<lambda>s. filter (\<lambda>e. segment_of l e = s) es) sts))) f"
    using Cons.prems by (intro Cons.IH) simp
  show ?case
    unfolding list.map replay_segments.simps
    by (rule io_run_seq [OF opened], rule io_run_bind [OF replay]) (use rest in simp)
qed (simp add: io_run_return)

lemma replay_from_rel:
  assumes rel: "segments_rel l f es"
  shows "io_run (replay_from l i) f (filter (\<lambda>e. i \<le> entry_index e) es) f"
proof -
  let ?keep = "\<lambda>s. segment_start_for_index l i \<le> s"
  obtain sts where sts: "segment_paths l ?keep f = Inr (map (segment_file l) sts)" "sorted sts" "distinct sts"
      "set sts = {s. ?keep s \<and> segment_file l s |\<in>| fmdom (fs_files f)}"
    using segment_paths_rel [OF rel] by blast
  let ?new = "filter (\<lambda>e. ?keep (segment_of l e)) es"
  have "concat (map (\<lambda>s. filter (\<lambda>e. segment_of l e = s) ?new) sts) = ?new"
    using segments_relD(3,6) [OF rel] sts by (intro concat_groups) (auto simp: sorted_map sorted_wrt_filter)
  moreover have "filter (\<lambda>e. segment_of l e = s) ?new = filter (\<lambda>e. segment_of l e = s) es" if "s \<in> set sts" for s
    using that sts(4) by (auto intro: filter_cong)
  then have "map (\<lambda>s. filter (\<lambda>e. segment_of l e = s) ?new) sts = map (\<lambda>s. filter (\<lambda>e. segment_of l e = s) es) sts" by simp
  ultimately have groups: "concat (map (\<lambda>s. filter (\<lambda>e. segment_of l e = s) es) sts) = ?new" by argo
  have "filter (\<lambda>e. i \<le> entry_index e) ?new = filter (\<lambda>e. i \<le> entry_index e) es"
    using segment_start_mono [of i _ l] by (auto simp: segment_of_def intro: filter_cong)
  then show ?thesis
    using run_replay_segments [OF rel, of sts i "[]"] sts groups unfolding replay_from_def
    by (intro io_run_bind [OF io_run_get [where x = "map (segment_file l) sts"]])
       (simp_all add: segment_paths_from_def)
qed

section \<open>Appending\<close>

lemma segment_bytes_append:
  "segment_bytes l (es @ [e]) s = segment_bytes l es s @ (if segment_of l e = s then frame (encode_log_entry e) else [])"
  by (simp add: segment_bytes_def)

lemma file_content_set_file [simp]: "file_content (set_file p i f) q = (if q = p then Some (i_data i) else file_content f q)"
  by (simp add: file_content_def)

lemma fmdom_set_file [simp]: "fmdom (fs_files (set_file p i f)) = finsert p (fmdom (fs_files f))"
  by (simp add: set_file_def)

lemma segments_rel_add:
  assumes rel: "segments_rel l f es" and e: "entry_ok (sl_shard_id l) e"
    and last: "\<forall>x\<in>set es. segment_of l x \<le> segment_of l e"
    and data: "i_data i = segment_bytes l (es @ [e]) (segment_of l e)"
  shows "segments_rel l (set_file (segment_file l (segment_of l e)) i f) (es @ [e])"
proof -
  let ?p = "segment_file l (segment_of l e)" and ?f' = "set_file (segment_file l (segment_of l e)) i f"
  have "\<exists>s. p = segment_file l s \<and> file_content ?f' p = Some (segment_bytes l (es @ [e]) s)"
    if p: "p |\<in>| fmdom (fs_files ?f')" "p \<noteq> []" "parent p = sl_segments_dir l" "extension p = Some ''log''" for p
  proof (cases "p = ?p")
    case False
    then obtain s where "p = segment_file l s" "file_content f p = Some (segment_bytes l es s)"
      using p rel unfolding segments_rel_def by auto
    then show ?thesis using False by (intro exI [of _ s]) (auto simp: segment_bytes_append)
  qed (auto simp: data)
  then show ?thesis
    using rel e last unfolding segments_rel_def by (auto simp: sorted_append)
qed

lemma segment_missing:
  assumes "segments_rel l f es" and "segment_file l s |\<notin>| fmdom (fs_files f)"
  shows "segment_bytes l es s = log_magic_v2"
proof -
  have "filter (\<lambda>e. segment_of l e = s) es = []"
    using segments_relD(6) [OF assms(1)] assms(2) by (auto simp: filter_empty_conv)
  then show ?thesis by (simp add: segment_bytes_def)
qed

lemma append_rel:
  assumes rel: "segments_rel l f es" and e: "entry_ok (sl_shard_id l) e"
    and last: "\<forall>x\<in>set es. segment_of l x \<le> segment_of l e"
  shows "\<exists>i. io_run (append_with_sync l e sync) f () (set_file (segment_file l (segment_of l e)) i f) \<and>
    segments_rel l (set_file (segment_file l (segment_of l e)) i f) (es @ [e]) \<and> (sync \<longrightarrow> i_synced i = length (i_data i))"
proof -
  let ?p = "segment_file l (segment_of l e)"
  have fits: "fits_u32 (length (encode_log_entry e))" and shard: "entry_shard_id e = sl_shard_id l"
    using e by (auto simp: entry_ok_def)
  have app: "append_with_sync l e sync = io_seq (open_log_file ?p) (write_payload ?p (encode_log_entry e) sync)"
    using shard by (simp add: append_with_sync_def segment_path_file segment_of_def Let_def)
  have dirs: "dir_exists f (parent ?p)" "\<not> dir_exists f ?p" using segments_relD(1,4) [OF rel] by simp_all
  obtain j where open_run: "io_run (open_log_file ?p) f () (set_file ?p j f)"
    and j: "i_data j = segment_bytes l es (segment_of l e)"
  proof (cases "?p |\<in>| fmdom (fs_files f)")
    case True
    then obtain j where look: "fmlookup (fs_files f) ?p = Some j" by (auto simp: fmlookup_dom_iff)
    then have "fmupd ?p j (fs_files f) = fs_files f" by (intro fmap_ext) auto
    then have "set_file ?p j f = f" by (simp add: set_file_def)
    moreover have "file_content f ?p = Some (segment_bytes l es (segment_of l e))" using segments_relD(5) [OF rel True] .
    ultimately show ?thesis
      using that [of j] run_open_existing [of f ?p] dirs look by (simp add: segment_bytes_def file_content_def)
  next
    case False
    then have "fmlookup (fs_files f) ?p = None" by (simp add: fmlookup_dom_iff)
    then show ?thesis
      using that [of "\<lparr>i_data = log_magic_v2, i_synced = 0\<rparr>"] run_open_missing [of f ?p] dirs segment_missing [OF rel False] by simp
  qed
  define i where "i = \<lparr>i_data = i_data j @ frame (encode_log_entry e),
    i_synced = (if sync then length (i_data j @ frame (encode_log_entry e)) else i_synced j)\<rparr>"
  have "io_run (write_payload ?p (encode_log_entry e) sync) (set_file ?p j f) () (set_file ?p i f)"
    using run_write_payload [of "set_file ?p j f" ?p j "encode_log_entry e" sync] fits by (simp add: i_def)
  from io_run_seq [OF open_run this] have "io_run (append_with_sync l e sync) f () (set_file ?p i f)" by (simp add: app)
  moreover have "segments_rel l (set_file ?p i f) (es @ [e])"
    by (rule segments_rel_add [OF rel e last]) (simp add: i_def j segment_bytes_append)
  ultimately show ?thesis by (intro exI [of _ i]) (simp add: i_def)
qed

lemma append_all_rel:
  assumes "list_all (entry_ok (sl_shard_id l)) xs" and "sorted (map (segment_of l) (es @ xs))" and "segments_rel l f es"
  shows "\<exists>f'. io_run (io_for xs (segmented_append l)) f () f' \<and> segments_rel l f' (es @ xs) \<and> fs_dirs f' = fs_dirs f \<and>
    (\<forall>p. parent p \<noteq> sl_segments_dir l \<longrightarrow> fmlookup (fs_files f') p = fmlookup (fs_files f) p)"
  using assms
proof (induction xs arbitrary: es f)
  case Nil
  then show ?case using io_run_return [of "()" f] by (intro exI [of _ f]) simp
next
  case (Cons x xs)
  obtain i where run: "io_run (segmented_append l x) f () (set_file (segment_file l (segment_of l x)) i f)"
    and rel: "segments_rel l (set_file (segment_file l (segment_of l x)) i f) (es @ [x])"
    using append_rel [OF Cons.prems(3), of x True] Cons.prems(1,2)
    by (auto simp: segmented_append_def sorted_append)
  obtain f' where f': "io_run (io_for xs (segmented_append l)) (set_file (segment_file l (segment_of l x)) i f) () f'"
      "segments_rel l f' ((es @ [x]) @ xs)" "fs_dirs f' = fs_dirs f"
      "\<forall>p. parent p \<noteq> sl_segments_dir l \<longrightarrow> fmlookup (fs_files f') p = fmlookup (fs_files (set_file (segment_file l (segment_of l x)) i f)) p"
    using Cons.IH [OF _ _ rel] Cons.prems(1,2) by auto
  have "fmlookup (fs_files f') p = fmlookup (fs_files f) p" if "parent p \<noteq> sl_segments_dir l" for p
    using f'(4) that by auto
  then show ?case using io_run_seq [OF run f'(1)] f'(2,3) by (intro exI [of _ f']) simp
qed

section \<open>Directories\<close>

text \<open>A file system in which every file and directory lies in a directory.\<close>

definition fs_wf :: "fs \<Rightarrow> bool" where
  "fs_wf f \<longleftrightarrow> dir_exists f [] \<and> (\<forall>p. p |\<in>| fmdom (fs_files f) \<longrightarrow> p \<noteq> [] \<and> dir_exists f (parent p) \<and> \<not> dir_exists f p) \<and>
     (\<forall>d. dir_exists f d \<longrightarrow> d \<noteq> [] \<longrightarrow> dir_exists f (parent d))"

lemma fs_wf_ancestor: "fs_wf f \<Longrightarrow> dir_exists f d \<Longrightarrow> prefix a d \<Longrightarrow> dir_exists f a"
proof (induction d rule: rev_induct)
  case (snoc x d)
  then show ?case by (cases "a = d @ [x]") (auto simp: fs_wf_def parent_def)
qed simp

lemma fs_wf_below:
  assumes "fs_wf f" and "\<not> dir_exists f d" and "d |\<notin>| fmdom (fs_files f)" and "prefix d p"
  shows "fmlookup (fs_files f) p = None" "\<not> dir_exists f p"
proof -
  show "\<not> dir_exists f p" using fs_wf_ancestor [OF assms(1) _ assms(4)] assms(2) by blast
  show "fmlookup (fs_files f) p = None"
  proof (rule ccontr)
    assume "fmlookup (fs_files f) p \<noteq> None"
    then have p: "p |\<in>| fmdom (fs_files f)" by (auto simp: fmlookup_dom_iff)
    then have "dir_exists f (parent p)" "p \<noteq> d" "p \<noteq> []" using assms(1,3) by (auto simp: fs_wf_def)
    moreover have "prefix d (parent p)"
      using assms(4) \<open>p \<noteq> d\<close> \<open>p \<noteq> []\<close> unfolding parent_def
      by (metis append_butlast_last_id prefix_snoc)
    ultimately show False using fs_wf_ancestor [OF assms(1)] assms(2) by blast
  qed
qed

lemma remove_dir_all_effect:
  assumes "fs_remove_dir_all d f = Inr f'"
  shows "fmlookup (fs_files f') p = (if prefix d p then None else fmlookup (fs_files f) p)"
    and "dir_exists f' p = (\<not> prefix d p \<and> dir_exists f p)"
  using assms by (auto simp: fs_remove_dir_all_def dir_exists_def split: if_splits)

text \<open>Paths of which neither lies below the other.\<close>

definition apart :: "path \<Rightarrow> path \<Rightarrow> bool" where
  "apart a b \<longleftrightarrow> \<not> prefix a b \<and> \<not> prefix b a"

lemma apartD: "apart a b \<Longrightarrow> prefix a p \<Longrightarrow> \<not> prefix b p"
  using prefix_same_cases by (auto simp: apart_def)

lemma map_of_moved:
  assumes "prefix b p"
  shows "map_of (map (\<lambda>(q, i). (move_path a b q, i)) (below a f)) p = fmlookup (fs_files f) (a @ drop (length b) p)"
proof -
  have below: "map_of (below a f) q = (if prefix a q then fmlookup (fs_files f) q else None)" for q
    unfolding below_def map_filter_map_of [symmetric] by (simp add: map_of_hm_iter map_filter_def)
  have inj: "move_path a b q = p \<longleftrightarrow> q = a @ drop (length b) p" if "prefix a q" for q
    using that assms by (auto simp: move_path_def prefix_def)
  have "map_of (map (\<lambda>(q, i). (move_path a b q, i)) xs) p = map_of xs (a @ drop (length b) p)"
    if "\<forall>(q, i)\<in>set xs. prefix a q" for xs :: "(path \<times> inode) list"
    using that
  proof (induction xs)
    case (Cons x xs)
    obtain q i where x: "x = (q, i)" by (cases x)
    then show ?case using Cons inj [of q] by (cases "q = a @ drop (length b) p") auto
  qed simp
  moreover have "\<forall>(q, i)\<in>set (below a f). prefix a q" by (auto simp: below_def)
  ultimately show ?thesis using below by simp
qed

lemma rename_dir_effect:
  assumes run: "fs_rename_dir a b f = Inr f'" and apart: "apart a b"
  shows "fmlookup (fs_files f') p = (if prefix b p then fmlookup (fs_files f) (a @ drop (length b) p)
      else if prefix a p then None else fmlookup (fs_files f) p)"
    and "dir_exists f' p = (if prefix b p then dir_exists f (a @ drop (length b) p)
      else \<not> prefix a p \<and> dir_exists f p)"
proof -
  have ok: "dir_exists f a" "below b f = []" "\<not> fBex (fs_dirs f) (strict_prefix b)"
    and f': "fs_dirs f' = ffilter (\<lambda>p. \<not> prefix a p) (fs_dirs f) |\<union>| move_path a b |`| ffilter (prefix a) (fs_dirs f)"
      "fs_files f' = fmap_of_list (map (\<lambda>(p, i). (move_path a b p, i)) (below a f)) ++\<^sub>f fmfilter (\<lambda>p. \<not> prefix a p) (fs_files f)"
    using run by (auto simp: fs_rename_dir_def split: if_splits)
  have none: "fmlookup (fs_files f) q = None" if "prefix b q" for q
    using ok(2) that set_hm_iter [of "fs_files f"] by (cases "fmlookup (fs_files f) q") (auto simp: below_def filter_empty_conv)
  have moved: "map_of (map (\<lambda>(q, i). (move_path a b q, i)) (below a f)) p = None" if "\<not> prefix b p"
    using that by (auto simp: map_of_eq_None_iff move_path_def)
  show "fmlookup (fs_files f') p = (if prefix b p then fmlookup (fs_files f) (a @ drop (length b) p)
      else if prefix a p then None else fmlookup (fs_files f) p)"
    using none [of p] moved map_of_moved [of b p a f] apartD [OF apart, of p]
    by (auto simp: f'(2) fmlookup_of_list map_add_def split: option.splits)
  show "dir_exists f' p = (if prefix b p then dir_exists f (a @ drop (length b) p) else \<not> prefix a p \<and> dir_exists f p)"
  proof (cases "prefix b p")
    case True
    then obtain q where p: "p = b @ q" by (auto simp: prefix_def)
    have "p |\<in>| fs_dirs f \<Longrightarrow> q = []" using ok(3) p by (auto simp: strict_prefix_def)
    moreover have "p |\<in>| move_path a b |`| ffilter (prefix a) (fs_dirs f) \<longleftrightarrow> a @ q |\<in>| fs_dirs f"
      by (auto simp: p move_path_def prefix_def image_iff intro!: bexI [of _ "a @ q"])
    ultimately show ?thesis using True ok(1) apartD [OF apart, of p] by (auto simp: dir_exists_def f'(1) p)
  next
    case False
    then have "p |\<notin>| move_path a b |`| ffilter (prefix a) (fs_dirs f)" by (auto simp: move_path_def)
    then show ?thesis using False by (auto simp: dir_exists_def f'(1))
  qed
qed

section \<open>Truncation\<close>

text \<open>Nothing lies below a directory that does not exist.\<close>

definition absent_clear :: "path \<Rightarrow> fs \<Rightarrow> bool" where
  "absent_clear x f \<longleftrightarrow> (dir_exists f x \<or> (\<forall>p. prefix x p \<longrightarrow> fmlookup (fs_files f) p = None \<and> \<not> dir_exists f p))"

definition removed :: "path \<Rightarrow> fs \<Rightarrow> fs \<Rightarrow> bool" where
  "removed x f f' \<longleftrightarrow> (\<forall>p. fmlookup (fs_files f') p = (if prefix x p then None else fmlookup (fs_files f) p)) \<and>
     (\<forall>p. dir_exists f' p = (\<not> prefix x p \<and> dir_exists f p))"

lemma run_remove_dir_all:
  assumes "dir_exists f x"
  shows "\<exists>f'. io_run (remove_dir_all x) f () f' \<and> removed x f f'"
proof -
  obtain f' where f': "fs_remove_dir_all x f = Inr f'" using assms by (simp add: fs_remove_dir_all_def)
  then have "removed x f f'" using remove_dir_all_effect [OF f'] by (simp add: removed_def)
  then show ?thesis using io_run_step [of "fs_remove_dir_all x", OF f'] by (auto simp: remove_dir_all_def)
qed

lemma run_remove_if_exists:
  assumes "absent_clear x f"
  shows "\<exists>f'. io_run (remove_if_exists x) f () f' \<and> removed x f f'"
proof (cases "dir_exists f x")
  case True
  then obtain f' where "io_run (remove_dir_all x) f () f'" "removed x f f'" using run_remove_dir_all by blast
  then show ?thesis
    unfolding remove_if_exists_def using True
    by (intro exI [of _ f'] conjI io_run_bind [OF io_run_get [where x = True]]) simp_all
next
  case False
  then have "removed x f f" using assms by (auto simp: absent_clear_def removed_def)
  then show ?thesis
    unfolding remove_if_exists_def using False
    by (intro exI [of _ f] conjI io_run_bind [OF io_run_get [where x = False]]) (simp_all add: io_run_return)
qed

lemma run_rename_dir:
  assumes "dir_exists f a" and "dir_exists f (parent b)" and "apart a b"
    and "\<forall>p. prefix b p \<longrightarrow> fmlookup (fs_files f) p = None \<and> \<not> dir_exists f p"
  shows "\<exists>f'. io_run (rename_dir a b) f () f' \<and>
    (\<forall>p. fmlookup (fs_files f') p = (if prefix b p then fmlookup (fs_files f) (a @ drop (length b) p)
      else if prefix a p then None else fmlookup (fs_files f) p)) \<and>
    (\<forall>p. dir_exists f' p = (if prefix b p then dir_exists f (a @ drop (length b) p) else \<not> prefix a p \<and> dir_exists f p))"
proof -
  have "below b f = []" using assms(4) set_hm_iter [of "fs_files f"] by (auto simp: below_def filter_empty_conv)
  moreover have "\<not> fBex (fs_dirs f) (strict_prefix b)" using assms(4) by (auto simp: dir_exists_def strict_prefix_def)
  ultimately obtain f' where f': "fs_rename_dir a b f = Inr f'" using assms(1,2) by (auto simp: fs_rename_dir_def)
  then show ?thesis
    using rename_dir_effect [OF f' assms(3)] unfolding rename_dir_def by (intro exI [of _ f']) (auto intro: io_run_step)
qed

lemma truncate_dirs:
  assumes "sl_segments_dir l = base @ [''segments'']"
  shows "truncate_tmp l = base @ [''segments.segments.tmp'']" "truncate_old l = base @ [''segments.segments.old'']"
    "parent (sl_segments_dir l) = base" "parent (truncate_tmp l) = base" "parent (truncate_old l) = base"
    "\<not> prefix (sl_segments_dir l) base" "\<not> prefix (truncate_tmp l) base" "\<not> prefix (truncate_old l) base"
  using assms by (auto simp: truncate_tmp_def truncate_old_def with_extension_def file_stem_def split_at_dot_def parent_def
      dest: prefix_length_le)

lemma truncate_apart:
  assumes "sl_segments_dir l = base @ [''segments'']"
  shows "apart (sl_segments_dir l) (truncate_tmp l)" "apart (sl_segments_dir l) (truncate_old l)"
    "apart (truncate_tmp l) (truncate_old l)" "apart (truncate_tmp l) (sl_segments_dir l)"
    "apart (truncate_old l) (sl_segments_dir l)" "apart (truncate_old l) (truncate_tmp l)"
  by (simp_all add: apart_def truncate_dirs(1,2) [OF assms] assms)

text \<open>\<open>installed l f g f'\<close>: what the swap makes of \<open>f\<close>, between the two renames (\<open>g\<close>) and at the end (\<open>f'\<close>).\<close>

definition installed :: "segmented_shard_log \<Rightarrow> fs \<Rightarrow> fs \<Rightarrow> fs \<Rightarrow> bool" where
  "installed l f g f' \<longleftrightarrow>
    (\<forall>p. prefix (sl_segments_dir l) p \<longrightarrow> fmlookup (fs_files g) p = None \<and> \<not> dir_exists g p) \<and>
    (\<forall>p. \<not> prefix (truncate_old l) p \<longrightarrow> \<not> prefix (sl_segments_dir l) p \<longrightarrow>
        fmlookup (fs_files g) p = fmlookup (fs_files f) p \<and> dir_exists g p = dir_exists f p) \<and>
    (\<forall>p. fmlookup (fs_files f') p = (if prefix (sl_segments_dir l) p
        then fmlookup (fs_files f) (truncate_tmp l @ drop (length (sl_segments_dir l)) p)
        else if prefix (truncate_tmp l) p \<or> prefix (truncate_old l) p then None else fmlookup (fs_files f) p)) \<and>
    (\<forall>p. dir_exists f' p = (if prefix (sl_segments_dir l) p
        then dir_exists f (truncate_tmp l @ drop (length (sl_segments_dir l)) p)
        else \<not> prefix (truncate_tmp l) p \<and> \<not> prefix (truncate_old l) p \<and> dir_exists f p))"

text \<open>The directory swap: the states after each rename and at the end.\<close>

lemma install_run:
  assumes dir: "sl_segments_dir l = base @ [''segments'']"
    and d: "dir_exists f (sl_segments_dir l)" and t: "dir_exists f (truncate_tmp l)" and b: "dir_exists f base"
    and old: "absent_clear (truncate_old l) f"
  shows "\<exists>g f'. io_run (install_truncated l) f () f' \<and> g \<in> set (io_trace (install_truncated l) f) \<and> installed l f g f'"
proof -
  let ?d = "sl_segments_dir l" and ?t = "truncate_tmp l" and ?o = "truncate_old l"
  note aparts = truncate_apart [OF dir] and parents = truncate_dirs(3-5) [OF dir]
    and not_below_base = truncate_dirs(6-8) [OF dir]
  have below: "prefix x (x @ q)" for x q :: path by simp
  obtain f1 where r1: "io_run (remove_if_exists ?o) f () f1" and f1: "removed ?o f f1"
    using run_remove_if_exists [OF old] by blast
  have e1: "dir_exists f1 ?d" "dir_exists f1 ?t" "dir_exists f1 (parent ?o)"
    using f1 d t b aparts not_below_base by (auto simp: removed_def parents apart_def)
  obtain f2 where r2: "io_run (rename_dir ?d ?o) f1 () f2"
    and f2: "\<And>p. fmlookup (fs_files f2) p = (if prefix ?o p then fmlookup (fs_files f1) (?d @ drop (length ?o) p)
        else if prefix ?d p then None else fmlookup (fs_files f1) p)"
      "\<And>p. dir_exists f2 p = (if prefix ?o p then dir_exists f1 (?d @ drop (length ?o) p) else \<not> prefix ?d p \<and> dir_exists f1 p)"
    using run_rename_dir [OF e1(1,3) aparts(2)] f1 by (auto simp: removed_def)
  have clear: "fmlookup (fs_files f2) p = None \<and> \<not> dir_exists f2 p" if "prefix ?d p" for p
    using f2 that apartD [OF aparts(2) that] by simp
  have e2: "dir_exists f2 ?t" "dir_exists f2 (parent ?d)"
    using f2(2) e1 b aparts not_below_base f1 by (auto simp: parents apart_def removed_def)
  obtain f3 where r3: "io_run (rename_dir ?t ?d) f2 () f3"
    and f3: "\<And>p. fmlookup (fs_files f3) p = (if prefix ?d p then fmlookup (fs_files f2) (?t @ drop (length ?d) p)
        else if prefix ?t p then None else fmlookup (fs_files f2) p)"
      "\<And>p. dir_exists f3 p = (if prefix ?d p then dir_exists f2 (?t @ drop (length ?d) p) else \<not> prefix ?t p \<and> dir_exists f2 p)"
    using run_rename_dir [OF e2 aparts(4)] clear by blast
  have e3: "dir_exists f3 (parent ?d)" "dir_exists f3 ?o"
    using f3(2) f2(2) e2 e1(1) aparts not_below_base by (auto simp: parents apart_def)
  have r4: "io_run (sync_parent_dir ?d) f3 () f3"
    unfolding sync_parent_dir_def using e3(1) by (intro io_run_step) (simp add: fs_sync_dir_def)
  obtain f4 where r5: "io_run (remove_dir_all ?o) f3 () f4" and f4: "removed ?o f3 f4"
    using run_remove_dir_all [OF e3(2)] by blast
  have run: "io_run (install_truncated l) f () f4"
    unfolding install_truncated_def by (intro io_run_seq [OF r1] io_run_seq [OF r2] io_run_seq [OF r3] io_run_seq [OF r4] r5)
  have visited: "f2 \<in> set (io_trace (install_truncated l) f)"
    using r1 r2 unfolding install_truncated_def
    by (auto simp: io_run_def io_result_def io_final_def io_trace_def io_seq_def io_bind_def rename_dir_def io_step_def
        split: prod.splits sum.splits)
  have t_free: "\<not> prefix ?o (?t @ q)" "\<not> prefix ?d (?t @ q)" for q
    using apartD [OF aparts(3) below] apartD [OF aparts(4) below] by blast+
  have files: "fmlookup (fs_files f4) p = (if prefix ?d p then fmlookup (fs_files f) (?t @ drop (length ?d) p)
      else if prefix ?t p \<or> prefix ?o p then None else fmlookup (fs_files f) p)" for p
    using f1 f4 apartD [OF aparts(2), of p] by (auto simp: removed_def f3 f2 t_free)
  moreover have "dir_exists f4 p = (if prefix ?d p then dir_exists f (?t @ drop (length ?d) p)
      else \<not> prefix ?t p \<and> \<not> prefix ?o p \<and> dir_exists f p)" for p
    using f1 f4 apartD [OF aparts(2), of p] by (auto simp: removed_def f3 f2 t_free)
  moreover have "fmlookup (fs_files f2) p = fmlookup (fs_files f) p \<and> dir_exists f2 p = dir_exists f p"
    if "\<not> prefix ?o p" "\<not> prefix ?d p" for p
    using that f1 by (simp add: f2 removed_def)
  ultimately show ?thesis using run visited clear unfolding installed_def by (intro exI [of _ f2] exI [of _ f4]) auto
qed

definition truncate_ready :: "segmented_shard_log \<Rightarrow> fs \<Rightarrow> bool" where
  "truncate_ready l f \<longleftrightarrow> fs_wf f \<and> sl_segments_dir l \<noteq> [] \<and> last (sl_segments_dir l) = ''segments'' \<and>
     truncate_tmp l |\<notin>| fmdom (fs_files f) \<and> truncate_old l |\<notin>| fmdom (fs_files f)"

lemma truncate_ready_base: "truncate_ready l f \<Longrightarrow> sl_segments_dir l = parent (sl_segments_dir l) @ [''segments'']"
  by (metis append_butlast_last_id parent_def truncate_ready_def)

lemma parent_prefix: "p \<noteq> [] \<Longrightarrow> prefix (parent p) p"
  by (simp add: parent_def prefixeq_butlast)

lemma fmdom_lookup: "p |\<in>| fmdom m \<longleftrightarrow> fmlookup m p \<noteq> None"
  by (auto simp: fmlookup_dom_iff)

lemma absent_clear_wf: "fs_wf f \<Longrightarrow> x |\<notin>| fmdom (fs_files f) \<Longrightarrow> absent_clear x f"
  using fs_wf_below by (auto simp: absent_clear_def)

abbreviation tmp_log :: "segmented_shard_log \<Rightarrow> segmented_shard_log" where
  "tmp_log l \<equiv> l\<lparr>sl_segments_dir := truncate_tmp l\<rparr>"

lemma segment_of_tmp [simp]: "segment_of (tmp_log l) = segment_of l" "segment_bytes (tmp_log l) = segment_bytes l"
  by (simp_all add: fun_eq_iff segment_of_def segment_bytes_def segment_start_for_index_def)

text \<open>Up to the swap: the retained entries are in the temporary directory and nothing else has changed.\<close>

lemma stage_truncated:
  assumes rel: "segments_rel l f es" and ready: "truncate_ready l f"
  shows "\<exists>f3. io_run (io_seq (remove_if_exists (truncate_tmp l)) (io_seq (create_dir_all (truncate_tmp l))
        (io_for (filter (\<lambda>e. entry_index e < i) es) (segmented_append (tmp_log l))))) f () f3 \<and>
    segments_rel (tmp_log l) f3 (filter (\<lambda>e. entry_index e < i) es) \<and>
    (\<forall>p. \<not> prefix (truncate_tmp l) p \<longrightarrow> fmlookup (fs_files f3) p = fmlookup (fs_files f) p \<and> dir_exists f3 p = dir_exists f p)"
proof -
  let ?t = "truncate_tmp l" and ?es = "filter (\<lambda>e. entry_index e < i) es"
  note dir = truncate_ready_base [OF ready]
  have wf: "fs_wf f" and tmp: "?t |\<notin>| fmdom (fs_files f)" using ready by (auto simp: truncate_ready_def)
  obtain f1 where r1: "io_run (remove_if_exists ?t) f () f1" and f1: "removed ?t f f1"
    using run_remove_if_exists [OF absent_clear_wf [OF wf tmp]] by blast
  have base: "dir_exists f (parent ?t)"
    using fs_wf_ancestor [OF wf segments_relD(1) [OF rel]] truncate_dirs(3,4) [OF dir] parent_prefix ready
    by (metis truncate_ready_def)
  have ancestors: "p = ?t \<or> dir_exists f p" if "prefix p ?t" for p
    using that fs_wf_ancestor [OF wf base] truncate_dirs(1) [OF dir] by (auto simp: parent_def prefix_snoc)
  define f2 where "f2 = f1\<lparr>fs_dirs := fs_dirs f1 |\<union>| fset_of_list (prefixes ?t)\<rparr>"
  have "p |\<notin>| fmdom (fs_files f1)" if "prefix p ?t" for p
    using ancestors [OF that] f1 wf by (auto simp: fmdom_lookup removed_def fs_wf_def)
  then have r2: "io_run (create_dir_all ?t) f1 () f2"
    unfolding create_dir_all_def by (intro io_run_step) (auto simp: fs_create_dir_all_def f2_def list_ex_iff)
  have f2: "fmlookup (fs_files f2) p = fmlookup (fs_files f1) p" "dir_exists f2 p = (dir_exists f1 p \<or> prefix p ?t)" for p
    by (auto simp: f2_def dir_exists_def fset_of_list_elem)
  have "\<not> prefix (segment_file (tmp_log l) s) ?t" "prefix ?t (segment_file (tmp_log l) s)" for s
    by (auto simp: segment_file_def join_path_def dest: prefix_length_le)
  moreover have none: "p |\<notin>| fmdom (fs_files f2)" if "parent p = ?t" "p \<noteq> []" for p
    using f1 parent_prefix [OF that(2)] that(1) by (simp add: f2 removed_def fmdom_lookup)
  moreover have "dir_exists f2 ?t" "\<not> dir_exists f1 p" if "prefix ?t p" for p
    using f1 that by (simp_all add: f2 removed_def)
  ultimately have "segments_rel (tmp_log l) f2 []"
    unfolding segments_rel_def by (simp add: f2(2)) blast
  moreover have "sorted (map (segment_of (tmp_log l)) ([] @ ?es))"
    using segments_relD(3) [OF rel] by (simp add: sorted_map sorted_wrt_filter)
  moreover have "list_all (entry_ok (sl_shard_id (tmp_log l))) ?es"
    using segments_relD(2) [OF rel] by (auto simp: list_all_iff)
  ultimately obtain f3 where r3: "io_run (io_for ?es (segmented_append (tmp_log l))) f2 () f3"
    and f3: "segments_rel (tmp_log l) f3 ?es" "fs_dirs f3 = fs_dirs f2"
      "\<forall>p. parent p \<noteq> ?t \<longrightarrow> fmlookup (fs_files f3) p = fmlookup (fs_files f2) p"
    using append_all_rel [of "tmp_log l" ?es "[]" f2] by auto
  have outside: "fmlookup (fs_files f3) p = fmlookup (fs_files f) p \<and> dir_exists f3 p = dir_exists f p" if "\<not> prefix ?t p" for p
  proof -
    have "parent p \<noteq> ?t" using that parent_prefix [of p] truncate_dirs(1) [OF dir] by (cases "p = []") (auto simp: parent_def)
    moreover have "dir_exists f3 p = dir_exists f2 p" by (simp add: dir_exists_def f3(2))
    ultimately show ?thesis using that f1 f3(3) ancestors [of p] by (auto simp: f2 removed_def)
  qed
  show ?thesis using io_run_seq [OF r1 io_run_seq [OF r2 r3]] f3(1) outside by blast
qed

lemma truncate_seq:
  "truncate_from l i = io_bind (segmented_replay l) (\<lambda>entries.
     io_seq (io_seq (remove_if_exists (truncate_tmp l)) (io_seq (create_dir_all (truncate_tmp l))
        (io_for (filter (\<lambda>e. entry_index e < i) entries) (segmented_append (tmp_log l)))))
      (install_truncated l))"
  by (auto simp: truncate_from_def io_seq_def io_bind_def fun_eq_iff Let_def split: sum.splits prod.splits)

lemma moved_segment_file: "segment_file (tmp_log l) s = truncate_tmp l @ drop (length (sl_segments_dir l)) (segment_file l s)"
  by (simp add: segment_file_def join_path_def)

lemma segments_rel_moved:
  assumes rel: "segments_rel (tmp_log l) f es"
    and files: "\<And>p. prefix (sl_segments_dir l) p \<Longrightarrow>
        fmlookup (fs_files f') p = fmlookup (fs_files f) (truncate_tmp l @ drop (length (sl_segments_dir l)) p)"
    and dirs: "\<And>p. prefix (sl_segments_dir l) p \<Longrightarrow>
        dir_exists f' p = dir_exists f (truncate_tmp l @ drop (length (sl_segments_dir l)) p)"
  shows "segments_rel l f' es"
  unfolding segments_rel_def
proof (intro conjI allI impI ballI)
  let ?m = "\<lambda>p. truncate_tmp l @ drop (length (sl_segments_dir l)) p"
  have below: "prefix (sl_segments_dir l) (segment_file l s)" for s by (simp add: segment_file_def join_path_def)
  show "dir_exists f' (sl_segments_dir l)" using dirs [of "sl_segments_dir l"] segments_relD(1) [OF rel] by simp
  show "list_all (entry_ok (sl_shard_id l)) es" "sorted (map (segment_of l) es)"
    using segments_relD(2,3) [OF rel] by simp_all
  show "\<not> dir_exists f' (segment_file l s)" for s
    using segments_relD(4) [OF rel, of s] dirs [OF below] by (simp add: moved_segment_file)
  show "segment_file l (segment_of l e) |\<in>| fmdom (fs_files f')" if "e \<in> set es" for e
    using segments_relD(6) [OF rel that] files [OF below] by (simp add: moved_segment_file fmdom_lookup)
  fix p
  assume p: "p |\<in>| fmdom (fs_files f') \<and> p \<noteq> [] \<and> parent p = sl_segments_dir l \<and> extension p = Some ''log''"
  then obtain x where x: "p = sl_segments_dir l @ [x]" by (metis append_butlast_last_id parent_def)
  have look: "fmlookup (fs_files f') p = fmlookup (fs_files f) (?m p)" by (rule files) (simp add: x)
  have "?m p |\<in>| fmdom (fs_files f)" "?m p \<noteq> []" "parent (?m p) = sl_segments_dir (tmp_log l)" "extension (?m p) = Some ''log''"
    using p look by (simp_all add: x fmdom_lookup parent_def extension_def)
  then obtain s where s: "?m p = segment_file (tmp_log l) s" "file_content f (?m p) = Some (segment_bytes l es s)"
    using rel [unfolded segments_rel_def] by auto
  then have "p = segment_file l s" by (simp add: x segment_file_def join_path_def)
  then show "\<exists>s. p = segment_file l s \<and> file_content f' p = Some (segment_bytes l es s)"
    using s(2) look by (auto simp: file_content_def)
qed

lemma truncate_rel:
  assumes rel: "segments_rel l f es" and ready: "truncate_ready l f"
  shows "\<exists>g f'. io_run (truncate_from l i) f () f' \<and> segments_rel l f' (filter (\<lambda>e. entry_index e < i) es) \<and>
    g \<in> set (io_trace (truncate_from l i) f) \<and>
    (\<forall>p. prefix (sl_segments_dir l) p \<longrightarrow> fmlookup (fs_files g) p = None \<and> \<not> dir_exists g p) \<and>
    (\<forall>p. prefix p (parent (sl_segments_dir l)) \<longrightarrow> p |\<notin>| fmdom (fs_files g))"
proof -
  let ?d = "sl_segments_dir l" and ?t = "truncate_tmp l" and ?es = "filter (\<lambda>e. entry_index e < i) es"
  note dir = truncate_ready_base [OF ready]
  note aparts = truncate_apart [OF dir]
  have wf: "fs_wf f" and oldfile: "truncate_old l |\<notin>| fmdom (fs_files f)" using ready by (auto simp: truncate_ready_def)
  obtain f3 where r3: "io_run (io_seq (remove_if_exists ?t) (io_seq (create_dir_all ?t)
        (io_for ?es (segmented_append (tmp_log l))))) f () f3"
    and f3: "segments_rel (tmp_log l) f3 ?es"
      "\<And>p. \<not> prefix ?t p \<Longrightarrow> fmlookup (fs_files f3) p = fmlookup (fs_files f) p \<and> dir_exists f3 p = dir_exists f p"
    using stage_truncated [OF rel ready] by blast
  have base: "dir_exists f (parent ?d)"
    using fs_wf_ancestor [OF wf segments_relD(1) [OF rel]] parent_prefix ready by (metis truncate_ready_def)
  have "dir_exists f3 ?d" "dir_exists f3 ?t" "dir_exists f3 (parent ?d)"
    using f3 segments_relD(1) [OF rel] segments_relD(1) [OF f3(1)] base aparts truncate_dirs(7) [OF dir]
    by (auto simp: apart_def)
  moreover have "absent_clear (truncate_old l) f3"
    using absent_clear_wf [OF wf oldfile] f3(2) apartD [OF aparts(6)] aparts(3) unfolding absent_clear_def
    by (auto simp: apart_def)
  ultimately obtain g f' where run: "io_run (install_truncated l) f3 () f'" "g \<in> set (io_trace (install_truncated l) f3)"
    and inst: "installed l f3 g f'"
    using install_run [OF dir, of f3] by blast
  have g: "\<And>p. prefix ?d p \<Longrightarrow> fmlookup (fs_files g) p = None \<and> \<not> dir_exists g p"
    "\<And>p. \<not> prefix (truncate_old l) p \<Longrightarrow> \<not> prefix ?d p \<Longrightarrow> fmlookup (fs_files g) p = fmlookup (fs_files f3) p"
    and f': "\<And>p. fmlookup (fs_files f') p = (if prefix ?d p then fmlookup (fs_files f3) (?t @ drop (length ?d) p)
        else if prefix ?t p \<or> prefix (truncate_old l) p then None else fmlookup (fs_files f3) p)"
      "\<And>p. dir_exists f' p = (if prefix ?d p then dir_exists f3 (?t @ drop (length ?d) p)
        else \<not> prefix ?t p \<and> \<not> prefix (truncate_old l) p \<and> dir_exists f3 p)"
    using inst unfolding installed_def by blast+
  have replay: "io_run (segmented_replay l) f es f"
    using replay_from_rel [OF rel, of 0] by (simp add: segmented_replay_def)
  have run': "io_run (truncate_from l i) f () f'"
    unfolding truncate_seq by (rule io_run_bind [OF replay]) (rule io_run_seq [OF r3 run(1)])
  have "g \<in> set (io_trace (truncate_from l i) f)"
    using replay r3 run(2) unfolding truncate_seq
    by (auto simp: io_run_def io_result_def io_final_def io_trace_def io_seq_def [of _ "install_truncated l"] io_bind_def
        split: prod.splits sum.splits)
  moreover have "segments_rel l f' ?es" by (rule segments_rel_moved [OF f3(1)]) (simp_all add: f')
  moreover have "p |\<notin>| fmdom (fs_files g)" if "prefix p (parent ?d)" for p
  proof -
    have "\<not> prefix x p" if "length (parent ?d) < length x" for x
      using that prefix_length_le \<open>prefix p (parent ?d)\<close> by (meson leD order.trans)
    moreover have "length (parent ?d) < length ?d" by (subst (2) dir) simp
    ultimately have "\<not> prefix (truncate_old l) p" "\<not> prefix ?d p" "\<not> prefix ?t p"
      using truncate_dirs(1,2) [OF dir] by simp_all
    moreover have "fmlookup (fs_files f) p = None"
      using fs_wf_ancestor [OF wf base that] wf by (auto simp: fs_wf_def fmdom_lookup)
    ultimately show ?thesis using g(2) f3(2) by (simp add: fmdom_lookup)
  qed
  ultimately show ?thesis using run' g(1) by blast
qed

section \<open>Properties\<close>

text \<open>
  C5. The segment directory is a list of entries. Replay from an index returns exactly the entries with that
  index or a later one, in order, reading only the segments it needs; a lookup returns the entry with the index;
  an append of an entry that does not belong to an earlier segment adds it at the end and syncs it; and
  truncation leaves exactly the entries before the index, whatever an interrupted truncation left behind.
\<close>

theorem segmented_log_refines_list:
  assumes "segments_rel l f es" and "truncate_ready l f"
    and "entry_ok (sl_shard_id l) e" and "\<forall>x\<in>set es. segment_of l x \<le> segment_of l e"
  shows "io_run (replay_from l i) f (filter (\<lambda>e. i \<le> entry_index e) es) f \<and>
    io_run (segmented_entry l i) f (find (\<lambda>e. entry_index e = i) es) f \<and>
    (\<exists>f'. io_run (segmented_append l e) f () f' \<and> segments_rel l f' (es @ [e]) \<and> durable f' (segment_path_for_index l (entry_index e))) \<and>
    (\<exists>f'. io_run (truncate_from l i) f () f' \<and> segments_rel l f' (filter (\<lambda>e. entry_index e < i) es))"
proof (intro conjI)
  show replay: "io_run (replay_from l i) f (filter (\<lambda>e. i \<le> entry_index e) es) f" by (rule replay_from_rel [OF assms(1)])
  have "find (\<lambda>e. entry_index e = i) (filter (\<lambda>e. i \<le> entry_index e) es) = find (\<lambda>e. entry_index e = i) es"
    by (induction es) auto
  then show "io_run (segmented_entry l i) f (find (\<lambda>e. entry_index e = i) es) f"
    unfolding segmented_entry_def by (intro io_run_bind [OF replay]) (simp add: io_run_return)
  show "\<exists>f'. io_run (segmented_append l e) f () f' \<and> segments_rel l f' (es @ [e]) \<and> durable f' (segment_path_for_index l (entry_index e))"
    using append_rel [OF assms(1,3,4), of True]
    by (auto simp: segmented_append_def durable_def segment_path_file segment_of_def [symmetric])
  show "\<exists>f'. io_run (truncate_from l i) f () f' \<and> segments_rel l f' (filter (\<lambda>e. entry_index e < i) es)"
    using truncate_rel [OF assms(1,2)] by blast
qed

definition sample_segments :: segmented_shard_log where
  "sample_segments = \<lparr>sl_shard_id = 1, sl_entries_per_segment = 2, sl_segments_dir = [''segments'']\<rparr>"

definition sample_segments_fs :: fs where
  "sample_segments_fs = \<lparr>fs_dirs = {|[], [''segments'']|}, fs_files = fmempty\<rparr>"

lemma sample_segments_rel: "segments_rel sample_segments sample_segments_fs []" "truncate_ready sample_segments sample_segments_fs"
  by (auto simp: segments_rel_def sample_segments_def sample_segments_fs_def dir_exists_def segment_file_def join_path_def
      truncate_ready_def fs_wf_def parent_def)

theorem segmented_log_refines_list_witness:
  "\<exists>f'. io_run (segmented_append sample_segments sample_entry) sample_segments_fs () f' \<and>
     segments_rel sample_segments f' [sample_entry]"
proof -
  have "entry_ok (sl_shard_id sample_segments) sample_entry" using sample_entry_ok by (simp add: sample_segments_def)
  from segmented_log_refines_list [OF sample_segments_rel this, of 3] show ?thesis by auto
qed

text \<open>
  C28. Compaction only offers what is not needed: an entry is in a file of \<open>compaction_candidates_before\<close> exactly
  when its whole segment lies before the segment of the retained index, and then its index is smaller.
\<close>

theorem compaction_candidates_safe:
  assumes "segments_rel l f es"
  shows "\<exists>ps. compaction_candidates_before l i f = Inr ps \<and>
    (\<forall>e\<in>set es. segment_path_for_index l (entry_index e) \<in> set ps \<longleftrightarrow> segment_of l e < segment_start_for_index l i) \<and>
    (\<forall>e\<in>set es. segment_path_for_index l (entry_index e) \<in> set ps \<longrightarrow> entry_index e < i)"
proof -
  obtain sts where sts: "segment_paths l (\<lambda>s. s < segment_start_for_index l i) f = Inr (map (segment_file l) sts)"
      "set sts = {s. s < segment_start_for_index l i \<and> segment_file l s |\<in>| fmdom (fs_files f)}"
    using segment_paths_rel [OF assms] by blast
  have "segment_path_for_index l (entry_index e) \<in> set (map (segment_file l) sts) \<longleftrightarrow> segment_of l e < segment_start_for_index l i"
    if "e \<in> set es" for e
  proof -
    have "inj (segment_file l)" by (rule injI) simp
    then show ?thesis
      using segments_relD(6) [OF assms that] sts(2)
      by (simp add: segment_path_file segment_of_def [symmetric] inj_image_mem_iff)
  qed
  moreover have "entry_index e < i" if "segment_of l e < segment_start_for_index l i" for e
    using that segment_start_mono [of i "entry_index e" l] by (auto simp: segment_of_def not_le [symmetric])
  ultimately show ?thesis using sts(1) by (auto simp: compaction_candidates_before_def)
qed

definition later_entry :: log_entry where
  "later_entry = sample_entry\<lparr>entry_index := 5\<rparr>"

lemma later_entry_ok: "entry_ok 1 later_entry"
proof -
  have "length (encode_log_entry later_entry) = 130" by code_simp
  moreover have "wf_entry later_entry" "entry_shard_id later_entry = 1"
    by (simp_all add: wf_entry_def later_entry_def sample_entry_def new_with_metadata_def sample_command_facts fits_u32_def)
  ultimately show ?thesis by (simp add: entry_ok_def fits_u32_def)
qed

lemma sample_segments_filled: "\<exists>f. segments_rel sample_segments f [sample_entry, later_entry]"
proof -
  have ok: "entry_ok (sl_shard_id sample_segments) sample_entry" "entry_ok (sl_shard_id sample_segments) later_entry"
    using sample_entry_ok later_entry_ok by (simp_all add: sample_segments_def)
  have "segment_of sample_segments sample_entry = 3" "segment_of sample_segments later_entry = 5" by code_simp+
  then show ?thesis
    using append_rel [OF sample_segments_rel(1) ok(1), of True] append_rel [OF _ ok(2), of _ "[sample_entry]" True] by fastforce
qed

theorem compaction_candidates_safe_witness:
  "\<exists>f ps. segments_rel sample_segments f [sample_entry, later_entry] \<and>
     compaction_candidates_before sample_segments 6 f = Inr ps \<and>
     segment_path_for_index sample_segments (entry_index sample_entry) \<in> set ps \<and>
     segment_path_for_index sample_segments (entry_index later_entry) \<notin> set ps \<and> entry_index sample_entry < 6"
proof -
  obtain f where f: "segments_rel sample_segments f [sample_entry, later_entry]" using sample_segments_filled by blast
  have "segment_of sample_segments sample_entry < segment_start_for_index sample_segments 6"
    "\<not> segment_of sample_segments later_entry < segment_start_for_index sample_segments 6" by code_simp+
  with compaction_candidates_safe [OF f, of 6] f show ?thesis by auto
qed

text \<open>
  C29. A crash during truncation can lose the whole log. Between the two renames of \<open>truncate_from\<close> there is no
  segment directory; after a crash at that point the next \<open>open\<close> creates an empty one, and replay returns no
  entry at all, although the entries are still in the renamed directory that the next truncation deletes.
\<close>

theorem truncate_crash_loses_log:
  assumes "segments_rel l f es" and "truncate_ready l f"
  shows "\<exists>f'. crashes_to (truncate_from l i) f f' \<and>
    io_result (io_seq (create_dir_all (sl_segments_dir l)) (segmented_replay l)) f' = Inr []"
proof -
  obtain g where g: "g \<in> set (io_trace (truncate_from l i) f)"
      "\<And>p. prefix (sl_segments_dir l) p \<Longrightarrow> fmlookup (fs_files g) p = None \<and> \<not> dir_exists g p"
      "\<And>p. prefix p (parent (sl_segments_dir l)) \<Longrightarrow> p |\<notin>| fmdom (fs_files g)"
    using truncate_rel [OF assms] by blast
  obtain f' where f': "survives g f'" "\<And>p. file_content f' p = file_content g p" using survives_exists by blast
  have none: "p |\<notin>| fmdom (fs_files f')" if "fmlookup (fs_files g) p = None" for p
    using f'(2) [of p] that by (simp add: file_content_def fmdom_lookup)
  define h where "h = f'\<lparr>fs_dirs := fs_dirs f' |\<union>| fset_of_list (prefixes (sl_segments_dir l))\<rparr>"
  have "p |\<notin>| fmdom (fs_files f')" if "prefix p (sl_segments_dir l)" for p
    using that g(2,3) none truncate_ready_base [OF assms(2)]
    by (cases "p = sl_segments_dir l") (metis fmdom_lookup prefix_order.order_refl, metis fmdom_lookup prefix_snoc)
  then have create: "io_run (create_dir_all (sl_segments_dir l)) f' () h"
    unfolding create_dir_all_def by (intro io_run_step) (auto simp: fs_create_dir_all_def h_def list_ex_iff)
  have dirs: "dir_exists h p = (dir_exists g p \<or> prefix p (sl_segments_dir l))" for p
    using survives_dirs [OF f'(1), of p] by (auto simp: h_def dir_exists_def fset_of_list_elem)
  have "prefix (sl_segments_dir l) (segment_file l s)" "\<not> prefix (segment_file l s) (sl_segments_dir l)" for s
    by (auto simp: segment_file_def join_path_def dest: prefix_length_le)
  moreover have "p |\<notin>| fmdom (fs_files h)" if "parent p = sl_segments_dir l" "p \<noteq> []" for p
    using none [of p] g(2) [of p] parent_prefix [OF that(2)] that(1) by (simp add: h_def)
  ultimately have "segments_rel l h []" unfolding segments_rel_def by (simp add: dirs g(2)) blast
  from io_run_seq [OF create replay_from_rel [OF this, of 0]]
  have "io_result (io_seq (create_dir_all (sl_segments_dir l)) (segmented_replay l)) f' = Inr []"
    by (simp add: segmented_replay_def io_run_def)
  then show ?thesis using g(1) f'(1) by (auto simp: crashes_to_def crash_points_def)
qed

theorem truncate_crash_loses_log_witness:
  "\<exists>f f'. segments_rel sample_segments f [sample_entry] \<and> crashes_to (truncate_from sample_segments 9) f f' \<and>
     io_result (io_seq (create_dir_all (sl_segments_dir sample_segments)) (segmented_replay sample_segments)) f' = Inr []"
proof -
  have "entry_ok (sl_shard_id sample_segments) sample_entry" using sample_entry_ok by (simp add: sample_segments_def)
  then obtain i where "segments_rel sample_segments
      (set_file (segment_file sample_segments (segment_of sample_segments sample_entry)) i sample_segments_fs) [sample_entry]"
    using append_rel [OF sample_segments_rel(1), of sample_entry True] by auto
  moreover have "truncate_ready sample_segments
      (set_file (segment_file sample_segments (segment_of sample_segments sample_entry)) i sample_segments_fs)"
    by (auto simp: truncate_ready_def fs_wf_def parent_def sample_segments_def sample_segments_fs_def dir_exists_def
        segment_file_def join_path_def truncate_tmp_def truncate_old_def with_extension_def)
  ultimately show ?thesis using truncate_crash_loses_log [of sample_segments] by blast
qed

end
