(* ===== verification/Db_Error.thy ===== *)
theory Db_Error
  imports Codec Graph_Read
begin

text \<open>The errors of the database crate (\<open>neo4r-db/src/error.rs\<close>), with the query errors they wrap.\<close>

datatype query_error = QueryParse string | QueryUnsupported string

fun display_query_error :: "query_error \<Rightarrow> string" where
  "display_query_error (QueryParse message) = ''query parse error: '' @ message"
| "display_query_error (QueryUnsupported message) = ''unsupported query: '' @ message"

datatype database_error =
    InvalidConfig string
  | GraphFailed graph_error
  | GraphReadFailed graph_read_error
  | QueryFailed query_error
  | StorageFailed storage_error
  | MissingShardLog shard_id
  | ShardNotLocal shard_id server_id
  | ShardNotPrimary shard_id server_id "server_id option"
  | ShardReplaying shard_id server_id u64 u64
  | UnexpectedLogIndex shard_id u64 u64
  | LogConflict shard_id u64 string
  | Replication string
  | LockPoisoned
  | WriterUnavailable
  | UnexpectedWriteResponse string

text \<open>\<open>From\<close> as the question mark applies it: a storage result in a function that returns database errors.\<close>

definition from_storage :: "storage_error + 'a \<Rightarrow> database_error + 'a" where
  "from_storage r = (case r of Inl e \<Rightarrow> Inl (StorageFailed e) | Inr x \<Rightarrow> Inr x)"

end
