(* ===== verification/Raft_Membership.thy ===== *)
theory Raft_Membership
  imports Db_Error
begin

text \<open>
  The membership of a replication group (\<open>neo4r-db/src/raft/membership.rs\<close>): voters, learners and the outgoing
  voters of a joint configuration. A quorum is a majority of the voters and, in a joint configuration, also of
  the outgoing ones. Two quorums of one configuration, and a quorum before and one after any single change,
  have a server in common.
\<close>

section \<open>Operations\<close>

record raft_membership =
  rm_voters :: "server_id fset"
  rm_outgoing :: "server_id fset option"
  rm_learners :: "server_id fset"

definition membership_new :: "server_id list \<Rightarrow> database_error + raft_membership" where
  "membership_new ids =
     (let voters = fset_of_list ids
      in if voters = {||} then Inl (InvalidConfig ''raft membership must contain at least one voter'')
         else Inr \<lparr>rm_voters = voters, rm_outgoing = None, rm_learners = {||}\<rparr>)"

definition is_joint :: "raft_membership \<Rightarrow> bool" where
  "is_joint m = (rm_outgoing m \<noteq> None)"

definition quorum_size :: "raft_membership \<Rightarrow> nat" where
  "quorum_size m = fcard (rm_voters m) div 2 + 1"

definition contains_voter :: "raft_membership \<Rightarrow> server_id \<Rightarrow> bool" where
  "contains_voter m s \<longleftrightarrow> s |\<in>| rm_voters m \<or> (case rm_outgoing m of None \<Rightarrow> False | Some vs \<Rightarrow> s |\<in>| vs)"

definition is_member :: "raft_membership \<Rightarrow> server_id \<Rightarrow> bool" where
  "is_member m s \<longleftrightarrow> contains_voter m s \<or> s |\<in>| rm_learners m"

definition has_majority :: "server_id fset \<Rightarrow> server_id fset \<Rightarrow> bool" where
  "has_majority voters matched \<longleftrightarrow> fcard voters div 2 + 1 \<le> fcard (matched |\<inter>| voters)"

definition has_quorum :: "raft_membership \<Rightarrow> server_id fset \<Rightarrow> bool" where
  "has_quorum m matched \<longleftrightarrow> has_majority (rm_voters m) matched \<and>
     (case rm_outgoing m of None \<Rightarrow> True | Some vs \<Rightarrow> has_majority vs matched)"

definition all_voters :: "raft_membership \<Rightarrow> server_id fset" where
  "all_voters m = (case rm_outgoing m of None \<Rightarrow> rm_voters m | Some vs \<Rightarrow> rm_voters m |\<union>| vs)"

definition enter_joint :: "server_id fset \<Rightarrow> raft_membership \<Rightarrow> database_error + raft_membership" where
  "enter_joint next_voters m =
     (if next_voters = {||} then Inl (InvalidConfig ''raft joint membership cannot be empty'')
      else Inr (m\<lparr>rm_outgoing := Some (rm_voters m), rm_voters := next_voters\<rparr>))"

definition finalize_joint :: "raft_membership \<Rightarrow> raft_membership" where
  "finalize_joint m = m\<lparr>rm_outgoing := None\<rparr>"

definition add_voter :: "server_id \<Rightarrow> raft_membership \<Rightarrow> raft_membership" where
  "add_voter s m = m\<lparr>rm_learners := rm_learners m |-| {|s|}, rm_voters := finsert s (rm_voters m)\<rparr>"

definition add_learner :: "server_id \<Rightarrow> raft_membership \<Rightarrow> database_error + raft_membership" where
  "add_learner s m =
     (if contains_voter m s then Inl (InvalidConfig (''server '' @ show_u64 s @ '' is already a raft voter''))
      else Inr (m\<lparr>rm_learners := finsert s (rm_learners m)\<rparr>))"

definition promote_learner :: "server_id \<Rightarrow> raft_membership \<Rightarrow> database_error + raft_membership" where
  "promote_learner s m =
     (if s |\<notin>| rm_learners m then Inl (InvalidConfig (''server '' @ show_u64 s @ '' is not a raft learner''))
      else Inr (m\<lparr>rm_learners := rm_learners m |-| {|s|}, rm_voters := finsert s (rm_voters m)\<rparr>))"

definition remove_voter :: "server_id \<Rightarrow> raft_membership \<Rightarrow> database_error + raft_membership" where
  "remove_voter s m =
     (if fcard (rm_voters m) = 1 \<and> s |\<in>| rm_voters m
      then Inl (InvalidConfig ''raft membership cannot remove the last voter'')
      else Inr (m\<lparr>rm_voters := rm_voters m |-| {|s|}, rm_learners := rm_learners m |-| {|s|}\<rparr>))"

datatype raft_membership_change = AddLearner server_id | PromoteLearner server_id | AddVoter server_id | RemoveVoter server_id

section \<open>Quorums\<close>

text \<open>What the protocol needs of its quorums: one taken before and one taken after a step have a member in common.\<close>

locale quorum_overlap =
  fixes before after :: "'v fset \<Rightarrow> bool"
  assumes overlap: "before A \<Longrightarrow> after B \<Longrightarrow> \<exists>v. v |\<in>| A \<and> v |\<in>| B"
begin

text \<open>If every server backs at most one value, quorums for two values have to be for the same one.\<close>

lemma one_value:
  assumes "before A" and "after B" and "\<And>v. v |\<in>| A \<Longrightarrow> backs v x" and "\<And>v. v |\<in>| B \<Longrightarrow> backs v y"
    and "\<And>v. backs v x \<Longrightarrow> backs v y \<Longrightarrow> x = y"
  shows "x = y"
  using overlap [OF assms(1,2)] assms(3-5) by blast

end

text \<open>Two majorities meet, also when the two sets of voters differ in one server.\<close>

lemma majorities_meet:
  assumes "has_majority V A" and "has_majority W B" and "fcard (V |\<union>| W) \<le> fcard V div 2 + fcard W div 2 + 1"
  shows "\<exists>v. v |\<in>| A \<and> v |\<in>| B"
proof (rule ccontr)
  assume "\<nexists>v. v |\<in>| A \<and> v |\<in>| B"
  then have "(A |\<inter>| V) |\<inter>| (B |\<inter>| W) = {||}" by blast
  then have "fcard (A |\<inter>| V) + fcard (B |\<inter>| W) = fcard ((A |\<inter>| V) |\<union>| (B |\<inter>| W))"
    by (rule fcard_funion_disjoint [symmetric])
  also have "\<dots> \<le> fcard (V |\<union>| W)" by (rule fcard_mono) blast
  finally show False using assms by (simp add: has_majority_def)
qed

lemma same_voters_meet: "fcard (V |\<union>| V) \<le> fcard V div 2 + fcard V div 2 + 1"
  by simp

lemma insert_voter_meet: "fcard (V |\<union>| finsert s V) \<le> fcard V div 2 + fcard (finsert s V) div 2 + 1"
proof (cases "s |\<in>| V")
  case True
  then have "finsert s V = V" by auto
  then show ?thesis using same_voters_meet by simp
next
  case False
  then have "fcard (finsert s V) = Suc (fcard V)" by (rule fcard_finsert_disjoint)
  moreover have "V |\<union>| finsert s V = finsert s V" by auto
  ultimately show ?thesis by simp
qed

lemma remove_voter_meet: "fcard (V |\<union>| (V |-| {|s|})) \<le> fcard V div 2 + fcard (V |-| {|s|}) div 2 + 1"
proof (cases "s |\<in>| V")
  case True
  then have "V = finsert s (V |-| {|s|})" by auto
  then show ?thesis using insert_voter_meet [of "V |-| {|s|}" s] by (metis add.commute funion_commute)
next
  case False
  then have "V |-| {|s|} = V" by auto
  then show ?thesis using same_voters_meet by simp
qed

lemma voters_meet:
  assumes "fcard (rm_voters m |\<union>| rm_voters m') \<le> fcard (rm_voters m) div 2 + fcard (rm_voters m') div 2 + 1"
  shows "has_quorum m A \<Longrightarrow> has_quorum m' B \<Longrightarrow> \<exists>v. v |\<in>| A \<and> v |\<in>| B"
  using majorities_meet [OF _ _ assms] by (simp add: has_quorum_def)

interpretation one_config: quorum_overlap "has_quorum m" "has_quorum m" for m
  by unfold_locales (rule voters_meet [OF same_voters_meet])

text \<open>The changes that \<open>RaftCore\<close> applies to a membership.\<close>

inductive membership_step :: "raft_membership \<Rightarrow> raft_membership \<Rightarrow> bool" where
  enter: "enter_joint vs m = Inr m' \<Longrightarrow> membership_step m m'"
| finish: "membership_step m (finalize_joint m)"
| add: "membership_step m (add_voter s m)"
| learn: "add_learner s m = Inr m' \<Longrightarrow> membership_step m m'"
| promote: "promote_learner s m = Inr m' \<Longrightarrow> membership_step m m'"
| remove: "remove_voter s m = Inr m' \<Longrightarrow> membership_step m m'"

lemma membership_step_overlap:
  assumes "membership_step m m'" and "has_quorum m A" and "has_quorum m' B"
  shows "\<exists>v. v |\<in>| A \<and> v |\<in>| B"
  using assms
proof (induction rule: membership_step.induct)
  case (enter vs m m')
  then have "has_majority (rm_voters m) A" "has_majority (rm_voters m) B"
    by (auto simp: enter_joint_def has_quorum_def split: if_splits)
  then show ?case by (rule majorities_meet [OF _ _ same_voters_meet])
next
  case (finish m)
  then show ?case using voters_meet [of m "finalize_joint m"] same_voters_meet by (simp add: finalize_joint_def)
next
  case (add m s)
  moreover have "rm_voters (add_voter s m) = finsert s (rm_voters m)" by (simp add: add_voter_def)
  ultimately show ?case using voters_meet [of m "add_voter s m"] insert_voter_meet by metis
next
  case (learn s m m')
  then have "rm_voters m' = rm_voters m" by (auto simp: add_learner_def split: if_splits)
  then show ?case using learn voters_meet [of m m'] same_voters_meet by simp
next
  case (promote s m m')
  then have "rm_voters m' = finsert s (rm_voters m)" by (auto simp: promote_learner_def split: if_splits)
  then show ?case using promote voters_meet [of m m'] insert_voter_meet by metis
next
  case (remove s m m')
  then have "rm_voters m' = rm_voters m |-| {|s|}" by (auto simp: remove_voter_def split: if_splits)
  then show ?case using remove voters_meet [of m m'] remove_voter_meet by metis
qed

text \<open>A configuration never loses its last voter.\<close>

lemma membership_step_voters: "membership_step m m' \<Longrightarrow> rm_voters m \<noteq> {||} \<Longrightarrow> rm_voters m' \<noteq> {||}"
proof (induction rule: membership_step.induct)
  case (remove s m m')
  show ?case
  proof
    assume "rm_voters m' = {||}"
    then have "rm_voters m |-| {|s|} = {||}" using remove by (auto simp: remove_voter_def split: if_splits)
    then have "rm_voters m = {|s|}" using remove(2) by blast
    moreover have "fcard {|s|} = 1" by (simp add: fcard_finsert_disjoint)
    ultimately show False using remove(1) by (simp add: remove_voter_def)
  qed
qed (auto simp: enter_joint_def finalize_joint_def add_voter_def add_learner_def promote_learner_def split: if_splits)

section \<open>Properties\<close>

text \<open>
  C9. Membership changes are safe for quorums: a quorum of a configuration and a quorum of the configuration
  after any single change (entering or leaving a joint configuration, adding, promoting or removing one server)
  have a server in common, as have two quorums of one configuration, and the set of voters never becomes empty.
\<close>

theorem membership_change_safe:
  assumes "membership_step m m'" and "rm_voters m \<noteq> {||}"
  shows "rm_voters m' \<noteq> {||} \<and>
    (has_quorum m A \<longrightarrow> has_quorum m' B \<longrightarrow> (\<exists>v. v |\<in>| A \<and> v |\<in>| B)) \<and>
    (has_quorum m A \<longrightarrow> has_quorum m B \<longrightarrow> (\<exists>v. v |\<in>| A \<and> v |\<in>| B))"
  using membership_step_voters [OF assms] membership_step_overlap [OF assms(1)] one_config.overlap by blast

definition three_servers :: raft_membership where
  "three_servers = \<lparr>rm_voters = {|1, 2, 3|}, rm_outgoing = None, rm_learners = {||}\<rparr>"

definition three_to_five :: raft_membership where
  "three_to_five = \<lparr>rm_voters = {|3, 4, 5|}, rm_outgoing = Some {|1, 2, 3|}, rm_learners = {||}\<rparr>"

theorem membership_change_safe_witness:
  "has_quorum three_servers {|1, 2|} \<and> has_quorum three_to_five {|2, 3, 4|} \<and> \<not> has_quorum three_to_five {|3, 4, 5|} \<and>
   (\<exists>v. v |\<in>| {|1, 2|} \<and> v |\<in>| {|2, 3, 4 :: server_id|})"
proof -
  have "enter_joint {|3, 4, 5|} three_servers = Inr three_to_five"
    by (simp add: enter_joint_def three_servers_def three_to_five_def)
  then have step: "membership_step three_servers three_to_five" by (rule membership_step.enter)
  have q: "has_quorum three_servers {|1, 2|}" "has_quorum three_to_five {|2, 3, 4|}"
    "\<not> has_quorum three_to_five {|3, 4, 5|}" "rm_voters three_servers \<noteq> {||}" by code_simp+
  from membership_change_safe [OF step q(4)] q show ?thesis by blast
qed

end
