(* ===== verification/Raft_Persistent.thy ===== *)
theory Raft_Persistent
  imports Db_Error Files Text
begin

text \<open>
  The vote and term a server keeps on disk (\<open>neo4r-db/src/raft/persistent.rs\<close>): a text file of three lines,
  written to a temporary file and renamed. What is saved is loaded again as long as the machine keeps running.
  Nothing is synced, so a saved vote need not survive a power failure.
\<close>

section \<open>The state and its text\<close>

record raft_persistent_state =
  rp_current_term :: u64
  rp_voted_for :: "server_id option"

definition persistent_default :: raft_persistent_state where
  "persistent_default = \<lparr>rp_current_term = 0, rp_voted_for = None\<rparr>"

definition raft_state_magic :: string where
  "raft_state_magic = ''N4RRAFT1''"

definition newline :: string where
  "newline = [CHR 0x0A]"

definition encode_persistent_state :: "raft_persistent_state \<Rightarrow> string" where
  "encode_persistent_state st =
     raft_state_magic @ newline @ ''term='' @ show_u64 (rp_current_term st) @ newline @
     ''voted_for='' @ (case rp_voted_for st of Some s \<Rightarrow> show_u64 s | None \<Rightarrow> ''-'') @ newline"

text \<open>\<open>lines.next()\<close> with \<open>and_then(strip_prefix)\<close>.\<close>

definition line_field :: "string list \<Rightarrow> nat \<Rightarrow> string \<Rightarrow> string option" where
  "line_field ls i name = (if i < length ls then strip_text_prefix name (ls ! i) else None)"

definition decode_persistent_state :: "string \<Rightarrow> database_error + raft_persistent_state" where
  "decode_persistent_state input =
     (let ls = text_lines input in
      if ls = [] \<or> ls ! 0 \<noteq> raft_state_magic then Inl (InvalidConfig ''invalid raft state header'')
      else case line_field ls 1 ''term='' of
        None \<Rightarrow> Inl (InvalidConfig ''missing raft term'')
      | Some t \<Rightarrow>
        (case parse_u64 t of
           None \<Rightarrow> Inl (InvalidConfig ''invalid raft term'')
         | Some term' \<Rightarrow>
           (case line_field ls 2 ''voted_for='' of
              None \<Rightarrow> Inl (InvalidConfig ''missing raft vote'')
            | Some v \<Rightarrow>
              if v = ''-'' then Inr \<lparr>rp_current_term = term', rp_voted_for = None\<rparr>
              else (case parse_u64 v of
                      None \<Rightarrow> Inl (InvalidConfig ''invalid raft vote'')
                    | Some s \<Rightarrow> Inr \<lparr>rp_current_term = term', rp_voted_for = Some s\<rparr>))))"

section \<open>The store\<close>

record raft_state_store =
  rs_path :: path

definition path_display :: "path \<Rightarrow> string" where
  "path_display p = join_with ''/'' p"

definition io_text :: "storage_error \<Rightarrow> string" where
  "io_text e = (case e of Io s \<Rightarrow> s | _ \<Rightarrow> [])"

definition raft_temp_path :: "path \<Rightarrow> path" where
  "raft_temp_path p = with_extension ''tmp'' p"

definition raft_state_load :: "raft_state_store \<Rightarrow> fs \<Rightarrow> database_error + raft_persistent_state" where
  "raft_state_load s f =
     (let failed = (\<lambda>err. Inl (InvalidConfig (''failed to read raft state '' @ path_display (rs_path s) @ '': '' @ err)))
      in if dir_exists f (rs_path s) then failed (io_text is_a_directory)
         else case file_content f (rs_path s) of
                None \<Rightarrow> Inr persistent_default
              | Some bs \<Rightarrow>
                  if valid_utf8 bs then decode_persistent_state (of_bytes bs)
                  else failed ''stream did not contain valid UTF-8'')"

text \<open>\<open>fs::write\<close>: create or truncate, then write; no sync.\<close>

definition fs_write :: "path \<Rightarrow> bytes \<Rightarrow> unit io" where
  "fs_write p bs = io_seq (open_truncate p) (write_all p bs)"

definition config_error :: "string \<Rightarrow> path \<Rightarrow> storage_error \<Rightarrow> database_error" where
  "config_error what p e = InvalidConfig (''failed to '' @ what @ '' '' @ path_display p @ '': '' @ io_text e)"

definition raft_state_save :: "raft_state_store \<Rightarrow> raft_persistent_state \<Rightarrow> (database_error, unit) prog" where
  "raft_state_save s st =
     (let p = rs_path s; tmp = raft_temp_path p
      in io_seq (io_map_err (config_error ''create raft state dir'' (parent p)) (create_dir_all (parent p)))
        (io_seq (io_map_err (config_error ''write raft state'' tmp) (fs_write tmp (as_bytes (encode_persistent_state st))))
          (io_map_err (config_error ''install raft state'' p) (rename_file tmp p))))"

section \<open>Round trip\<close>

lemma encoded_lines:
  "text_lines (encode_persistent_state st) =
     [raft_state_magic, ''term='' @ show_u64 (rp_current_term st),
      ''voted_for='' @ (case rp_voted_for st of Some s \<Rightarrow> show_u64 s | None \<Rightarrow> ''-'')]"
proof -
  let ?v = "case rp_voted_for st of Some s \<Rightarrow> show_u64 s | None \<Rightarrow> ''-''"
  have plain: "plain_line raft_state_magic" "plain_line (''term='' @ show_u64 (rp_current_term st))"
      "plain_line (''voted_for='' @ ?v)"
    by (simp_all add: raft_state_magic_def plain_line_def show_u64_free digit_value_def split: option.split)
  then have "text_lines (concat (map (\<lambda>l. l @ [CHR 0x0A]) [raft_state_magic, ''term='' @ show_u64 (rp_current_term st), ''voted_for='' @ ?v])) =
      [raft_state_magic, ''term='' @ show_u64 (rp_current_term st), ''voted_for='' @ ?v]"
    using text_lines_concat [of "[raft_state_magic, ''term='' @ show_u64 (rp_current_term st), ''voted_for='' @ ?v]" "[]"] by simp
  then show ?thesis by (simp add: encode_persistent_state_def newline_def)
qed

lemma show_u64_not_dash: "show_u64 x \<noteq> ''-''"
  using show_u64_free [of "CHR ''-''" x] by (auto simp: digit_value_def)

lemma decode_encode_persistent_state: "decode_persistent_state (encode_persistent_state st) = Inr st"
  by (cases st; cases "rp_voted_for st")
     (simp_all add: decode_persistent_state_def encoded_lines line_field_def strip_text_prefix_def show_u64_not_dash)

lemma encoded_valid: "valid_utf8 (as_bytes (encode_persistent_state st))"
proof -
  have "ascii (encode_persistent_state st)"
    by (simp add: encode_persistent_state_def newline_def raft_state_magic_def split: option.split)
  from ascii_valid_string [OF this] show ?thesis by (simp add: valid_string_def)
qed

section \<open>Saving\<close>

text \<open>Nothing on the disk stands in the way of the file, its temporary file or its directory.\<close>

definition raft_state_ready :: "raft_state_store \<Rightarrow> fs \<Rightarrow> bool" where
  "raft_state_ready s f \<longleftrightarrow>
     rs_path s \<noteq> [] \<and> raft_temp_path (rs_path s) \<noteq> rs_path s \<and>
     \<not> dir_exists f (rs_path s) \<and> \<not> dir_exists f (raft_temp_path (rs_path s)) \<and>
     (\<forall>q. prefix q (parent (rs_path s)) \<longrightarrow> fmlookup (fs_files f) q = None)"

definition raft_saved :: "raft_state_store \<Rightarrow> raft_persistent_state \<Rightarrow> fs \<Rightarrow> fs" where
  "raft_saved s st f = f\<lparr>fs_dirs := fs_dirs f |\<union>| fset_of_list (prefixes (parent (rs_path s))),
     fs_files := fmupd (rs_path s) \<lparr>i_data = as_bytes (encode_persistent_state st), i_synced = 0\<rparr>
       (fmdrop (raft_temp_path (rs_path s)) (fs_files f))\<rparr>"

lemma not_prefix_parent: "p \<noteq> [] \<Longrightarrow> \<not> prefix p (parent p)" "p \<noteq> [] \<Longrightarrow> \<not> prefix (raft_temp_path p) (parent p)"
  by (cases p rule: rev_cases; auto simp: parent_def raft_temp_path_def with_extension_def dest: prefix_length_le)+

lemma raft_state_save_run:
  assumes "raft_state_ready s f"
  shows "io_run (raft_state_save s st) f () (raft_saved s st f)"
proof -
  let ?p = "rs_path s" and ?tmp = "raft_temp_path (rs_path s)"
  let ?bs = "as_bytes (encode_persistent_state st)"
  let ?f1 = "f\<lparr>fs_dirs := fs_dirs f |\<union>| fset_of_list (prefixes (parent ?p))\<rparr>"
  have dirs: "dir_exists ?f1 (parent ?p)" "\<not> dir_exists ?f1 ?p" "\<not> dir_exists ?f1 ?tmp"
    using assms not_prefix_parent [of ?p] by (auto simp: raft_state_ready_def dir_exists_def fset_of_list.rep_eq)
  have par: "parent ?tmp = parent ?p" by (simp add: raft_temp_path_def with_extension_def parent_def)
  have "io_run (create_dir_all (parent ?p)) f () ?f1"
    using assms unfolding create_dir_all_def
    by (intro io_run_step) (auto simp: fs_create_dir_all_def raft_state_ready_def list_ex_iff fmlookup_dom_iff)
  moreover have "io_run (fs_write ?tmp ?bs) ?f1 () (set_file ?tmp \<lparr>i_data = ?bs, i_synced = 0\<rparr> ?f1)"
  proof -
    have "io_run (open_truncate ?tmp) ?f1 () (set_file ?tmp \<lparr>i_data = [], i_synced = 0\<rparr> ?f1)"
      using dirs par unfolding open_truncate_def by (intro io_run_step) (simp add: fs_open_truncate_def)
    moreover have "io_run (write_all ?tmp ?bs) (set_file ?tmp \<lparr>i_data = [], i_synced = 0\<rparr> ?f1) ()
        (set_file ?tmp \<lparr>i_data = ?bs, i_synced = 0\<rparr> ?f1)"
      unfolding write_all_def by (intro io_run_step) (simp add: fs_write_all_def)
    ultimately show ?thesis unfolding fs_write_def by (rule io_run_seq)
  qed
  moreover have "io_run (rename_file ?tmp ?p) (set_file ?tmp \<lparr>i_data = ?bs, i_synced = 0\<rparr> ?f1) () (raft_saved s st f)"
    using dirs par unfolding rename_file_def
    by (intro io_run_step) (simp add: fs_rename_file_def raft_saved_def set_file_def dir_exists_def fmdrop_fmupd_same)
  ultimately show ?thesis
    unfolding raft_state_save_def Let_def by (intro io_run_seq io_run_map_err) simp_all
qed

lemma raft_saved_ready: "raft_state_ready s f \<Longrightarrow> raft_state_ready s (raft_saved s st f)"
  using not_prefix_parent [of "rs_path s"]
  by (auto simp: raft_state_ready_def raft_saved_def dir_exists_def fset_of_list.rep_eq)

lemma raft_saved_load: "raft_state_ready s f \<Longrightarrow> raft_state_load s (raft_saved s st f) = Inr st"
  using raft_saved_ready [of s f st]
  by (simp add: raft_state_load_def raft_state_ready_def Let_def encoded_valid decode_encode_persistent_state)
     (simp add: raft_saved_def file_content_def encoded_valid decode_encode_persistent_state)

section \<open>Properties\<close>

definition raft_sample_store :: raft_state_store where
  "raft_sample_store = \<lparr>rs_path = [''raft'', ''shard-0.state'']\<rparr>"

definition raft_sample_fs :: fs where
  "raft_sample_fs = \<lparr>fs_dirs = {|[]|}, fs_files = fmempty\<rparr>"

lemma raft_sample_ready: "raft_state_ready raft_sample_store raft_sample_fs"
proof -
  have "raft_temp_path [''raft'', ''shard-0.state''] = [''raft'', ''shard-0.tmp'']" by code_simp
  then show ?thesis by (simp add: raft_state_ready_def raft_sample_store_def raft_sample_fs_def dir_exists_def)
qed

text \<open>
  C35. A server's term and vote are read back as they were saved, for every term and vote, and saving can be
  repeated: the next save finds the disk as ready as the first did.
\<close>

theorem raft_state_save_load:
  assumes "raft_state_ready s f"
  shows "\<exists>f'. io_run (raft_state_save s st) f () f' \<and> raft_state_load s f' = Inr st \<and> raft_state_ready s f'"
  using raft_state_save_run [OF assms] raft_saved_load [OF assms] raft_saved_ready [OF assms] by blast

theorem raft_state_save_load_witness:
  "\<exists>f'. io_run (raft_state_save raft_sample_store \<lparr>rp_current_term = 7, rp_voted_for = Some 12\<rparr>) raft_sample_fs () f' \<and>
     raft_state_load raft_sample_store f' = Inr \<lparr>rp_current_term = 7, rp_voted_for = Some 12\<rparr>"
  using raft_state_save_load [OF raft_sample_ready, of "\<lparr>rp_current_term = 7, rp_voted_for = Some 12\<rparr>"] by blast

text \<open>
  C36. A vote that was saved can come back as another vote. After a save that succeeded, a power failure may
  leave any part of the file, and a file cut after the first digit of the vote is accepted: the vote for server 12
  in term 7 is loaded as a vote for server 1 in term 7.
\<close>

theorem saved_vote_changes_after_crash:
  "\<exists>f f'. io_run (raft_state_save raft_sample_store \<lparr>rp_current_term = 7, rp_voted_for = Some 12\<rparr>) raft_sample_fs () f \<and>
     survives f f' \<and> raft_state_load raft_sample_store f' = Inr \<lparr>rp_current_term = 7, rp_voted_for = Some 1\<rparr>"
proof (intro exI conjI)
  let ?st = "\<lparr>rp_current_term = 7, rp_voted_for = Some 12\<rparr>"
  let ?f = "raft_saved raft_sample_store ?st raft_sample_fs"
  let ?cut = "\<lparr>i_data = take 27 (as_bytes (encode_persistent_state ?st)), i_synced = 27\<rparr>"
  let ?f' = "?f\<lparr>fs_files := fmupd (rs_path raft_sample_store) ?cut fmempty\<rparr>"
  show "io_run (raft_state_save raft_sample_store ?st) raft_sample_fs () ?f"
    by (rule raft_state_save_run [OF raft_sample_ready])
  have "length (as_bytes (encode_persistent_state ?st)) = 29" by code_simp
  then show "survives ?f ?f'"
    by (auto simp: survives_def raft_saved_def raft_sample_fs_def intro: exI [of _ 27])
  show "raft_state_load raft_sample_store ?f' = Inr \<lparr>rp_current_term = 7, rp_voted_for = Some 1\<rparr>"
  proof -
    define t where "t = raft_state_magic @ newline @ ''term=7'' @ newline @ ''voted_for=1''"
    have cut: "take 27 (as_bytes (encode_persistent_state ?st)) = as_bytes t" and lines: "text_lines t = [raft_state_magic, ''term=7'', ''voted_for=1'']"
      and shown: "show_u64 7 = ''7''" "show_u64 1 = ''1''" and valid: "valid_utf8 (as_bytes t)"
      unfolding t_def by code_simp+
    have "decode_persistent_state t = Inr \<lparr>rp_current_term = 7, rp_voted_for = Some 1\<rparr>"
      using parse_show_u64 [of 7] parse_show_u64 [of 1]
      unfolding decode_persistent_state_def lines shown by (simp add: line_field_def strip_text_prefix_def)
    moreover have "\<not> dir_exists ?f' (rs_path raft_sample_store)"
      by (simp add: dir_exists_def raft_saved_def raft_sample_store_def raft_sample_fs_def parent_def)
    ultimately show ?thesis
      unfolding cut by (simp add: raft_state_load_def file_content_def valid)
  qed
qed

end
