(* ===== verification/Raft_Core.thy ===== *)
theory Raft_Core
  imports Raft_Membership Raft_Persistent
begin

text \<open>
  One member of a replication group (\<open>neo4r-db/src/raft.rs\<close>). A handler takes the server's state and the disk
  and returns its result, the state and the disk after it; the state is returned also when the handler fails,
  because the code changes it before it saves. \<open>Instant::now()\<close> is the argument \<open>now\<close>; instants and durations
  are numbers of nanoseconds, and an instant is not bounded.
\<close>

section \<open>Messages and state\<close>

type_synonym instant = nat
type_synonym duration = nat

record request_vote_request =
  rv_term :: u64
  rv_candidate_id :: server_id
  rv_last_log_index :: log_index
  rv_last_log_term :: u64

record request_vote_response =
  rvr_term :: u64
  rvr_vote_granted :: bool

record pre_vote_request =
  pv_next_term :: u64
  pv_candidate_id :: server_id
  pv_last_log_index :: log_index
  pv_last_log_term :: u64

record pre_vote_response =
  pvr_term :: u64
  pvr_vote_granted :: bool

record append_entries_request =
  ae_term :: u64
  ae_leader_id :: server_id
  ae_prev_log_index :: log_index
  ae_prev_log_term :: u64
  ae_entries :: "log_entry list"
  ae_leader_commit :: log_index

record append_entries_response =
  aer_term :: u64
  aer_success :: bool
  aer_durable :: bool
  aer_match_index :: log_index
  aer_conflict_index :: "log_index option"
  aer_conflict_term :: "u64 option"

record raft_snapshot_metadata =
  sn_shard_id :: shard_id
  sn_last_included_term :: u64
  sn_last_included_index :: log_index

record install_snapshot_request =
  is_term :: u64
  is_leader_id :: server_id
  is_metadata :: raft_snapshot_metadata
  is_payload :: bytes

record install_snapshot_response =
  isr_term :: u64
  isr_success :: bool
  isr_last_included_index :: log_index

datatype raft_role = Follower | Candidate | Leader

record raft_core =
  rc_server_id :: server_id
  rc_shard_id :: shard_id
  rc_state_store :: raft_state_store
  rc_persistent :: raft_persistent_state
  rc_log :: "log_entry list"
  rc_snapshot :: "raft_snapshot_metadata option"
  rc_commit_index :: log_index
  rc_role :: raft_role
  rc_leader_id :: "server_id option"
  rc_membership :: raft_membership
  rc_match_indexes :: "(server_id, log_index) fmap"
  rc_votes_received :: "server_id fset"
  rc_lease_deadline :: "instant option"
  rc_lease_duration :: duration
  rc_lease_clock_drift_bound :: duration
  rc_lease_message_delay_bound :: duration

text \<open>A handler of the server; \<open>andthen\<close> is the question mark.\<close>

type_synonym 'a handled = "(database_error + 'a) \<times> raft_core \<times> fs"

definition andthen :: "'a handled \<Rightarrow> ('a \<Rightarrow> raft_core \<Rightarrow> fs \<Rightarrow> 'b handled) \<Rightarrow> 'b handled" where
  "andthen r k = (case r of (Inl e, c, f) \<Rightarrow> (Inl e, c, f) | (Inr x, c, f) \<Rightarrow> k x c f)"

definition save_state :: "raft_core \<Rightarrow> fs \<Rightarrow> unit handled" where
  "save_state c f = (io_result (raft_state_save (rc_state_store c) (rc_persistent c)) f, c,
     io_final (raft_state_save (rc_state_store c) (rc_persistent c)) f)"

definition current_term :: "raft_core \<Rightarrow> u64" where
  "current_term c = rp_current_term (rc_persistent c)"

definition voted_for :: "raft_core \<Rightarrow> server_id option" where
  "voted_for c = rp_voted_for (rc_persistent c)"

section \<open>The log\<close>

definition snapshot_index :: "raft_core \<Rightarrow> log_index" where
  "snapshot_index c = (case rc_snapshot c of Some s \<Rightarrow> sn_last_included_index s | None \<Rightarrow> 0)"

definition snapshot_term :: "raft_core \<Rightarrow> u64" where
  "snapshot_term c = (case rc_snapshot c of Some s \<Rightarrow> sn_last_included_term s | None \<Rightarrow> 0)"

definition last_log_index :: "raft_core \<Rightarrow> log_index" where
  "last_log_index c = (if rc_log c = [] then snapshot_index c else entry_index (last (rc_log c)))"

definition last_log_term :: "raft_core \<Rightarrow> u64" where
  "last_log_term c = (if rc_log c = [] then snapshot_term c else entry_term (last (rc_log c)))"

definition entry_at :: "raft_core \<Rightarrow> log_index \<Rightarrow> log_entry option" where
  "entry_at c i = find (\<lambda>e. entry_index e = i) (rc_log c)"

definition core_truncate_from :: "log_index \<Rightarrow> raft_core \<Rightarrow> raft_core" where
  "core_truncate_from i c =
     c\<lparr>rc_log := filter (\<lambda>e. entry_index e < i) (rc_log c),
       rc_commit_index := max (min (rc_commit_index c) (saturating_sub i 1)) (snapshot_index c)\<rparr>"

definition compact_log_through_snapshot :: "raft_core \<Rightarrow> raft_core" where
  "compact_log_through_snapshot c = c\<lparr>rc_log := filter (\<lambda>e. snapshot_index c < entry_index e) (rc_log c)\<rparr>"

definition is_log_up_to_date :: "raft_core \<Rightarrow> log_index \<Rightarrow> u64 \<Rightarrow> bool" where
  "is_log_up_to_date c index trm \<longleftrightarrow> last_log_term c < trm \<or> (trm = last_log_term c \<and> last_log_index c \<le> index)"

section \<open>Opening\<close>

definition open_with_membership ::
  "server_id \<Rightarrow> shard_id \<Rightarrow> raft_state_store \<Rightarrow> raft_membership \<Rightarrow> fs \<Rightarrow> database_error + raft_core" where
  "open_with_membership server shard store m f =
     (if \<not> is_member m server
      then Inl (InvalidConfig (''local server '' @ show_u64 server @ '' is not a raft member''))
      else rbind (raft_state_load store f) (\<lambda>st. Inr
        \<lparr>rc_server_id = server, rc_shard_id = shard, rc_state_store = store, rc_persistent = st, rc_log = [],
         rc_snapshot = None, rc_commit_index = 0, rc_role = Follower, rc_leader_id = None, rc_membership = m,
         rc_match_indexes = fmempty, rc_votes_received = {||}, rc_lease_deadline = None,
         rc_lease_duration = 750000000, rc_lease_clock_drift_bound = 0, rc_lease_message_delay_bound = 0\<rparr>))"

definition raft_open :: "server_id \<Rightarrow> shard_id \<Rightarrow> raft_state_store \<Rightarrow> fs \<Rightarrow> database_error + raft_core" where
  "raft_open server shard store f =
     rbind (membership_new [server]) (\<lambda>m. open_with_membership server shard store m f)"

definition push_opened :: "log_entry \<Rightarrow> raft_core \<Rightarrow> database_error + raft_core" where
  "push_opened e c =
     (if entry_shard_id e \<noteq> rc_shard_id c
      then Inl (InvalidConfig (''raft log entry has shard '' @ show_u64 (entry_shard_id e) @ '', expected '' @
        show_u64 (rc_shard_id c)))
      else Inr (c\<lparr>rc_log := rc_log c @ [e]\<rparr>))"

definition open_with_log ::
  "server_id \<Rightarrow> shard_id \<Rightarrow> raft_state_store \<Rightarrow> raft_membership \<Rightarrow> log_entry list \<Rightarrow> log_index \<Rightarrow> fs \<Rightarrow>
    database_error + raft_core" where
  "open_with_log server shard store m log commit f =
     rbind (open_with_membership server shard store m f) (\<lambda>c0.
     rbind (for_each log push_opened c0) (\<lambda>c1.
     let c2 = c1\<lparr>rc_log := sort_key entry_index (rc_log c1)\<rparr>
     in Inr (c2\<lparr>rc_commit_index := min commit (last_log_index c2)\<rparr>)))"

definition open_with_log_and_snapshot ::
  "server_id \<Rightarrow> shard_id \<Rightarrow> raft_state_store \<Rightarrow> raft_membership \<Rightarrow> log_entry list \<Rightarrow>
    raft_snapshot_metadata option \<Rightarrow> log_index \<Rightarrow> fs \<Rightarrow> database_error + raft_core" where
  "open_with_log_and_snapshot server shard store m log snapshot commit f =
     rbind (open_with_log server shard store m log commit f) (\<lambda>c.
     case snapshot of
       None \<Rightarrow> Inr c
     | Some s \<Rightarrow>
         if sn_shard_id s \<noteq> shard
         then Inl (InvalidConfig (''raft snapshot has shard '' @ show_u64 (sn_shard_id s) @ '', expected '' @ show_u64 shard))
         else let c' = compact_log_through_snapshot (c\<lparr>rc_snapshot := Some s\<rparr>)
              in Inr (c'\<lparr>rc_commit_index := max (rc_commit_index c') (snapshot_index c')\<rparr>))"

section \<open>Elections\<close>

definition step_down :: "u64 \<Rightarrow> raft_core \<Rightarrow> fs \<Rightarrow> unit handled" where
  "step_down trm c f =
     (let c1 = c\<lparr>rc_role := Follower, rc_leader_id := None, rc_votes_received := {||}, rc_lease_deadline := None\<rparr>
      in if current_term c < trm
         then save_state (c1\<lparr>rc_persistent := \<lparr>rp_current_term = trm, rp_voted_for = None\<rparr>\<rparr>) f
         else (Inr (), c1, f))"

definition start_election :: "raft_core \<Rightarrow> fs \<Rightarrow> request_vote_request handled" where
  "start_election c f =
     andthen (save_state (c\<lparr>rc_role := Candidate, rc_leader_id := None,
         rc_persistent := \<lparr>rp_current_term = saturating_add (current_term c) 1, rp_voted_for = Some (rc_server_id c)\<rparr>,
         rc_votes_received := {|rc_server_id c|}\<rparr>) f)
       (\<lambda>_ c f. (Inr \<lparr>rv_term = current_term c, rv_candidate_id = rc_server_id c,
                      rv_last_log_index = last_log_index c, rv_last_log_term = last_log_term c\<rparr>, c, f))"

definition pre_vote_request_of :: "raft_core \<Rightarrow> pre_vote_request" where
  "pre_vote_request_of c = \<lparr>pv_next_term = saturating_add (current_term c) 1, pv_candidate_id = rc_server_id c,
     pv_last_log_index = last_log_index c, pv_last_log_term = last_log_term c\<rparr>"

definition matched_voters :: "raft_core \<Rightarrow> log_index \<Rightarrow> server_id fset" where
  "matched_voters c i =
     ffilter (\<lambda>s. case fmlookup (rc_match_indexes c) s of None \<Rightarrow> False | Some m \<Rightarrow> i \<le> m) (all_voters (rc_membership c))"

definition refresh_leader_lease_if_quorum :: "instant \<Rightarrow> raft_core \<Rightarrow> raft_core" where
  "refresh_leader_lease_if_quorum now c =
     (if rc_role c \<noteq> Leader then c\<lparr>rc_lease_deadline := None\<rparr>
      else if has_quorum (rc_membership c) (matched_voters c (rc_commit_index c))
      then c\<lparr>rc_lease_deadline := Some (now + rc_lease_duration c)\<rparr>
      else c)"

definition become_leader :: "instant \<Rightarrow> raft_core \<Rightarrow> raft_core" where
  "become_leader now c =
     refresh_leader_lease_if_quorum now (c\<lparr>rc_role := Leader, rc_leader_id := Some (rc_server_id c),
       rc_votes_received := {||}, rc_match_indexes := fmupd (rc_server_id c) (last_log_index c) fmempty\<rparr>)"

definition record_vote_response ::
  "instant \<Rightarrow> server_id \<Rightarrow> request_vote_response \<Rightarrow> raft_core \<Rightarrow> fs \<Rightarrow> bool handled" where
  "record_vote_response now voter resp c f =
     (if current_term c < rvr_term resp then andthen (step_down (rvr_term resp) c f) (\<lambda>_ c f. (Inr False, c, f))
      else if rc_role c \<noteq> Candidate \<or> rvr_term resp \<noteq> current_term c then (Inr False, c, f)
      else let c1 = (if rvr_vote_granted resp then c\<lparr>rc_votes_received := finsert voter (rc_votes_received c)\<rparr> else c)
           in if has_quorum (rc_membership c1) (rc_votes_received c1)
              then (Inr True, become_leader now c1, f) else (Inr False, c1, f))"

definition pre_vote :: "pre_vote_request \<Rightarrow> raft_core \<Rightarrow> pre_vote_response" where
  "pre_vote req c =
     \<lparr>pvr_term = current_term c,
      pvr_vote_granted = (current_term c \<le> pv_next_term req \<and> contains_voter (rc_membership c) (pv_candidate_id req) \<and>
        is_log_up_to_date c (pv_last_log_index req) (pv_last_log_term req))\<rparr>"

definition grant_vote :: "request_vote_request \<Rightarrow> raft_core \<Rightarrow> fs \<Rightarrow> request_vote_response handled" where
  "grant_vote req c f =
     (let can_vote = (voted_for c = None \<or> voted_for c = Some (rv_candidate_id req));
          granted = (can_vote \<and> is_log_up_to_date c (rv_last_log_index req) (rv_last_log_term req))
      in if granted
         then andthen (save_state (c\<lparr>rc_persistent := (rc_persistent c)\<lparr>rp_voted_for := Some (rv_candidate_id req)\<rparr>\<rparr>) f)
                (\<lambda>_ c f. (Inr \<lparr>rvr_term = current_term c, rvr_vote_granted = True\<rparr>, c, f))
         else (Inr \<lparr>rvr_term = current_term c, rvr_vote_granted = False\<rparr>, c, f))"

definition request_vote :: "request_vote_request \<Rightarrow> raft_core \<Rightarrow> fs \<Rightarrow> request_vote_response handled" where
  "request_vote req c f =
     (if rv_term req < current_term c then (Inr \<lparr>rvr_term = current_term c, rvr_vote_granted = False\<rparr>, c, f)
      else andthen (if current_term c < rv_term req then step_down (rv_term req) c f else (Inr (), c, f))
             (\<lambda>_ c f. grant_vote req c f))"

definition leader_transfer_request :: "server_id \<Rightarrow> raft_core \<Rightarrow> database_error + request_vote_request" where
  "leader_transfer_request target c =
     (if rc_role c \<noteq> Leader then Inl (Replication ''leader transfer requires raft leader'')
      else if \<not> contains_voter (rc_membership c) target
      then Inl (Replication (''leader transfer target '' @ show_u64 target @ '' is not a voter''))
      else if (case fmlookup (rc_match_indexes c) target of Some m \<Rightarrow> m | None \<Rightarrow> 0) < rc_commit_index c
      then Inl (Replication (''leader transfer target '' @ show_u64 target @ '' is behind commit index '' @
        show_u64 (rc_commit_index c)))
      else Inr \<lparr>rv_term = saturating_add (current_term c) 1, rv_candidate_id = target,
                rv_last_log_index = last_log_index c, rv_last_log_term = last_log_term c\<rparr>)"

section \<open>Replication\<close>

definition append_reply :: "bool \<Rightarrow> log_index option \<Rightarrow> u64 option \<Rightarrow> raft_core \<Rightarrow> append_entries_response" where
  "append_reply ok conflict_index conflict_term c =
     \<lparr>aer_term = current_term c, aer_success = ok, aer_durable = False, aer_match_index = last_log_index c,
      aer_conflict_index = conflict_index, aer_conflict_term = conflict_term\<rparr>"

text \<open>The loop over the entries of a request: it ends early with an error or with a reply.\<close>

fun append_loop :: "log_entry list \<Rightarrow> raft_core \<Rightarrow> (database_error + append_entries_response option) \<times> raft_core" where
  "append_loop [] c = (Inr None, c)"
| "append_loop (e # es) c =
     (if entry_shard_id e \<noteq> rc_shard_id c
      then (Inl (InvalidConfig (''raft append entry has shard '' @ show_u64 (entry_shard_id e) @ '', expected '' @
             show_u64 (rc_shard_id c))), c)
      else if entry_index e \<le> snapshot_index c then append_loop es c
      else case entry_at c (entry_index e) of
             None \<Rightarrow> append_loop es (c\<lparr>rc_log := rc_log c @ [e]\<rparr>)
           | Some x \<Rightarrow>
               if entry_term x = entry_term e then append_loop es c
               else if entry_index e \<le> rc_commit_index c
               then (Inr (Some (append_reply False (Some (entry_index e)) (Some (entry_term x)) c)), c)
               else let c' = core_truncate_from (entry_index e) c
                    in append_loop es (c'\<lparr>rc_log := rc_log c' @ [e]\<rparr>))"

definition append_finish :: "log_index \<Rightarrow> raft_core \<Rightarrow> append_entries_response \<times> raft_core" where
  "append_finish leader_commit c =
     (let c1 = c\<lparr>rc_log := sort_key entry_index (rc_log c)\<rparr>;
          c2 = (if rc_commit_index c1 < leader_commit
                then c1\<lparr>rc_commit_index := min leader_commit (last_log_index c1)\<rparr> else c1)
      in (append_reply True None None c2, c2))"

definition append_matching :: "append_entries_request \<Rightarrow> raft_core \<Rightarrow> fs \<Rightarrow> append_entries_response handled" where
  "append_matching req c f =
     (case append_loop (ae_entries req) c of
        (Inl e, c') \<Rightarrow> (Inl e, c', f)
      | (Inr (Some r), c') \<Rightarrow> (Inr r, c', f)
      | (Inr None, c') \<Rightarrow> (case append_finish (ae_leader_commit req) c' of (r, c'') \<Rightarrow> (Inr r, c'', f)))"

definition append_checked :: "append_entries_request \<Rightarrow> raft_core \<Rightarrow> fs \<Rightarrow> append_entries_response handled" where
  "append_checked req c f =
     (if ae_prev_log_index req = 0 then append_matching req c f
      else case entry_at c (ae_prev_log_index req) of
        None \<Rightarrow>
          if ae_prev_log_index req = snapshot_index c \<and> ae_prev_log_term req = snapshot_term c
          then append_matching req c f
          else (Inr (append_reply False (Some (saturating_add (last_log_index c) 1)) None c), c, f)
      | Some previous \<Rightarrow>
          if entry_term previous = ae_prev_log_term req then append_matching req c f
          else if ae_prev_log_index req \<le> rc_commit_index c
          then (Inr (append_reply False (Some (ae_prev_log_index req)) (Some (entry_term previous)) c), c, f)
          else let conflict = (case find (\<lambda>e. entry_term e = entry_term previous) (rc_log c) of
                                 Some e \<Rightarrow> entry_index e | None \<Rightarrow> ae_prev_log_index req);
                   c' = core_truncate_from (ae_prev_log_index req) c
               in (Inr (append_reply False (Some conflict) (Some (entry_term previous)) c'), c', f))"

definition append_entries :: "append_entries_request \<Rightarrow> raft_core \<Rightarrow> fs \<Rightarrow> append_entries_response handled" where
  "append_entries req c f =
     (if ae_term req < current_term c
      then (Inr (append_reply False (Some (saturating_add (last_log_index c) 1)) (Some (current_term c)) c), c, f)
      else andthen (if current_term c < ae_term req \<or> rc_role c \<noteq> Follower then step_down (ae_term req) c f
                    else (Inr (), c, f))
             (\<lambda>_ c f. append_checked req (c\<lparr>rc_leader_id := Some (ae_leader_id req)\<rparr>) f))"

definition wrong_snapshot_shard :: "shard_id \<Rightarrow> shard_id \<Rightarrow> database_error" where
  "wrong_snapshot_shard actual expected =
     InvalidConfig (''raft snapshot has shard '' @ show_u64 actual @ '', expected '' @ show_u64 expected)"

definition install_snapshot ::
  "install_snapshot_request \<Rightarrow> raft_core \<Rightarrow> fs \<Rightarrow> install_snapshot_response handled" where
  "install_snapshot req c f =
     (if is_term req < current_term c
      then (Inr \<lparr>isr_term = current_term c, isr_success = False, isr_last_included_index = snapshot_index c\<rparr>, c, f)
      else if sn_shard_id (is_metadata req) \<noteq> rc_shard_id c
      then (Inl (wrong_snapshot_shard (sn_shard_id (is_metadata req)) (rc_shard_id c)), c, f)
      else andthen (if current_term c < is_term req \<or> rc_role c \<noteq> Follower then step_down (is_term req) c f
                    else (Inr (), c, f))
             (\<lambda>_ c f.
                let c1 = c\<lparr>rc_leader_id := Some (is_leader_id req)\<rparr>;
                    c2 = (if snapshot_index c1 \<le> sn_last_included_index (is_metadata req)
                          then let d = compact_log_through_snapshot (c1\<lparr>rc_snapshot := Some (is_metadata req)\<rparr>)
                               in d\<lparr>rc_commit_index := max (rc_commit_index d) (snapshot_index d)\<rparr>
                          else c1)
                in (Inr \<lparr>isr_term = current_term c2, isr_success = True, isr_last_included_index = snapshot_index c2\<rparr>, c2, f)))"

definition compact_log_to_snapshot :: "raft_snapshot_metadata \<Rightarrow> raft_core \<Rightarrow> database_error + raft_core" where
  "compact_log_to_snapshot s c =
     (if sn_shard_id s \<noteq> rc_shard_id c then Inl (wrong_snapshot_shard (sn_shard_id s) (rc_shard_id c))
      else if rc_commit_index c < sn_last_included_index s
      then Inl (Replication (''cannot compact raft shard '' @ show_u64 (rc_shard_id c) @
        '' to uncommitted snapshot index '' @ show_u64 (sn_last_included_index s) @
        '' while commit index is '' @ show_u64 (rc_commit_index c)))
      else Inr (compact_log_through_snapshot (c\<lparr>rc_snapshot := Some s\<rparr>)))"

section \<open>The leader\<close>

definition match_of :: "raft_core \<Rightarrow> server_id \<Rightarrow> log_index" where
  "match_of c s = (case fmlookup (rc_match_indexes c) s of Some m \<Rightarrow> m | None \<Rightarrow> 0)"

definition quorum_index :: "raft_core \<Rightarrow> log_index" where
  "quorum_index c =
     (let voters = sorted_list_of_fset (all_voters (rc_membership c));
          matched = rev (sort (map (match_of c) voters))
      in case find (\<lambda>candidate. has_quorum (rc_membership c)
                (fset_of_list (filter (\<lambda>s. candidate \<le> match_of c s) voters))) matched of
           Some i \<Rightarrow> i | None \<Rightarrow> 0)"

definition advance_leader_commit_index :: "raft_core \<Rightarrow> raft_core" where
  "advance_leader_commit_index c =
     (if rc_role c \<noteq> Leader then c
      else let q = quorum_index c
           in if q \<le> rc_commit_index c then c
              else case entry_at c q of
                     None \<Rightarrow> c
                   | Some e \<Rightarrow> if entry_term e = current_term c then c\<lparr>rc_commit_index := q\<rparr> else c)"

definition push_local :: "log_entry \<Rightarrow> raft_core \<Rightarrow> raft_core" where
  "push_local e c = advance_leader_commit_index (c\<lparr>rc_log := rc_log c @ [e],
     rc_match_indexes := fmupd (rc_server_id c) (entry_index e) (rc_match_indexes c)\<rparr>)"

definition append_local_entry :: "command \<Rightarrow> raft_core \<Rightarrow> database_error + log_entry \<times> raft_core" where
  "append_local_entry cmd c =
     (if rc_role c \<noteq> Leader then Inl (Replication ''cannot append local raft entry when not leader'')
      else let e = new_log_entry (rc_shard_id c) (current_term c) (saturating_add (last_log_index c) 1) cmd
           in Inr (e, push_local e c))"

definition append_existing_local_entry :: "log_entry \<Rightarrow> raft_core \<Rightarrow> database_error + log_entry \<times> raft_core" where
  "append_existing_local_entry e c =
     (if rc_role c \<noteq> Leader then Inl (Replication ''cannot append local raft entry when not leader'')
      else if entry_shard_id e \<noteq> rc_shard_id c
      then Inl (InvalidConfig (''raft local entry has shard '' @ show_u64 (entry_shard_id e) @ '', expected '' @
        show_u64 (rc_shard_id c)))
      else let expected = saturating_add (last_log_index c) 1
           in if entry_index e \<noteq> expected then Inl (UnexpectedLogIndex (entry_shard_id e) expected (entry_index e))
              else if entry_term e \<noteq> current_term c
              then Inl (LogConflict (entry_shard_id e) (entry_index e) (''local raft entry term '' @
                show_u64 (entry_term e) @ '' does not match current term '' @ show_u64 (current_term c)))
              else Inr (e, push_local e c))"

definition record_replication_match ::
  "instant \<Rightarrow> server_id \<Rightarrow> log_index \<Rightarrow> raft_core \<Rightarrow> database_error + log_index \<times> raft_core" where
  "record_replication_match now s i c =
     (if rc_role c \<noteq> Leader then Inl (Replication ''cannot record raft replication match when not leader'')
      else if \<not> is_member (rc_membership c) s
      then Inl (InvalidConfig (''server '' @ show_u64 s @ '' is not a raft member''))
      else let c1 = advance_leader_commit_index (c\<lparr>rc_match_indexes := fmupd s i (rc_match_indexes c)\<rparr>);
               c2 = refresh_leader_lease_if_quorum now c1
           in Inr (rc_commit_index c2, c2))"

definition read_index :: "raft_core \<Rightarrow> database_error + log_index" where
  "read_index c =
     (if rc_role c \<noteq> Leader then Inl (Replication ''read-index requires raft leader'')
      else if \<not> has_quorum (rc_membership c) (matched_voters c (rc_commit_index c))
      then Inl (Replication ''read-index requires a quorum-confirmed leader commit index'')
      else Inr (rc_commit_index c))"

text \<open>\<open>{:?}\<close> of a duration: seconds, milli-, micro- or nanoseconds with the fraction without trailing zeros.\<close>

definition duration_max :: duration where
  "duration_max = (2 ^ 64 - 1) * 1000000000 + 999999999"

definition show_fraction :: "nat \<Rightarrow> nat \<Rightarrow> nat \<Rightarrow> string \<Rightarrow> string" where
  "show_fraction whole part width unit_name =
     show_nat whole @
     (if part = 0 then [] else CHR ''.'' # rev (dropWhile (\<lambda>c. c = CHR ''0'') (rev (pad_zeros width (show_nat part))))) @ unit_name"

definition show_duration :: "duration \<Rightarrow> string" where
  "show_duration d =
     (if 1000000000 \<le> d then show_fraction (d div 1000000000) (d mod 1000000000) 9 ''s''
      else if 1000000 \<le> d then show_fraction (d div 1000000) (d mod 1000000) 6 ''ms''
      else if 1000 \<le> d then show_fraction (d div 1000) (d mod 1000) 3 [CHR 0xC2, CHR 0xB5, CHR ''s'']
      else show_fraction d 0 1 ''ns'')"

definition leader_lease_read_index :: "instant \<Rightarrow> raft_core \<Rightarrow> database_error + log_index" where
  "leader_lease_read_index now c =
     (if rc_role c \<noteq> Leader then Inl (Replication ''leader lease requires raft leader'')
      else let required = min (rc_lease_clock_drift_bound c + rc_lease_message_delay_bound c) duration_max
           in if required \<noteq> 0 \<and> rc_lease_duration c \<le> required
              then Inl (Replication (''leader lease duration '' @ show_duration (rc_lease_duration c) @
                '' must exceed configured clock/message bound '' @ show_duration required))
              else if (case rc_lease_deadline c of None \<Rightarrow> False | Some d \<Rightarrow> now \<le> d) then Inr (rc_commit_index c)
              else read_index c)"

definition leader_lease_remaining_millis :: "instant \<Rightarrow> raft_core \<Rightarrow> u64" where
  "leader_lease_remaining_millis now c =
     (case rc_lease_deadline c of
        None \<Rightarrow> 0
      | Some d \<Rightarrow> if now \<le> d then word_of_nat ((d - now) div 1000000) else 0)"

definition with_lease_duration :: "duration \<Rightarrow> raft_core \<Rightarrow> raft_core" where
  "with_lease_duration d c = c\<lparr>rc_lease_duration := d\<rparr>"

definition with_lease_clock_bounds :: "duration \<Rightarrow> duration \<Rightarrow> raft_core \<Rightarrow> raft_core" where
  "with_lease_clock_bounds drift delay c =
     c\<lparr>rc_lease_clock_drift_bound := drift, rc_lease_message_delay_bound := delay\<rparr>"

definition begin_joint_consensus :: "server_id list \<Rightarrow> raft_core \<Rightarrow> database_error + raft_core" where
  "begin_joint_consensus voters c =
     (if is_joint (rc_membership c) then Inl (InvalidConfig ''raft membership is already in joint consensus'')
      else rbind (enter_joint (fset_of_list voters) (rc_membership c)) (\<lambda>m. Inr (c\<lparr>rc_membership := m\<rparr>)))"

definition finalize_joint_consensus :: "raft_core \<Rightarrow> raft_core" where
  "finalize_joint_consensus c = c\<lparr>rc_membership := finalize_joint (rc_membership c)\<rparr>"

fun apply_committed_membership_change :: "raft_membership_change \<Rightarrow> raft_core \<Rightarrow> database_error + raft_core" where
  "apply_committed_membership_change (AddLearner s) c =
     rbind (add_learner s (rc_membership c)) (\<lambda>m. Inr (c\<lparr>rc_membership := m\<rparr>))"
| "apply_committed_membership_change (PromoteLearner s) c =
     rbind (promote_learner s (rc_membership c)) (\<lambda>m. Inr (c\<lparr>rc_membership := m\<rparr>))"
| "apply_committed_membership_change (AddVoter s) c = Inr (c\<lparr>rc_membership := add_voter s (rc_membership c)\<rparr>)"
| "apply_committed_membership_change (RemoveVoter s) c =
     rbind (remove_voter s (rc_membership c)) (\<lambda>m.
       let c1 = c\<lparr>rc_membership := m, rc_match_indexes := fmdrop s (rc_match_indexes c)\<rparr>
       in Inr (if s = rc_server_id c then c1\<lparr>rc_role := Follower, rc_leader_id := None\<rparr> else c1))"

end
