(* ===== verification/Raft_Votes.thy ===== *)
theory Raft_Votes
  imports Raft_Core
begin

text \<open>
  Terms and votes of one server over any sequence of its handlers and restarts: the term never goes back, a vote
  is never exchanged for another one in the same term, and the disk always holds the term and the vote that the
  server acts on.
\<close>

section \<open>What a handler keeps\<close>

definition same_server :: "raft_core \<Rightarrow> raft_core \<Rightarrow> bool" where
  "same_server c c' \<longleftrightarrow> rc_server_id c' = rc_server_id c \<and> rc_shard_id c' = rc_shard_id c \<and>
     rc_state_store c' = rc_state_store c"

definition votes_kept :: "raft_core \<Rightarrow> raft_core \<Rightarrow> bool" where
  "votes_kept c c' \<longleftrightarrow> current_term c \<le> current_term c' \<and>
     (current_term c' = current_term c \<longrightarrow> voted_for c \<noteq> None \<longrightarrow> voted_for c' = voted_for c)"

definition on_disk :: "raft_core \<Rightarrow> fs \<Rightarrow> bool" where
  "on_disk c f \<longleftrightarrow> raft_state_ready (rc_state_store c) f \<and> raft_state_load (rc_state_store c) f = Inr (rc_persistent c)"

lemma votes_kept_refl: "rc_persistent c' = rc_persistent c \<Longrightarrow> votes_kept c c'"
  by (simp add: votes_kept_def current_term_def voted_for_def)

lemma votes_kept_trans: "votes_kept a b \<Longrightarrow> votes_kept b c \<Longrightarrow> votes_kept a c"
  by (auto simp: votes_kept_def)

lemma same_server_trans: "same_server a b \<Longrightarrow> same_server b c \<Longrightarrow> same_server a c"
  by (simp add: same_server_def)

lemma on_disk_cong:
  "rc_persistent c' = rc_persistent c \<Longrightarrow> rc_state_store c' = rc_state_store c \<Longrightarrow> on_disk c' f = on_disk c f"
  by (simp add: on_disk_def)

text \<open>
  The contract of a handler: it is the same server with the same membership, the disk still holds its term and
  vote, and the vote is kept.
\<close>

definition kept :: "raft_core \<Rightarrow> fs \<Rightarrow> 'a handled \<Rightarrow> bool" where
  "kept c f r \<longleftrightarrow> (case r of (_, c', f') \<Rightarrow> same_server c c' \<and> rc_membership c' = rc_membership c \<and>
     (on_disk c f \<longrightarrow> on_disk c' f') \<and> votes_kept c c')"

locale vote_handler =
  fixes h :: "raft_core \<Rightarrow> fs \<Rightarrow> 'a handled"
  assumes keeps: "kept c f (h c f)"
begin

text \<open>A message that is delivered again, any number of times.\<close>

lemma redelivered:
  "((\<lambda>(c, f). snd (h c f)) ^^ n) (c, f) = (c', f') \<Longrightarrow> same_server c c' \<and> rc_membership c' = rc_membership c \<and>
     (on_disk c f \<longrightarrow> on_disk c' f') \<and> votes_kept c c'"
proof (induction n arbitrary: c' f')
  case 0
  then show ?case by (auto simp: same_server_def votes_kept_refl)
next
  case (Suc n)
  obtain d g where d: "((\<lambda>(c, f). snd (h c f)) ^^ n) (c, f) = (d, g)" by fastforce
  then have "snd (h d g) = (c', f')" using Suc.prems by simp
  then have "same_server d c' \<and> rc_membership c' = rc_membership d \<and> (on_disk d g \<longrightarrow> on_disk c' f') \<and> votes_kept d c'"
    using keeps [of d g] by (auto simp: kept_def split: prod.splits)
  then show ?case using Suc.IH [OF d] same_server_trans [of c d c'] votes_kept_trans [of c d c'] by simp
qed

end

section \<open>Composing handlers\<close>

lemma save_state_ok:
  assumes "raft_state_ready (rc_state_store c) f"
  shows "\<exists>f'. save_state c f = (Inr (), c, f') \<and> on_disk c f'"
proof -
  have "io_run (raft_state_save (rc_state_store c) (rc_persistent c)) f () (raft_saved (rc_state_store c) (rc_persistent c) f)"
    by (rule raft_state_save_run [OF assms])
  then show ?thesis
    using raft_saved_load [OF assms] raft_saved_ready [OF assms]
    by (simp add: save_state_def io_run_def on_disk_def)
qed

lemma save_state_core [simp]: "fst (snd (save_state c f)) = c"
  by (simp add: save_state_def)

lemma andthen_cases:
  obtains e c' f' where "r = (Inl e, c', f')" "andthen r k = (Inl e, c', f')"
  | x c' f' where "r = (Inr x, c', f')" "andthen r k = k x c' f'"
  by (cases r; cases "fst r") (auto simp: andthen_def)

lemma term_vote_simps [simp]:
  "current_term (c\<lparr>rc_persistent := p\<rparr>) = rp_current_term p" "voted_for (c\<lparr>rc_persistent := p\<rparr>) = rp_voted_for p"
  "current_term (c\<lparr>rc_role := r\<rparr>) = current_term c" "voted_for (c\<lparr>rc_role := r\<rparr>) = voted_for c"
  "current_term (c\<lparr>rc_leader_id := l\<rparr>) = current_term c" "voted_for (c\<lparr>rc_leader_id := l\<rparr>) = voted_for c"
  "current_term (c\<lparr>rc_votes_received := v\<rparr>) = current_term c" "voted_for (c\<lparr>rc_votes_received := v\<rparr>) = voted_for c"
  "current_term (c\<lparr>rc_lease_deadline := d\<rparr>) = current_term c" "voted_for (c\<lparr>rc_lease_deadline := d\<rparr>) = voted_for c"
  "current_term (c\<lparr>rc_log := es\<rparr>) = current_term c" "voted_for (c\<lparr>rc_log := es\<rparr>) = voted_for c"
  "current_term (c\<lparr>rc_commit_index := i\<rparr>) = current_term c" "voted_for (c\<lparr>rc_commit_index := i\<rparr>) = voted_for c"
  "current_term (c\<lparr>rc_snapshot := s\<rparr>) = current_term c" "voted_for (c\<lparr>rc_snapshot := s\<rparr>) = voted_for c"
  by (simp_all add: current_term_def voted_for_def)

text \<open>Two handlers one after the other; a handler that leaves all this alone; saving a new term or a first vote.\<close>

lemma kept_andthen:
  assumes "kept c f r" and "\<And>x c' f'. kept c' f' (k x c' f')"
  shows "kept c f (andthen r k)"
proof (cases rule: andthen_cases [of r k])
  case (2 x c' f')
  have "same_server c c' \<and> rc_membership c' = rc_membership c \<and> (on_disk c f \<longrightarrow> on_disk c' f') \<and> votes_kept c c'"
    using assms(1) 2(1) by (simp add: kept_def)
  then show ?thesis
    using assms(2) [of c' f' x] same_server_trans [of c c'] votes_kept_trans [of c c']
    unfolding 2(2) kept_def by (auto split: prod.splits)
qed (use assms(1) in \<open>simp add: kept_def\<close>)

definition quiet :: "raft_core \<Rightarrow> raft_core \<Rightarrow> bool" where
  "quiet c c' \<longleftrightarrow> same_server c c' \<and> rc_membership c' = rc_membership c \<and> rc_persistent c' = rc_persistent c"

lemma quiet_trans: "quiet a b \<Longrightarrow> quiet b c \<Longrightarrow> quiet a c"
  by (simp add: quiet_def same_server_def)

lemma quiet_refl [simp]: "quiet c c"
  by (simp add: quiet_def same_server_def)

lemma kept_quiet: "quiet c c' \<Longrightarrow> kept c f (r, c', f)"
  by (auto simp: kept_def quiet_def same_server_def votes_kept_refl on_disk_def)

lemma kept_save:
  assumes "same_server c c'" and "rc_membership c' = rc_membership c" and "votes_kept c c'"
  shows "kept c f (save_state c' f)"
proof -
  have "on_disk c f \<Longrightarrow> on_disk c' (snd (snd (save_state c' f)))"
    using save_state_ok [of c' f] assms(1) by (auto simp: on_disk_def same_server_def)
  then show ?thesis using assms by (simp add: kept_def split: prod.split) (metis fst_conv save_state_core snd_conv)
qed

lemma kept_step_down: "kept c f (step_down trm c f)"
  by (auto simp: step_down_def Let_def same_server_def votes_kept_def quiet_def intro!: kept_save kept_quiet)

section \<open>The handlers keep the contract\<close>

lemma quiet_refresh: "quiet c (refresh_leader_lease_if_quorum now c)"
  by (simp add: refresh_leader_lease_if_quorum_def quiet_def same_server_def)

lemma quiet_become_leader: "quiet c (become_leader now c)"
  unfolding become_leader_def by (rule quiet_trans [OF _ quiet_refresh]) (simp add: quiet_def same_server_def)

lemma quiet_advance: "quiet c (advance_leader_commit_index c)"
  by (simp add: advance_leader_commit_index_def quiet_def same_server_def Let_def split: option.split)

lemma quiet_push_local: "quiet c (push_local e c)"
  unfolding push_local_def by (rule quiet_trans [OF _ quiet_advance]) (simp add: quiet_def same_server_def)

lemma quiet_truncate: "quiet c (core_truncate_from i c)"
  by (simp add: core_truncate_from_def quiet_def same_server_def)

lemma quiet_append_loop: "append_loop es c = (r, c') \<Longrightarrow> quiet c c'"
proof (induction es arbitrary: c)
  case (Cons e es)
  let ?push = "\<lambda>d. d\<lparr>rc_log := rc_log d @ [e]\<rparr>"
  have push: "quiet d (?push d)" for d by (simp add: quiet_def same_server_def)
  consider "c' = c" | "append_loop es c = (r, c')" | "append_loop es (?push c) = (r, c')"
    | "append_loop es (?push (core_truncate_from (entry_index e) c)) = (r, c')"
    using Cons.prems by (auto simp: Let_def split: if_splits option.splits)
  then show ?case
    using Cons.IH push quiet_truncate quiet_trans by cases (simp, blast+)
qed simp

lemma quiet_append_finish: "append_finish i c = (r, c') \<Longrightarrow> quiet c c'"
  by (auto simp: append_finish_def Let_def quiet_def same_server_def split: if_splits)

lemma kept_append_matching: "kept c f (append_matching req c f)"
  unfolding append_matching_def
  by (auto split: prod.splits sum.splits option.splits dest!: quiet_append_loop quiet_append_finish
      intro!: kept_quiet intro: quiet_trans)

lemma kept_append_checked: "kept c f (append_checked req c f)"
  unfolding append_checked_def Let_def
  by (auto split: option.splits intro!: kept_quiet quiet_truncate kept_append_matching)

lemma kept_grant_vote: "kept c f (grant_vote req c f)"
proof -
  have "kept c f (save_state (c\<lparr>rc_persistent := (rc_persistent c)\<lparr>rp_voted_for := Some (rv_candidate_id req)\<rparr>\<rparr>) f)"
    if "voted_for c = None \<or> voted_for c = Some (rv_candidate_id req)"
    using that by (intro kept_save) (auto simp: same_server_def votes_kept_def current_term_def voted_for_def)
  then show ?thesis
    unfolding grant_vote_def Let_def by (auto intro!: kept_andthen kept_quiet)
qed

lemma kept_leader: "kept (c\<lparr>rc_leader_id := l\<rparr>) f r \<Longrightarrow> kept c f r"
  by (auto simp: kept_def same_server_def votes_kept_def on_disk_def current_term_def voted_for_def)

interpretation on_append: vote_handler "append_entries req" for req
proof
  show "kept c f (append_entries req c f)" for c f
    unfolding append_entries_def
    by (auto intro!: kept_andthen kept_step_down kept_quiet kept_leader [OF kept_append_checked])
qed

interpretation on_vote_request: vote_handler "request_vote req" for req
proof
  show "kept c f (request_vote req c f)" for c f
    unfolding request_vote_def
    by (auto intro!: kept_andthen kept_step_down kept_quiet kept_grant_vote)
qed

interpretation on_vote_response: vote_handler "record_vote_response now voter resp" for now voter resp
proof
  show "kept c f (record_vote_response now voter resp c f)" for c f
    unfolding record_vote_response_def Let_def
    by (auto intro!: kept_andthen kept_step_down kept_quiet quiet_trans [OF _ quiet_become_leader])
       (simp_all add: quiet_def same_server_def)
qed

interpretation on_snapshot: vote_handler "install_snapshot req" for req
proof
  show "kept c f (install_snapshot req c f)" for c f
    unfolding install_snapshot_def Let_def
    by (auto intro!: kept_andthen kept_step_down kept_quiet)
       (simp_all add: quiet_def same_server_def compact_log_through_snapshot_def)
qed

lemma kept_start_election:
  assumes "current_term c \<noteq> - 1"
  shows "kept c f (start_election c f)"
  unfolding start_election_def
proof (rule kept_andthen [OF kept_save])
  show "votes_kept c (c\<lparr>rc_role := Candidate, rc_leader_id := None,
      rc_persistent := \<lparr>rp_current_term = saturating_add (current_term c) 1, rp_voted_for = Some (rc_server_id c)\<rparr>,
      rc_votes_received := {|rc_server_id c|}\<rparr>)"
    using saturating_add_one_gt [OF assms] by (auto simp: votes_kept_def current_term_def)
qed (simp_all add: same_server_def kept_quiet)

section \<open>Any sequence of handlers\<close>

text \<open>
  The steps of a server: every message, every call of its owner, and a restart of the process, which opens the
  server again from its disk with whatever log and snapshot it finds. An election is not started in the last term.
\<close>

inductive core_step :: "raft_core \<times> fs \<Rightarrow> raft_core \<times> fs \<Rightarrow> bool" where
  elect: "current_term c \<noteq> - 1 \<Longrightarrow> start_election c f = (r, c', f') \<Longrightarrow> core_step (c, f) (c', f')"
| vote_request: "request_vote req c f = (r, c', f') \<Longrightarrow> core_step (c, f) (c', f')"
| vote_response: "record_vote_response now voter resp c f = (r, c', f') \<Longrightarrow> core_step (c, f) (c', f')"
| entries: "append_entries areq c f = (r, c', f') \<Longrightarrow> core_step (c, f) (c', f')"
| install: "install_snapshot ireq c f = (r, c', f') \<Longrightarrow> core_step (c, f) (c', f')"
| compact: "compact_log_to_snapshot s c = Inr c' \<Longrightarrow> core_step (c, f) (c', f)"
| local: "append_local_entry cmd c = Inr (e, c') \<Longrightarrow> core_step (c, f) (c', f)"
| existing: "append_existing_local_entry e c = Inr (e', c') \<Longrightarrow> core_step (c, f) (c', f)"
| matched: "record_replication_match now s i c = Inr (j, c') \<Longrightarrow> core_step (c, f) (c', f)"
| joint: "begin_joint_consensus vs c = Inr c' \<Longrightarrow> core_step (c, f) (c', f)"
| joint_end: "core_step (c, f) (finalize_joint_consensus c, f)"
| change: "apply_committed_membership_change ch c = Inr c' \<Longrightarrow> core_step (c, f) (c', f)"
| restart: "open_with_log_and_snapshot (rc_server_id c) (rc_shard_id c) (rc_state_store c) m log snap commit f = Inr c' \<Longrightarrow>
    core_step (c, f) (c', f)"

definition keeps_vote :: "raft_core \<times> fs \<Rightarrow> raft_core \<times> fs \<Rightarrow> bool" where
  "keeps_vote a b \<longleftrightarrow> same_server (fst a) (fst b) \<and> on_disk (fst b) (snd b) \<and> votes_kept (fst a) (fst b)"

lemma kept_keeps: "kept c f (r, c', f') \<Longrightarrow> on_disk c f \<Longrightarrow> keeps_vote (c, f) (c', f')"
  by (simp add: kept_def keeps_vote_def)

lemma unchanged_keeps:
  "same_server c c' \<Longrightarrow> rc_persistent c' = rc_persistent c \<Longrightarrow> on_disk c f \<Longrightarrow> keeps_vote (c, f) (c', f)"
  by (simp add: keeps_vote_def votes_kept_refl on_disk_def same_server_def)

lemma change_same: "apply_committed_membership_change ch c = Inr c' \<Longrightarrow> same_server c c' \<and> rc_persistent c' = rc_persistent c"
  by (cases ch) (auto simp: rbind_Inr_iff same_server_def Let_def)

lemma push_opened_same:
  "for_each log push_opened c = Inr c' \<Longrightarrow> same_server c c' \<and> rc_persistent c' = rc_persistent c"
  by (induction log arbitrary: c) (auto simp: rbind_Inr_iff push_opened_def same_server_def split: if_splits)

definition opened_as :: "server_id \<Rightarrow> shard_id \<Rightarrow> raft_state_store \<Rightarrow> fs \<Rightarrow> raft_core \<Rightarrow> bool" where
  "opened_as server shard store f c \<longleftrightarrow> rc_server_id c = server \<and> rc_shard_id c = shard \<and> rc_state_store c = store \<and>
     raft_state_load store f = Inr (rc_persistent c)"

lemma open_with_membership_as: "open_with_membership server shard store m f = Inr c \<Longrightarrow> opened_as server shard store f c"
  by (auto simp: open_with_membership_def rbind_Inr_iff opened_as_def split: if_splits)

lemma opened_as_cong:
  "opened_as server shard store f c \<Longrightarrow> same_server c c' \<Longrightarrow> rc_persistent c' = rc_persistent c \<Longrightarrow>
     opened_as server shard store f c'"
  by (simp add: opened_as_def same_server_def)

lemma open_with_log_as:
  assumes "open_with_log server shard store m log commit f = Inr c"
  shows "opened_as server shard store f c"
proof -
  obtain c0 c1 where c0: "open_with_membership server shard store m f = Inr c0" and c1: "for_each log push_opened c0 = Inr c1"
    and c: "c = c1\<lparr>rc_log := sort_key entry_index (rc_log c1), rc_commit_index :=
      min commit (last_log_index (c1\<lparr>rc_log := sort_key entry_index (rc_log c1)\<rparr>))\<rparr>"
    using assms unfolding open_with_log_def rbind_Inr_iff Let_def by auto
  have "opened_as server shard store f c1"
    using opened_as_cong [OF open_with_membership_as [OF c0]] push_opened_same [OF c1] by blast
  then show ?thesis unfolding c by (rule opened_as_cong) (simp_all add: same_server_def)
qed

lemma open_same:
  assumes "open_with_log_and_snapshot server shard store m log snap commit f = Inr c"
  shows "opened_as server shard store f c"
proof -
  obtain c1 where c1: "open_with_log server shard store m log commit f = Inr c1"
    and "same_server c1 c" and "rc_persistent c = rc_persistent c1"
    using assms unfolding open_with_log_and_snapshot_def rbind_Inr_iff
    by (cases snap) (auto simp: Let_def compact_log_through_snapshot_def same_server_def split: if_splits)
  then show ?thesis using opened_as_cong [OF open_with_log_as [OF c1]] by blast
qed

lemma core_step_keeps:
  assumes "core_step a b" and "on_disk (fst a) (snd a)"
  shows "keeps_vote a b"
  using assms
proof (induction rule: core_step.induct)
  case (elect c f r c' f')
  then show ?case using kept_start_election [of c f] kept_keeps by (metis fst_conv snd_conv)
next
  case (vote_request req c f r c' f')
  then show ?case using on_vote_request.keeps [of c f req] kept_keeps by (metis fst_conv snd_conv)
next
  case (vote_response now voter resp c f r c' f')
  then show ?case using on_vote_response.keeps [of c f now voter resp] kept_keeps by (metis fst_conv snd_conv)
next
  case (entries areq c f r c' f')
  then show ?case using on_append.keeps [of c f areq] kept_keeps by (metis fst_conv snd_conv)
next
  case (install ireq c f r c' f')
  then show ?case using on_snapshot.keeps [of c f ireq] kept_keeps by (metis fst_conv snd_conv)
next
  case (compact s c c' f)
  then show ?case
    by (intro unchanged_keeps)
       (auto simp: compact_log_to_snapshot_def compact_log_through_snapshot_def same_server_def split: if_splits)
next
  case (local cmd c e c' f)
  then show ?case using quiet_push_local
    by (intro unchanged_keeps) (auto simp: append_local_entry_def Let_def quiet_def split: if_splits)
next
  case (existing e c e' c' f)
  then show ?case using quiet_push_local
    by (intro unchanged_keeps) (auto simp: append_existing_local_entry_def Let_def quiet_def split: if_splits)
next
  case (matched now s i c j c' f)
  have "quiet c (refresh_leader_lease_if_quorum now (advance_leader_commit_index (c\<lparr>rc_match_indexes := fmupd s i (rc_match_indexes c)\<rparr>)))"
    by (rule quiet_trans [OF quiet_trans [OF _ quiet_advance] quiet_refresh]) (simp add: quiet_def same_server_def)
  then show ?case
    using matched by (intro unchanged_keeps) (auto simp: record_replication_match_def Let_def quiet_def split: if_splits)
next
  case (joint vs c c' f)
  then show ?case
    by (intro unchanged_keeps) (auto simp: begin_joint_consensus_def rbind_Inr_iff same_server_def split: if_splits)
next
  case (joint_end c f)
  then show ?case by (intro unchanged_keeps) (auto simp: finalize_joint_consensus_def same_server_def)
next
  case (change ch c c' f)
  then show ?case using change_same by (intro unchanged_keeps) auto
next
  case (restart c m log snap commit f c')
  from open_same [OF restart(1)] restart(2)
  have "rc_persistent c' = rc_persistent c" "same_server c c'" by (simp_all add: on_disk_def same_server_def opened_as_def)
  then show ?case using restart(2) by (intro unchanged_keeps) auto
qed

lemma core_steps_keep: "core_step\<^sup>*\<^sup>* a b \<Longrightarrow> on_disk (fst a) (snd a) \<Longrightarrow> keeps_vote a b"
proof (induction rule: rtranclp_induct)
  case base
  then show ?case by (simp add: keeps_vote_def same_server_def votes_kept_refl)
next
  case (step b d)
  then have ab: "keeps_vote a b" by simp
  then have "keeps_vote b d" using step core_step_keeps by (simp add: keeps_vote_def)
  with ab show ?case
    using same_server_trans [of "fst a" "fst b" "fst d"] votes_kept_trans [of "fst a" "fst b" "fst d"] by (simp add: keeps_vote_def)
qed

section \<open>Properties\<close>

text \<open>
  C8. One vote per term. Over any sequence of messages, calls and restarts of the process a server's term never
  goes back, a vote it has given in a term is never replaced by another vote in that term, and the disk holds
  exactly the term and the vote the server acts on, so that a restart continues with them. Every save succeeds
  on a disk that was ready at the start.
\<close>

theorem one_vote_per_term:
  assumes "core_step\<^sup>*\<^sup>* (c, f) (c', f')" and "on_disk c f"
  shows "current_term c \<le> current_term c' \<and>
    (current_term c' = current_term c \<longrightarrow> voted_for c \<noteq> None \<longrightarrow> voted_for c' = voted_for c) \<and>
    raft_state_load (rc_state_store c) f' = Inr (rc_persistent c') \<and> rc_server_id c' = rc_server_id c"
  using core_steps_keep [OF assms(1)] assms(2)
  by (auto simp: keeps_vote_def votes_kept_def on_disk_def same_server_def)

definition sample_core :: raft_core where
  "sample_core = \<lparr>rc_server_id = 2, rc_shard_id = 0, rc_state_store = raft_sample_store, rc_persistent = persistent_default,
     rc_log = [], rc_snapshot = None, rc_commit_index = 0, rc_role = Follower, rc_leader_id = None,
     rc_membership = three_servers, rc_match_indexes = fmempty, rc_votes_received = {||}, rc_lease_deadline = None,
     rc_lease_duration = 5, rc_lease_clock_drift_bound = 0, rc_lease_message_delay_bound = 0\<rparr>"

definition vote_for :: "server_id \<Rightarrow> u64 \<Rightarrow> request_vote_request" where
  "vote_for s trm = \<lparr>rv_term = trm, rv_candidate_id = s, rv_last_log_index = 0, rv_last_log_term = 0\<rparr>"

lemma sample_on_disk: "on_disk sample_core raft_sample_fs"
  using raft_sample_ready
  by (simp add: on_disk_def sample_core_def raft_state_load_def raft_state_ready_def file_content_def raft_sample_fs_def)

theorem one_vote_per_term_witness:
  "raft_state_load raft_sample_store
     (snd (snd (request_vote (vote_for 3 7) sample_core raft_sample_fs))) = Inr \<lparr>rp_current_term = 7, rp_voted_for = Some 3\<rparr>"
proof -
  obtain r c f where r: "request_vote (vote_for 3 7) sample_core raft_sample_fs = (r, c, f)" by (metis prod_cases3)
  then have "core_step\<^sup>*\<^sup>* (sample_core, raft_sample_fs) (c, f)" by (blast intro: core_step.vote_request)
  moreover have "rc_persistent (fst (snd (request_vote (vote_for 3 7) sample_core raft_sample_fs))) =
      \<lparr>rp_current_term = 7, rp_voted_for = Some 3\<rparr>" by code_simp
  ultimately show ?thesis
    using one_vote_per_term [OF _ sample_on_disk] r by (simp add: sample_core_def)
qed

end
