(* ===== verification/Raft_Election.thy ===== *)
theory Raft_Election
  imports Raft_Votes
begin

text \<open>
  Elections in a group of servers. The state is the servers with their disks and the messages sent so far; a
  message can be lost, delayed, reordered and delivered any number of times, and a process can restart at any
  moment. The servers run the handlers of \<open>RaftCore\<close>. No two servers lead the same term.
\<close>

section \<open>The group\<close>

record cluster =
  cl_nodes :: "server_id \<Rightarrow> raft_core \<times> fs"
  cl_requests :: "request_vote_request set"
  cl_replies :: "(server_id \<times> server_id \<times> request_vote_response) set"
  cl_ballots :: "(u64 \<times> server_id \<times> server_id) set"

text \<open>\<open>cl_ballots\<close> records who voted for whom in which term; no server reads it.\<close>

abbreviation core_of :: "cluster \<Rightarrow> server_id \<Rightarrow> raft_core" where
  "core_of s i \<equiv> fst (cl_nodes s i)"

abbreviation disk_of :: "cluster \<Rightarrow> server_id \<Rightarrow> fs" where
  "disk_of s i \<equiv> snd (cl_nodes s i)"

definition do_elect :: "server_id \<Rightarrow> cluster \<Rightarrow> cluster" where
  "do_elect i s = (case start_election (core_of s i) (disk_of s i) of
     (Inl e, c, f) \<Rightarrow> s\<lparr>cl_nodes := (cl_nodes s)(i := (c, f))\<rparr>
   | (Inr req, c, f) \<Rightarrow> s\<lparr>cl_nodes := (cl_nodes s)(i := (c, f)), cl_requests := insert req (cl_requests s),
       cl_ballots := insert (rv_term req, i, i) (cl_ballots s)\<rparr>)"

definition do_vote :: "request_vote_request \<Rightarrow> server_id \<Rightarrow> cluster \<Rightarrow> cluster" where
  "do_vote req i s = (case request_vote req (core_of s i) (disk_of s i) of
     (Inl e, c, f) \<Rightarrow> s\<lparr>cl_nodes := (cl_nodes s)(i := (c, f))\<rparr>
   | (Inr resp, c, f) \<Rightarrow> s\<lparr>cl_nodes := (cl_nodes s)(i := (c, f)),
       cl_replies := insert (rv_candidate_id req, i, resp) (cl_replies s),
       cl_ballots := (if rvr_vote_granted resp then insert (rvr_term resp, i, rv_candidate_id req) (cl_ballots s)
                      else cl_ballots s)\<rparr>)"

definition do_reply :: "instant \<Rightarrow> server_id \<times> server_id \<times> request_vote_response \<Rightarrow> cluster \<Rightarrow> cluster" where
  "do_reply now m s = (case m of (i, voter, resp) \<Rightarrow>
     s\<lparr>cl_nodes := (cl_nodes s)(i := snd (record_vote_response now voter resp (core_of s i) (disk_of s i)))\<rparr>)"

text \<open>Everything else a server does while the membership stays the same, a restart included.\<close>

inductive other_step :: "raft_core \<times> fs \<Rightarrow> raft_core \<times> fs \<Rightarrow> bool" where
  entries: "append_entries areq c f = (r, c', f') \<Longrightarrow> other_step (c, f) (c', f')"
| install: "install_snapshot ireq c f = (r, c', f') \<Longrightarrow> other_step (c, f) (c', f')"
| compact: "compact_log_to_snapshot s c = Inr c' \<Longrightarrow> other_step (c, f) (c', f)"
| local: "append_local_entry cmd c = Inr (e, c') \<Longrightarrow> other_step (c, f) (c', f)"
| existing: "append_existing_local_entry e c = Inr (e', c') \<Longrightarrow> other_step (c, f) (c', f)"
| matched: "record_replication_match now s i c = Inr (j, c') \<Longrightarrow> other_step (c, f) (c', f)"
| restart: "open_with_log_and_snapshot (rc_server_id c) (rc_shard_id c) (rc_state_store c) (rc_membership c) log snap commit f =
    Inr c' \<Longrightarrow> other_step (c, f) (c', f)"

inductive cluster_step :: "cluster \<Rightarrow> cluster \<Rightarrow> bool" where
  elect: "current_term (core_of s i) \<noteq> - 1 \<Longrightarrow> cluster_step s (do_elect i s)"
| vote: "req \<in> cl_requests s \<Longrightarrow> cluster_step s (do_vote req i s)"
| reply: "m \<in> cl_replies s \<Longrightarrow> cluster_step s (do_reply now m s)"
| other: "other_step (cl_nodes s i) n \<Longrightarrow> cluster_step s (s\<lparr>cl_nodes := (cl_nodes s)(i := n)\<rparr>)"

definition initial_cluster :: "raft_membership \<Rightarrow> cluster \<Rightarrow> bool" where
  "initial_cluster m s \<longleftrightarrow> cl_requests s = {} \<and> cl_replies s = {} \<and> cl_ballots s = {} \<and>
     (\<forall>i. rc_server_id (core_of s i) = i \<and> rc_membership (core_of s i) = m \<and> rc_role (core_of s i) = Follower \<and>
          on_disk (core_of s i) (disk_of s i))"

section \<open>The invariant\<close>

text \<open>A step that leaves an election alone, or withdraws from it.\<close>

definition calm :: "raft_core \<Rightarrow> raft_core \<Rightarrow> bool" where
  "calm c c' \<longleftrightarrow> rc_role c' = Follower \<or> (rc_role c' = rc_role c \<and> current_term c' = current_term c \<and>
     rc_votes_received c' = rc_votes_received c)"

definition ballot_ok :: "raft_core \<Rightarrow> u64 \<Rightarrow> server_id \<Rightarrow> bool" where
  "ballot_ok c t a \<longleftrightarrow> t < current_term c \<or> (t = current_term c \<and> voted_for c = Some a)"

definition role_ok :: "raft_membership \<Rightarrow> (u64 \<times> server_id \<times> server_id) set \<Rightarrow> server_id \<Rightarrow> raft_core \<Rightarrow> bool" where
  "role_ok m B i c \<longleftrightarrow>
     (rc_role c = Candidate \<longrightarrow> (\<forall>v. v |\<in>| rc_votes_received c \<longrightarrow> (current_term c, v, i) \<in> B)) \<and>
     (rc_role c = Leader \<longrightarrow> (\<exists>Q. has_quorum m Q \<and> (\<forall>v. v |\<in>| Q \<longrightarrow> (current_term c, v, i) \<in> B)))"

definition election_inv :: "raft_membership \<Rightarrow> cluster \<Rightarrow> bool" where
  "election_inv m s \<longleftrightarrow>
     (\<forall>i. rc_server_id (core_of s i) = i \<and> rc_membership (core_of s i) = m \<and> on_disk (core_of s i) (disk_of s i) \<and>
          role_ok m (cl_ballots s) i (core_of s i)) \<and>
     (\<forall>t v a b. (t, v, a) \<in> cl_ballots s \<longrightarrow> (t, v, b) \<in> cl_ballots s \<longrightarrow> a = b) \<and>
     (\<forall>t v a. (t, v, a) \<in> cl_ballots s \<longrightarrow> ballot_ok (core_of s v) t a) \<and>
     (\<forall>a v resp. (a, v, resp) \<in> cl_replies s \<longrightarrow> rvr_vote_granted resp \<longrightarrow> (rvr_term resp, v, a) \<in> cl_ballots s)"

lemma election_invD:
  assumes "election_inv m s"
  shows "rc_server_id (core_of s i) = i" "rc_membership (core_of s i) = m" "on_disk (core_of s i) (disk_of s i)"
    "role_ok m (cl_ballots s) i (core_of s i)"
    "(t, v, a) \<in> cl_ballots s \<Longrightarrow> (t, v, b) \<in> cl_ballots s \<Longrightarrow> a = b"
    "(t, v, a) \<in> cl_ballots s \<Longrightarrow> ballot_ok (core_of s v) t a"
    "(a, v, resp) \<in> cl_replies s \<Longrightarrow> rvr_vote_granted resp \<Longrightarrow> (rvr_term resp, v, a) \<in> cl_ballots s"
  using assms unfolding election_inv_def by blast+

lemma ballot_ok_mono: "ballot_ok c t a \<Longrightarrow> votes_kept c c' \<Longrightarrow> ballot_ok c' t a"
  by (auto simp: ballot_ok_def votes_kept_def)

lemma role_ok_calm: "role_ok m B i c \<Longrightarrow> calm c c' \<Longrightarrow> role_ok m B i c'"
  by (auto simp: role_ok_def calm_def)

lemma role_ok_mono: "role_ok m B i c \<Longrightarrow> B \<subseteq> B' \<Longrightarrow> role_ok m B' i c"
  unfolding role_ok_def by blast

text \<open>One server moves and possibly casts one ballot.\<close>

lemma election_inv_update:
  assumes inv: "election_inv m s" and kept: "kept (core_of s i) (disk_of s i) (r, c', f')"
    and B: "cl_ballots s' = cl_ballots s \<union> B" and nodes: "cl_nodes s' = (cl_nodes s)(i := (c', f'))"
    and new: "\<And>t v a. (t, v, a) \<in> B \<Longrightarrow> v = i \<and> ballot_ok c' t a \<and> (t < current_term (core_of s i) \<longrightarrow> False) \<and>
      (t = current_term (core_of s i) \<longrightarrow> voted_for (core_of s i) = None \<or> voted_for (core_of s i) = Some a)"
    and one: "\<And>t v a b. (t, v, a) \<in> B \<Longrightarrow> (t, v, b) \<in> B \<Longrightarrow> a = b"
    and role: "role_ok m (cl_ballots s') i c'"
    and replies: "\<And>a v resp. (a, v, resp) \<in> cl_replies s' \<Longrightarrow> rvr_vote_granted resp \<Longrightarrow>
      (a, v, resp) \<in> cl_replies s \<or> (rvr_term resp, v, a) \<in> B"
  shows "election_inv m s'"
proof -
  note I = election_invD [OF inv]
  have k: "same_server (core_of s i) c'" "rc_membership c' = m" "on_disk c' f'" "votes_kept (core_of s i) c'"
    using kept I(2,3) [of i] by (simp_all add: kept_def)
  have node: "core_of s' j = (if j = i then c' else core_of s j)" "disk_of s' j = (if j = i then f' else disk_of s j)" for j
    using nodes by simp_all
  have a: "rc_server_id (core_of s' j) = j \<and> rc_membership (core_of s' j) = m \<and> on_disk (core_of s' j) (disk_of s' j) \<and>
      role_ok m (cl_ballots s') j (core_of s' j)" for j
  proof (cases "j = i")
    case True
    then show ?thesis using k I(1) [of i] role by (simp add: node same_server_def)
  next
    case False
    then show ?thesis using I(1-3) [of j] role_ok_mono [OF I(4) [of j], of "cl_ballots s'"] B by (simp add: node)
  qed
  have b: "ballot_ok (core_of s' v) t a" if "(t, v, a) \<in> cl_ballots s'" for t v a
  proof (cases "(t, v, a) \<in> B")
    case True
    then show ?thesis using new [OF True] by (simp add: node)
  next
    case False
    then have "ballot_ok (core_of s v) t a" using that B I(6) by blast
    then show ?thesis using ballot_ok_mono [OF _ k(4)] by (cases "v = i") (simp_all add: node)
  qed
  have old_new: "a = b" if "(t, v, a) \<in> cl_ballots s" "(t, v, b) \<in> B" for t v a b
    using new [OF that(2)] I(6) [OF that(1)] by (auto simp: ballot_ok_def)
  have c: "a = b" if "(t, v, a) \<in> cl_ballots s'" "(t, v, b) \<in> cl_ballots s'" for t v a b
    using that unfolding B by (elim UnE) (rule I(5) old_new one old_new [symmetric]; assumption)+
  have d: "(rvr_term resp, v, a) \<in> cl_ballots s'" if "(a, v, resp) \<in> cl_replies s'" "rvr_vote_granted resp" for a v resp
    using replies [OF that] I(7) that(2) B by blast
  show ?thesis
    unfolding election_inv_def by (intro conjI allI impI; (rule a [THEN conjunct1] a [THEN conjunct2, THEN conjunct1]
      a [THEN conjunct2, THEN conjunct2, THEN conjunct1] a [THEN conjunct2, THEN conjunct2, THEN conjunct2] b c d; assumption?))
qed

section \<open>Every step keeps it\<close>

lemma calm_refl [simp]: "calm c c"
  by (simp add: calm_def)

lemma calm_trans: "calm a b \<Longrightarrow> calm b c \<Longrightarrow> calm a c"
  unfolding calm_def by metis

lemma calm_follower: "rc_role c' = Follower \<Longrightarrow> calm c c'"
  by (simp add: calm_def)

lemma step_down_follower: "rc_role (fst (snd (step_down t c f))) = Follower"
  by (simp add: step_down_def Let_def)

lemma calm_advance: "calm c (advance_leader_commit_index c)"
  by (simp add: calm_def advance_leader_commit_index_def Let_def split: option.split)

lemma calm_refresh: "calm c (refresh_leader_lease_if_quorum now c)"
  by (simp add: calm_def refresh_leader_lease_if_quorum_def)

lemma calm_push_local: "calm c (push_local e c)"
  unfolding push_local_def by (rule calm_trans [OF _ calm_advance]) (simp add: calm_def current_term_def)

lemma calm_append_loop: "append_loop es c = (r, c') \<Longrightarrow> calm c c'"
proof (induction es arbitrary: c)
  case (Cons e es)
  let ?push = "\<lambda>d. d\<lparr>rc_log := rc_log d @ [e]\<rparr>"
  have push: "calm c (?push c)" "calm c (?push (core_truncate_from (entry_index e) c))"
    by (simp_all add: calm_def core_truncate_from_def)
  consider "c' = c" | "append_loop es c = (r, c')" | "append_loop es (?push c) = (r, c')"
    | "append_loop es (?push (core_truncate_from (entry_index e) c)) = (r, c')"
    using Cons.prems by (auto simp: Let_def split: if_splits option.splits)
  then show ?case
    using Cons.IH calm_trans [OF push(1)] calm_trans [OF push(2)] by cases (simp, blast+)
qed simp

lemma calm_append_finish: "append_finish i c = (r, c') \<Longrightarrow> calm c c'"
  by (auto simp: append_finish_def Let_def calm_def split: if_splits)

lemma calm_append_checked: "append_checked req c f = (r, c', f') \<Longrightarrow> calm c c'"
proof -
  have matching: "calm c c'" if "append_matching req c f = (r, c', f')"
    using that unfolding append_matching_def
    by (auto split: prod.splits sum.splits option.splits dest!: calm_append_loop calm_append_finish intro: calm_trans)
  have cut: "calm c (core_truncate_from i c)" for i by (simp add: calm_def core_truncate_from_def)
  show "append_checked req c f = (r, c', f') \<Longrightarrow> calm c c'"
    unfolding append_checked_def Let_def by (auto split: if_splits option.splits intro: matching cut)
qed

text \<open>A handler that first steps down if it has to and then goes on calmly is calm.\<close>

lemma calm_after_step_down:
  assumes "andthen (if b then step_down t c f else (Inr (), c, f)) k = (r, c', f')"
    and "\<And>d g. k () d g = (r, c', f') \<Longrightarrow> calm d c'"
  shows "calm c c'"
proof -
  let ?first = "if b then step_down t c f else (Inr (), c, f)"
  obtain d where d: "fst (snd ?first) = d" by blast
  have first: "calm c d" unfolding d [symmetric] by (auto simp: step_down_follower calm_follower)
  show ?thesis
  proof (cases rule: andthen_cases [of ?first k])
    case (1 e d' g)
    have "d = d'" using d unfolding 1(1) by simp
    moreover have "d' = c'" using assms(1) unfolding 1(2) by simp
    ultimately show ?thesis using first by simp
  next
    case (2 x d' g)
    have "d = d'" using d unfolding 2(1) by simp
    moreover have "calm d' c'" using assms(1) unfolding 2(2) by (intro assms(2)) simp
    ultimately show ?thesis using calm_trans [OF first] by simp
  qed
qed

lemma calm_leader: "calm (c\<lparr>rc_leader_id := l\<rparr>) c' \<Longrightarrow> calm c c'"
  by (simp add: calm_def)

lemma calm_append_entries:
  assumes "append_entries req c f = (r, c', f')"
  shows "calm c c'"
proof (cases "ae_term req < current_term c")
  case True
  then show ?thesis using assms by (simp add: append_entries_def)
next
  case False
  then have "andthen (if current_term c < ae_term req \<or> rc_role c \<noteq> Follower then step_down (ae_term req) c f else (Inr (), c, f))
      (\<lambda>_ c f. append_checked req (c\<lparr>rc_leader_id := Some (ae_leader_id req)\<rparr>) f) = (r, c', f')"
    using assms by (simp add: append_entries_def)
  then show ?thesis by (rule calm_after_step_down) (rule calm_leader [OF calm_append_checked])
qed

lemma calm_install_snapshot:
  assumes "install_snapshot req c f = (r, c', f')"
  shows "calm c c'"
proof (cases "is_term req < current_term c \<or> sn_shard_id (is_metadata req) \<noteq> rc_shard_id c")
  case True
  then show ?thesis using assms by (auto simp: install_snapshot_def split: if_splits)
next
  case False
  note assms [unfolded install_snapshot_def]
  moreover have "\<not> is_term req < current_term c" "sn_shard_id (is_metadata req) = rc_shard_id c" using False by simp_all
  ultimately show ?thesis
    unfolding if_not_P if_P not_not simp_thms if_False
    by (rule_tac calm_after_step_down) (auto simp: Let_def calm_def compact_log_through_snapshot_def split: if_splits)
qed

lemma open_follower:
  assumes "open_with_log_and_snapshot server shard store m log snap commit f = Inr c"
  shows "rc_role c = Follower \<and> rc_membership c = m"
proof -
  have pushed: "rc_role d' = rc_role d \<and> rc_membership d' = rc_membership d" if "for_each log push_opened d = Inr d'" for d d'
    using that by (induction log arbitrary: d) (auto simp: rbind_Inr_iff push_opened_def split: if_splits)
  have "rc_role d = Follower \<and> rc_membership d = m" if "open_with_membership server shard store m f = Inr d" for d
    using that by (auto simp: open_with_membership_def rbind_Inr_iff split: if_splits)
  then have "rc_role d = Follower \<and> rc_membership d = m" if "open_with_log server shard store m log commit f = Inr d" for d
    using that pushed unfolding open_with_log_def rbind_Inr_iff Let_def by fastforce
  then show ?thesis
    using assms unfolding open_with_log_and_snapshot_def rbind_Inr_iff
    by (cases snap) (auto simp: Let_def compact_log_through_snapshot_def split: if_splits)
qed

lemma other_step_calm: "other_step n n' \<Longrightarrow> calm (fst n) (fst n')"
proof (induction rule: other_step.induct)
  case (entries areq c f r c' f')
  then show ?case using calm_append_entries by simp
next
  case (install ireq c f r c' f')
  then show ?case using calm_install_snapshot by simp
next
  case (local cmd c e c' f)
  then show ?case using calm_push_local by (auto simp: append_local_entry_def Let_def split: if_splits)
next
  case (existing e c e' c' f)
  then show ?case using calm_push_local by (auto simp: append_existing_local_entry_def Let_def split: if_splits)
next
  case (matched now s i c j c' f)
  have "calm c (refresh_leader_lease_if_quorum now (advance_leader_commit_index (c\<lparr>rc_match_indexes := fmupd s i (rc_match_indexes c)\<rparr>)))"
    by (rule calm_trans [OF calm_trans [OF _ calm_advance] calm_refresh]) (simp add: calm_def current_term_def)
  then show ?case using matched by (auto simp: record_replication_match_def Let_def split: if_splits)
next
  case (restart c log snap commit f c')
  then show ?case using open_follower by (simp add: calm_follower)
qed (auto simp: compact_log_to_snapshot_def compact_log_through_snapshot_def calm_def split: if_splits)

lemma other_core_step:
  assumes "other_step (c, f) (c', f')"
  shows "core_step (c, f) (c', f') \<and> rc_membership c' = rc_membership c"
  using assms
proof (induction "(c, f)" "(c', f')" rule: other_step.induct)
  case (entries areq r)
  then show ?case using on_append.keeps [of c f areq] by (auto simp: kept_def intro: core_step.entries)
next
  case (install ireq r)
  then show ?case using on_snapshot.keeps [of c f ireq] by (auto simp: kept_def intro: core_step.install)
next
  case (compact s)
  then show ?case
    by (auto simp: compact_log_to_snapshot_def compact_log_through_snapshot_def split: if_splits intro: core_step.compact)
next
  case (local cmd e)
  then show ?case
    using quiet_push_local core_step.local by (auto simp: append_local_entry_def Let_def quiet_def split: if_splits)
next
  case (existing e e')
  then show ?case
    using quiet_push_local core_step.existing
    by (auto simp: append_existing_local_entry_def Let_def quiet_def split: if_splits)
next
  case (matched now s i j)
  have "quiet c (refresh_leader_lease_if_quorum now (advance_leader_commit_index (c\<lparr>rc_match_indexes := fmupd s i (rc_match_indexes c)\<rparr>)))"
    by (rule quiet_trans [OF quiet_trans [OF _ quiet_advance] quiet_refresh]) (simp add: quiet_def same_server_def)
  then show ?case
    using matched core_step.matched by (auto simp: record_replication_match_def Let_def quiet_def split: if_splits)
next
  case (restart log snap commit)
  then show ?case using open_follower core_step.restart by blast
qed

lemma other_step_kept:
  assumes "other_step (c, f) (c', f')" and "on_disk c f"
  shows "kept c f (Inr (), c', f')"
  using other_core_step [OF assms(1)] core_step_keeps [of "(c, f)" "(c', f')"] assms(2)
  by (simp add: kept_def keeps_vote_def)

section \<open>The election steps\<close>

lemma start_election_run:
  assumes "on_disk c f"
  shows "\<exists>req c' f'. start_election c f = (Inr req, c', f') \<and> rv_term req = current_term c' \<and>
    current_term c' = saturating_add (current_term c) 1 \<and> voted_for c' = Some (rc_server_id c) \<and>
    rc_role c' = Candidate \<and> rc_votes_received c' = {|rc_server_id c|}"
proof -
  let ?c = "c\<lparr>rc_role := Candidate, rc_leader_id := None,
    rc_persistent := \<lparr>rp_current_term = saturating_add (current_term c) 1, rp_voted_for = Some (rc_server_id c)\<rparr>,
    rc_votes_received := {|rc_server_id c|}\<rparr>"
  have "raft_state_ready (rc_state_store ?c) f" using assms by (simp add: on_disk_def)
  from save_state_ok [OF this] obtain f' where "save_state ?c f = (Inr (), ?c, f')" by blast
  then show ?thesis by (simp add: start_election_def andthen_def current_term_def voted_for_def)
qed

definition vote_given :: "request_vote_request \<Rightarrow> raft_core \<Rightarrow> request_vote_response \<Rightarrow> raft_core \<Rightarrow> bool" where
  "vote_given req c resp c' \<longleftrightarrow> (rvr_vote_granted resp \<longrightarrow>
     rvr_term resp = current_term c' \<and> voted_for c' = Some (rv_candidate_id req) \<and> current_term c \<le> current_term c' \<and>
     (current_term c' = current_term c \<longrightarrow> voted_for c = None \<or> voted_for c = Some (rv_candidate_id req)))"

lemma grant_vote_run:
  assumes "on_disk c f"
  shows "\<exists>resp c' f'. grant_vote req c f = (Inr resp, c', f') \<and> vote_given req c resp c' \<and> calm c c'"
proof -
  let ?c = "c\<lparr>rc_persistent := (rc_persistent c)\<lparr>rp_voted_for := Some (rv_candidate_id req)\<rparr>\<rparr>"
  have "raft_state_ready (rc_state_store ?c) f" using assms by (simp add: on_disk_def)
  from save_state_ok [OF this] obtain f' where "save_state ?c f = (Inr (), ?c, f')" by blast
  then show ?thesis
    by (auto simp: grant_vote_def Let_def andthen_def vote_given_def calm_def current_term_def)
qed

lemma step_down_run:
  assumes "on_disk c f" and "current_term c < trm"
  shows "\<exists>c' f'. step_down trm c f = (Inr (), c', f') \<and> on_disk c' f' \<and> rc_role c' = Follower \<and> current_term c' = trm"
proof -
  let ?c = "c\<lparr>rc_role := Follower, rc_leader_id := None, rc_votes_received := {||}, rc_lease_deadline := None,
    rc_persistent := \<lparr>rp_current_term = trm, rp_voted_for = None\<rparr>\<rparr>"
  have "raft_state_ready (rc_state_store ?c) f" using assms by (simp add: on_disk_def)
  from save_state_ok [OF this] obtain f' where "save_state ?c f = (Inr (), ?c, f')" "on_disk ?c f'" by blast
  then show ?thesis using assms(2) by (simp add: step_down_def current_term_def)
qed

lemma request_vote_run:
  assumes "on_disk c f"
  shows "\<exists>resp c' f'. request_vote req c f = (Inr resp, c', f') \<and> vote_given req c resp c' \<and> calm c c'"
proof -
  consider "rv_term req < current_term c" | "rv_term req = current_term c" | "current_term c < rv_term req" by fastforce
  then show ?thesis
  proof cases
    case 1
    then show ?thesis by (simp add: request_vote_def vote_given_def)
  next
    case 2
    then show ?thesis using grant_vote_run [OF assms, of req] by (simp add: request_vote_def andthen_def)
  next
    case 3
    obtain d g where d: "step_down (rv_term req) c f = (Inr (), d, g)" "on_disk d g" "rc_role d = Follower"
        "current_term d = rv_term req"
      using step_down_run [OF assms 3] by blast
    obtain resp c' f' where r: "grant_vote req d g = (Inr resp, c', f')" "vote_given req d resp c'" "calm d c'"
      using grant_vote_run [OF d(2), of req] by blast
    have "request_vote req c f = (Inr resp, c', f')"
      using 3 d(1) r(1) by (simp add: request_vote_def andthen_def)
    moreover have "vote_given req c resp c'"
      using r(2) d(4) 3 by (auto simp: vote_given_def)
    moreover have "calm c c'" using calm_trans [OF calm_follower [OF d(3)] r(3)] .
    ultimately show ?thesis by blast
  qed
qed

lemma do_elect_inv:
  assumes inv: "election_inv m s" and trm: "current_term (core_of s i) \<noteq> - 1"
  shows "election_inv m (do_elect i s)"
proof -
  let ?c = "core_of s i" and ?f = "disk_of s i"
  note I = election_invD [OF inv]
  obtain req c' f' where r: "start_election ?c ?f = (Inr req, c', f')" "rv_term req = current_term c'"
      "current_term c' = saturating_add (current_term ?c) 1" "voted_for c' = Some i" "rc_role c' = Candidate"
      "rc_votes_received c' = {|i|}"
    using start_election_run [OF I(3) [of i]] I(1) [of i] by auto
  have s': "do_elect i s = s\<lparr>cl_nodes := (cl_nodes s)(i := (c', f')), cl_requests := insert req (cl_requests s),
      cl_ballots := insert (rv_term req, i, i) (cl_ballots s)\<rparr>"
    by (simp add: do_elect_def r(1))
  have later: "current_term ?c < rv_term req" using saturating_add_one_gt [OF trm] r(2,3) by simp
  show ?thesis
  proof (rule election_inv_update [OF inv, where B = "{(rv_term req, i, i)}"])
    show "kept ?c ?f (Inr req, c', f')" using kept_start_election [OF trm, of ?f] r(1) by simp
    show "role_ok m (cl_ballots (do_elect i s)) i c'" using r(2,5,6) by (simp add: s' role_ok_def)
  qed (use r(2,4) later in \<open>auto simp: s' ballot_ok_def\<close>)
qed

lemma do_vote_inv:
  assumes inv: "election_inv m s"
  shows "election_inv m (do_vote req i s)"
proof -
  let ?c = "core_of s i" and ?f = "disk_of s i"
  note I = election_invD [OF inv]
  obtain resp c' f' where r: "request_vote req ?c ?f = (Inr resp, c', f')" "vote_given req ?c resp c'" "calm ?c c'"
    using request_vote_run [OF I(3) [of i], of req] by blast
  let ?B = "if rvr_vote_granted resp then {(rvr_term resp, i, rv_candidate_id req)} else {}"
  have s': "do_vote req i s = s\<lparr>cl_nodes := (cl_nodes s)(i := (c', f')),
      cl_replies := insert (rv_candidate_id req, i, resp) (cl_replies s), cl_ballots := cl_ballots s \<union> ?B\<rparr>"
    by (simp add: do_vote_def r(1))
  show ?thesis
  proof (rule election_inv_update [OF inv, where B = ?B])
    show "kept ?c ?f (Inr resp, c', f')" using on_vote_request.keeps [of ?c ?f req] r(1) by simp
    show "role_ok m (cl_ballots (do_vote req i s)) i c'"
      using role_ok_mono [OF role_ok_calm [OF I(4) [of i] r(3)]] by (simp add: s')
  qed (use r(2) in \<open>auto simp: s' ballot_ok_def vote_given_def split: if_splits\<close>)
qed

lemma become_leader_role: "rc_role (become_leader now c) = Leader" "current_term (become_leader now c) = current_term c"
  by (simp_all add: become_leader_def refresh_leader_lease_if_quorum_def current_term_def)

lemma do_reply_inv:
  assumes inv: "election_inv m s" and msg: "msg \<in> cl_replies s"
  shows "election_inv m (do_reply now msg s)"
proof -
  obtain i v resp where m: "msg = (i, v, resp)" by (cases msg) auto
  let ?c = "core_of s i" and ?f = "disk_of s i"
  note I = election_invD [OF inv]
  obtain r c' f' where r: "record_vote_response now v resp ?c ?f = (r, c', f')" by (metis prod_cases3)
  have granted: "rvr_vote_granted resp \<Longrightarrow> (rvr_term resp, v, i) \<in> cl_ballots s" using I(7) msg m by blast
  have role: "role_ok m (cl_ballots s) i c'"
  proof (cases "current_term ?c < rvr_term resp \<or> rc_role ?c \<noteq> Candidate \<or> rvr_term resp \<noteq> current_term ?c")
    case True
    have "calm ?c c'"
    proof (cases "current_term ?c < rvr_term resp")
      case True
      then show ?thesis
        using r step_down_run [OF I(3) [of i] True] by (auto simp: record_vote_response_def andthen_def calm_follower)
    next
      case False
      then show ?thesis using r True by (auto simp: record_vote_response_def split: if_splits)
    qed
    then show ?thesis by (rule role_ok_calm [OF I(4)])
  next
    case False
    let ?d = "if rvr_vote_granted resp then ?c\<lparr>rc_votes_received := finsert v (rc_votes_received ?c)\<rparr> else ?c"
    have c': "c' = (if has_quorum m (rc_votes_received ?d) then become_leader now ?d else ?d)"
      using r False I(2) [of i] by (auto simp: record_vote_response_def Let_def split: if_splits)
    have votes: "(current_term ?c, w, i) \<in> cl_ballots s" if "w |\<in>| rc_votes_received ?d" for w
      using that I(4) [of i] False granted by (auto simp: role_ok_def split: if_splits)
    moreover have "current_term ?d = current_term ?c" "rc_role ?d = Candidate" using False by simp_all
    ultimately show ?thesis
      unfolding c' by (auto simp: role_ok_def become_leader_role)
  qed
  show ?thesis
  proof (rule election_inv_update [OF inv, where B = "{}"])
    show "kept ?c ?f (r, c', f')" using on_vote_response.keeps [of ?c ?f now v resp] r by simp
    show "role_ok m (cl_ballots (do_reply now msg s)) i c'" using role by (simp add: do_reply_def m)
  qed (simp_all add: do_reply_def m r)
qed

lemma cluster_step_inv:
  assumes "cluster_step s s'" and inv: "election_inv m s"
  shows "election_inv m s'"
  using assms(1)
proof cases
  case (other i n)
  obtain c f c' f' where n: "cl_nodes s i = (c, f)" "n = (c', f')" by fastforce
  note I = election_invD [OF inv, of i]
  have step: "other_step (c, f) (c', f')" using other(2) n by simp
  show ?thesis
  proof (rule election_inv_update [OF inv, where B = "{}"])
    show "kept (core_of s i) (disk_of s i) (Inr (), c', f')" using other_step_kept [OF step] I(3) n by simp
    show "role_ok m (cl_ballots s') i c'" using role_ok_calm [OF I(4)] other_step_calm [OF step] n other(1) by simp
  qed (simp_all add: other(1) n)
qed (use do_elect_inv do_vote_inv do_reply_inv inv in blast)+

lemma initial_cluster_inv: "initial_cluster m s \<Longrightarrow> election_inv m s"
  by (simp add: initial_cluster_def election_inv_def role_ok_def)

lemma cluster_steps_inv: "cluster_step\<^sup>*\<^sup>* s s' \<Longrightarrow> election_inv m s \<Longrightarrow> election_inv m s'"
  by (induction rule: rtranclp_induct) (blast intro: cluster_step_inv)+

section \<open>Election safety\<close>

text \<open>
  C3. At most one server leads a term. The servers of a group with one membership start as followers that have
  their term and vote on disk; after any sequence of elections, votes, replies, appended entries, installed
  snapshots and restarts, with messages lost, repeated and reordered, two leaders of the same term are one server.
\<close>

theorem election_safety:
  assumes "initial_cluster m s0" and "cluster_step\<^sup>*\<^sup>* s0 s"
    and "rc_role (core_of s i) = Leader" and "rc_role (core_of s j) = Leader"
    and "current_term (core_of s i) = current_term (core_of s j)"
  shows "i = j"
proof -
  have inv: "election_inv m s" using cluster_steps_inv [OF assms(2)] initial_cluster_inv [OF assms(1)] .
  note I = election_invD [OF inv]
  obtain P Q where P: "has_quorum m P" "\<forall>v. v |\<in>| P \<longrightarrow> (current_term (core_of s i), v, i) \<in> cl_ballots s"
    and Q: "has_quorum m Q" "\<forall>v. v |\<in>| Q \<longrightarrow> (current_term (core_of s i), v, j) \<in> cl_ballots s"
    using I(4) [of i] I(4) [of j] assms(3-5) by (auto simp: role_ok_def)
  show ?thesis
    by (rule one_config.one_value [OF P(1) Q(1), where backs = "\<lambda>v a. (current_term (core_of s i), v, a) \<in> cl_ballots s"])
      (use P(2) Q(2) I(5) in blast)+
qed

definition sample_cluster :: cluster where
  "sample_cluster = \<lparr>cl_nodes = (\<lambda>i. (sample_core\<lparr>rc_server_id := i\<rparr>, raft_sample_fs)), cl_requests = {},
     cl_replies = {}, cl_ballots = {}\<rparr>"

definition sample_reply :: "server_id \<times> server_id \<times> request_vote_response" where
  "sample_reply = (1, 2, \<lparr>rvr_term = 1, rvr_vote_granted = True\<rparr>)"

definition sample_election :: cluster where
  "sample_election = do_reply 0 sample_reply (do_vote (vote_for 1 1) 2 (do_elect 1 sample_cluster))"

theorem election_safety_witness:
  "rc_role (core_of sample_election 1) = Leader \<and> current_term (core_of sample_election 1) = 1 \<and>
   (\<nexists>j. j \<noteq> 1 \<and> rc_role (core_of sample_election j) = Leader \<and> current_term (core_of sample_election j) = 1)"
proof -
  have init: "initial_cluster three_servers sample_cluster"
    using sample_on_disk by (simp add: initial_cluster_def sample_cluster_def sample_core_def on_disk_def)
  let ?a = "do_elect 1 sample_cluster" and ?b = "do_vote (vote_for 1 1) 2 (do_elect 1 sample_cluster)"
  have msgs: "vote_for 1 1 \<in> cl_requests ?a" "sample_reply \<in> cl_replies ?b" by code_simp+
  have ab: "cluster_step ?a ?b" by (rule cluster_step.vote [OF msgs(1)])
  have be: "cluster_step ?b sample_election" unfolding sample_election_def by (rule cluster_step.reply [OF msgs(2)])
  have a: "cluster_step sample_cluster ?a"
    by (rule cluster_step.elect) (simp add: sample_cluster_def sample_core_def current_term_def persistent_default_def)
  have run: "cluster_step\<^sup>*\<^sup>* sample_cluster sample_election"
    by (rule rtranclp.rtrancl_into_rtrancl [where r = cluster_step, OF _ be],
        rule rtranclp.rtrancl_into_rtrancl [where r = cluster_step, OF _ ab],
        rule rtranclp.rtrancl_into_rtrancl [where r = cluster_step, OF _ a], rule rtranclp.rtrancl_refl)
  have lead: "rc_role (core_of sample_election 1) = Leader" "current_term (core_of sample_election 1) = 1" by code_simp+
  have "j = 1" if "rc_role (core_of sample_election j) = Leader" "current_term (core_of sample_election j) = 1" for j
    by (rule election_safety [OF init run that(1) lead(1)]) (simp add: that(2) lead(2))
  then show ?thesis using lead by blast
qed

end
