(* ===== verification/Raft_Log.thy ===== *)
theory Raft_Log
  imports Raft_Votes
begin

text \<open>
  The log of one server (\<open>RaftCore\<close> in \<open>neo4r-db/src/raft.rs\<close>): the indexes of its entries follow on the
  snapshot without a gap, and what is committed is part of it. Every handler that touches the log keeps this, moves
  the commit index forwards only, and leaves the committed entries as they are, under the conditions of
  \<open>event_expected\<close> on its arguments, which the handlers do not check.
\<close>

section \<open>Numbered entries\<close>

text \<open>The entries carry the indexes after \<open>b\<close>, one after the other.\<close>

fun numbered :: "nat \<Rightarrow> log_entry list \<Rightarrow> bool" where
  "numbered b [] = True"
| "numbered b (e # es) \<longleftrightarrow> unat (entry_index e) = Suc b \<and> numbered (Suc b) es"

lemma numbered_append: "numbered b (xs @ ys) \<longleftrightarrow> numbered b xs \<and> numbered (b + length xs) ys"
  by (induction xs arbitrary: b) auto

lemma numbered_take: "numbered b es \<Longrightarrow> numbered b (take k es)"
  using numbered_append [of b "take k es" "drop k es"] by simp

lemma numbered_drop: "numbered b es \<Longrightarrow> k \<le> length es \<Longrightarrow> numbered (b + k) (drop k es)"
  using numbered_append [of b "take k es" "drop k es"] by (simp add: min.absorb2)

lemma numbered_nth: "numbered b es \<Longrightarrow> k < length es \<Longrightarrow> unat (entry_index (es ! k)) = Suc (b + k)"
  by (induction es arbitrary: b k) (auto simp: nth_Cons split: nat.splits)

lemma numbered_last: "numbered b es \<Longrightarrow> es \<noteq> [] \<Longrightarrow> unat (entry_index (last es)) = b + length es"
  using numbered_nth [of b es "length es - 1"] by (simp add: last_conv_nth Suc_diff_Suc)

lemma numbered_find:
  assumes "numbered b es"
  shows "find (\<lambda>e. entry_index e = i) es =
    (if b < unat i \<and> unat i \<le> b + length es then Some (es ! (unat i - Suc b)) else None)"
  using assms
proof (induction es arbitrary: b)
  case (Cons e es)
  show ?case
  proof (cases "entry_index e = i")
    case True
    then show ?thesis using Cons.prems by auto
  next
    case False
    then have "unat i \<noteq> Suc b" using Cons.prems by (metis numbered.simps(2) word_unat_eq_iff)
    then show ?thesis using Cons False by (auto simp: nth_Cons' Suc_diff_Suc)
  qed
qed simp

lemma numbered_filter_less: "numbered b es \<Longrightarrow> filter (\<lambda>e. entry_index e < i) es = take (unat i - Suc b) es"
proof (induction es arbitrary: b)
  case (Cons e es)
  then show ?case
    by (cases "Suc b < unat i") (auto simp: word_less_nat_alt take_Cons' Suc_diff_Suc)
qed simp

lemma numbered_filter_greater: "numbered b es \<Longrightarrow> filter (\<lambda>e. i < entry_index e) es = drop (unat i - b) es"
proof (induction es arbitrary: b)
  case (Cons e es)
  have "filter (\<lambda>e. i < entry_index e) es = drop (unat i - Suc b) es" using Cons by simp
  then show ?case
    using Cons.prems by (cases "Suc b \<le> unat i") (auto simp: word_less_nat_alt drop_Cons')
qed simp

lemma numbered_sorted: "numbered b es \<Longrightarrow> sorted (map entry_index es)"
  by (auto simp: sorted_iff_nth_mono word_le_nat_alt numbered_nth)

lemma numbered_sort [simp]: "numbered b es \<Longrightarrow> sort_key entry_index es = es"
  by (rule sort_key_id_if_sorted [OF numbered_sorted])

section \<open>The invariant\<close>

definition log_inv :: "raft_core \<Rightarrow> bool" where
  "log_inv c \<longleftrightarrow> numbered (unat (snapshot_index c)) (rc_log c) \<and> snapshot_index c \<le> rc_commit_index c \<and>
     rc_commit_index c \<le> last_log_index c \<and> (\<forall>e \<in> set (rc_log c). entry_shard_id e = rc_shard_id c)"

lemma unat_last_log_index:
  "numbered (unat (snapshot_index c)) (rc_log c) \<Longrightarrow> unat (last_log_index c) = unat (snapshot_index c) + length (rc_log c)"
  by (simp add: last_log_index_def numbered_last)

lemma entry_at_numbered:
  assumes "numbered (unat (snapshot_index c)) (rc_log c)"
  shows "entry_at c i = (if snapshot_index c < i \<and> i \<le> last_log_index c
    then Some (rc_log c ! (unat i - Suc (unat (snapshot_index c)))) else None)"
  unfolding entry_at_def numbered_find [OF assms] by (simp add: word_less_nat_alt word_le_nat_alt unat_last_log_index [OF assms])

text \<open>What a step may do: it goes forwards and keeps the entries that were committed.\<close>

definition committed_kept :: "raft_core \<Rightarrow> raft_core \<Rightarrow> bool" where
  "committed_kept c c' \<longleftrightarrow> log_inv c' \<and> rc_commit_index c \<le> rc_commit_index c' \<and> snapshot_index c \<le> snapshot_index c' \<and>
     (\<forall>i. snapshot_index c' < i \<longrightarrow> i \<le> rc_commit_index c \<longrightarrow> entry_at c' i = entry_at c i)"

lemma committed_kept_refl: "log_inv c \<Longrightarrow> committed_kept c c"
  by (simp add: committed_kept_def)

lemma committed_kept_trans:
  assumes "committed_kept c d" and "committed_kept d c'"
  shows "committed_kept c c'"
  using assms unfolding committed_kept_def by (auto intro: order_trans)

text \<open>The parts of the server the log properties look at.\<close>

definition same_log :: "raft_core \<Rightarrow> raft_core \<Rightarrow> bool" where
  "same_log c c' \<longleftrightarrow> rc_log c' = rc_log c \<and> rc_snapshot c' = rc_snapshot c \<and> rc_commit_index c' = rc_commit_index c \<and>
     rc_shard_id c' = rc_shard_id c"

lemma same_logD:
  assumes "same_log c c'"
  shows "snapshot_index c' = snapshot_index c" "last_log_index c' = last_log_index c" "entry_at c' i = entry_at c i"
    "log_inv c' = log_inv c"
  using assms by (simp_all add: same_log_def snapshot_index_def last_log_index_def entry_at_def log_inv_def)

lemma same_log_kept: "same_log c c' \<Longrightarrow> log_inv c \<Longrightarrow> committed_kept c c'"
  by (simp add: committed_kept_def same_logD) (simp add: same_log_def)

lemma same_log_step_down: "same_log c (fst (snd (step_down t c f)))"
  by (simp add: step_down_def same_log_def save_state_def Let_def)

section \<open>Appending\<close>

text \<open>The log is cut after \<open>k\<close> entries, none of them uncommitted, and continued with \<open>es\<close>.\<close>

lemma log_replaced:
  assumes inv: "log_inv c" and same: "rc_snapshot c' = rc_snapshot c" "rc_commit_index c' = rc_commit_index c"
      "rc_shard_id c' = rc_shard_id c" and log: "rc_log c' = take k (rc_log c) @ es" and k: "k \<le> length (rc_log c)"
    and es: "numbered (unat (snapshot_index c) + k) es" "\<forall>e \<in> set es. entry_shard_id e = rc_shard_id c"
    and commit: "unat (rc_commit_index c) \<le> unat (snapshot_index c) + k"
  shows "committed_kept c c'" "unat (last_log_index c') = unat (snapshot_index c) + k + length es"
    "unat i \<le> unat (snapshot_index c) + k \<Longrightarrow> entry_at c' i = entry_at c i"
proof -
  have snap: "snapshot_index c' = snapshot_index c" using same by (simp add: snapshot_index_def)
  have num: "numbered (unat (snapshot_index c)) (rc_log c)" using inv by (simp add: log_inv_def)
  then have num': "numbered (unat (snapshot_index c')) (rc_log c')"
    using es(1) k numbered_take [OF num] by (simp add: snap log numbered_append min.absorb2)
  show last': "unat (last_log_index c') = unat (snapshot_index c) + k + length es"
    using unat_last_log_index [OF num'] k by (simp add: log snap min.absorb2)
  have entry: "entry_at c' i = entry_at c i" if "unat i \<le> unat (snapshot_index c) + k" for i
    using that k last' unat_last_log_index [OF num]
    by (auto simp: entry_at_numbered [OF num] entry_at_numbered [OF num'] snap log nth_append word_less_nat_alt word_le_nat_alt)
  then show "unat i \<le> unat (snapshot_index c) + k \<Longrightarrow> entry_at c' i = entry_at c i" .
  have "entry_shard_id e = rc_shard_id c" if "e \<in> set (rc_log c')" for e
    using that inv es(2) by (auto simp: log log_inv_def dest: in_set_takeD)
  then have "log_inv c'"
    using num' inv commit last' by (simp add: log_inv_def snap same word_le_nat_alt)
  then show "committed_kept c c'" using entry commit by (auto simp: committed_kept_def snap same word_le_nat_alt)
qed

lemma truncate_commit:
  assumes "log_inv c" and "rc_commit_index c < i"
  shows "rc_commit_index (core_truncate_from i c) = rc_commit_index c"
    "rc_log (core_truncate_from i c) = take (unat i - Suc (unat (snapshot_index c))) (rc_log c)"
    "rc_snapshot (core_truncate_from i c) = rc_snapshot c" "rc_shard_id (core_truncate_from i c) = rc_shard_id c"
proof -
  have "rc_commit_index c \<le> saturating_sub i 1"
    using assms(2) unat_minus_one [of i] by (cases "i = 0") (auto simp: saturating_sub_def word_le_nat_alt word_less_nat_alt)
  then show "rc_commit_index (core_truncate_from i c) = rc_commit_index c"
    using assms(1) by (simp add: core_truncate_from_def log_inv_def min.absorb1 max.absorb1)
qed (use assms(1) in \<open>simp_all add: core_truncate_from_def log_inv_def numbered_filter_less\<close>)

lemma truncate_kept:
  assumes "log_inv c" and "rc_commit_index c < i" and "i \<le> last_log_index c"
  shows "committed_kept c (core_truncate_from i c)"
proof -
  note t = truncate_commit [OF assms(1,2)]
  have last: "unat (last_log_index c) = unat (snapshot_index c) + length (rc_log c)" "snapshot_index c \<le> rc_commit_index c"
    using assms(1) by (simp_all add: log_inv_def unat_last_log_index)
  show ?thesis
    by (rule log_replaced(1) [OF assms(1) t(3,1,4), where es = "[]"])
      (use t(2) last assms(2,3) in \<open>auto simp: word_less_nat_alt word_le_nat_alt\<close>)
qed

text \<open>One turn of the loop that goes on: the entry is in the log afterwards and nothing up to it has changed.\<close>

definition entry_stored :: "log_entry \<Rightarrow> raft_core \<Rightarrow> bool" where
  "entry_stored e c \<longleftrightarrow> snapshot_index c < entry_index e \<longrightarrow>
     (\<exists>x. entry_at c (entry_index e) = Some x \<and> entry_term x = entry_term e)"

definition loop_kept :: "nat \<Rightarrow> raft_core \<Rightarrow> raft_core \<Rightarrow> bool" where
  "loop_kept b c c' \<longleftrightarrow> committed_kept c c' \<and> rc_snapshot c' = rc_snapshot c \<and> snapshot_index c' = snapshot_index c \<and>
     rc_commit_index c' = rc_commit_index c \<and> (\<forall>i. unat i \<le> b \<longrightarrow> entry_at c' i = entry_at c i)"

lemma loop_kept_refl: "log_inv c \<Longrightarrow> loop_kept b c c"
  by (simp add: loop_kept_def committed_kept_refl)

lemma loop_kept_trans: "loop_kept b c d \<Longrightarrow> loop_kept (Suc b) d c' \<Longrightarrow> loop_kept b c c'"
  unfolding loop_kept_def using committed_kept_trans by auto

lemma loop_kept_replaced:
  assumes inv: "log_inv c" and same: "rc_snapshot c' = rc_snapshot c" "rc_commit_index c' = rc_commit_index c"
      "rc_shard_id c' = rc_shard_id c" and log: "rc_log c' = take k (rc_log c) @ [e]"
    and b: "b = unat (snapshot_index c) + k" "unat (entry_index e) = Suc b" "unat (rc_commit_index c) \<le> b"
    and k: "k \<le> length (rc_log c)" and shard: "entry_shard_id e = rc_shard_id c"
  shows "loop_kept b c c' \<and> entry_stored e c' \<and> Suc b \<le> unat (last_log_index c')"
proof -
  have es: "numbered (unat (snapshot_index c) + k) [e]" "\<forall>x \<in> set [e]. entry_shard_id x = rc_shard_id c" using b shard by simp_all
  note r = log_replaced [OF inv same log k es b(3) [unfolded b(1)]]
  have snap: "snapshot_index c' = snapshot_index c" using same by (simp add: snapshot_index_def)
  have "numbered (unat (snapshot_index c')) (rc_log c')" using r(1) by (simp add: committed_kept_def log_inv_def)
  from entry_at_numbered [OF this, of "entry_index e"] have "entry_at c' (entry_index e) = Some e"
    using r(2) b k by (simp add: snap word_less_nat_alt word_le_nat_alt log nth_append min.absorb2)
  then show ?thesis using r b(1) same snap by (simp add: loop_kept_def entry_stored_def)
qed

lemma append_loop_Cons:
  assumes inv: "log_inv c" and e: "unat (entry_index e) = Suc b" and b: "b \<le> unat (last_log_index c)"
    and run: "append_loop (e # es) c = (r, c')"
  shows "(c' = c \<and> r \<noteq> Inr None) \<or>
    (\<exists>d. append_loop es d = (r, c') \<and> loop_kept b c d \<and> entry_stored e d \<and> Suc b \<le> unat (last_log_index d))"
proof -
  have num: "numbered (unat (snapshot_index c)) (rc_log c)" and le: "snapshot_index c \<le> rc_commit_index c"
      "rc_commit_index c \<le> last_log_index c" using inv by (simp_all add: log_inv_def)
  note last = unat_last_log_index [OF num] and at = entry_at_numbered [OF num, of "entry_index e"]
  note word = word_less_nat_alt word_le_nat_alt
  consider "entry_shard_id e \<noteq> rc_shard_id c"
    | "entry_shard_id e = rc_shard_id c" "entry_index e \<le> snapshot_index c"
    | "entry_shard_id e = rc_shard_id c" "\<not> entry_index e \<le> snapshot_index c" "entry_at c (entry_index e) = None"
    | x where "entry_shard_id e = rc_shard_id c" "\<not> entry_index e \<le> snapshot_index c" "entry_at c (entry_index e) = Some x"
    by (cases "entry_at c (entry_index e)") fastforce+
  then show ?thesis
  proof cases
    case 1
    then show ?thesis using run by auto
  next
    case 2
    then have "Suc b \<le> unat (last_log_index c)" using e le by (simp add: word)
    then show ?thesis using 2 run loop_kept_refl [OF inv] by (auto simp: entry_stored_def)
  next
    case 3
    let ?d = "c\<lparr>rc_log := rc_log c @ [e]\<rparr>"
    have b': "b = unat (last_log_index c)" using 3 at e b by (auto simp: word split: if_splits)
    have "loop_kept b c ?d \<and> entry_stored e ?d \<and> Suc b \<le> unat (last_log_index ?d)"
      by (rule loop_kept_replaced [OF inv, where k = "length (rc_log c)"]) (use 3 e b' last le in \<open>simp_all add: word\<close>)
    moreover have "append_loop es ?d = (r, c')" using 3 run by simp
    ultimately show ?thesis by blast
  next
    case (4 x)
    have in_log: "Suc b \<le> unat (last_log_index c)" using 4 at e by (simp add: word split: if_splits)
    show ?thesis
    proof (cases "entry_term x = entry_term e \<or> entry_index e \<le> rc_commit_index c")
      case True
      then show ?thesis
        using 4 run in_log loop_kept_refl [OF inv] by (auto simp: entry_stored_def split: if_splits)
    next
      case False
      let ?t = "core_truncate_from (entry_index e) c"
      let ?d = "?t\<lparr>rc_log := rc_log ?t @ [e]\<rparr>"
      have "rc_commit_index c < entry_index e" using False by (simp add: not_le)
      note t = truncate_commit [OF inv this]
      have "loop_kept b c ?d \<and> entry_stored e ?d \<and> Suc b \<le> unat (last_log_index ?d)"
        by (rule loop_kept_replaced [OF inv, where k = "unat (entry_index e) - Suc (unat (snapshot_index c))"])
          (use t 4 e False last in_log in \<open>simp_all add: word\<close>)
      moreover have "append_loop es ?d = (r, c')" using 4 False run by (simp add: Let_def)
      ultimately show ?thesis by blast
    qed
  qed
qed

lemma append_loop_kept:
  assumes "log_inv c" and "numbered b es" and "b \<le> unat (last_log_index c)" and "append_loop es c = (r, c')"
  shows "loop_kept b c c' \<and> (r = Inr None \<longrightarrow> (\<forall>e \<in> set es. entry_stored e c'))"
  using assms
proof (induction es arbitrary: b c)
  case Nil
  then show ?case by (simp add: loop_kept_refl)
next
  case (Cons e es)
  have e: "unat (entry_index e) = Suc b" "numbered (Suc b) es" using Cons.prems(2) by simp_all
  from append_loop_Cons [OF Cons.prems(1) e(1) Cons.prems(3,4)] show ?case
  proof (elim disjE exE conjE)
    fix d
    assume d: "append_loop es d = (r, c')" "loop_kept b c d" "entry_stored e d" "Suc b \<le> unat (last_log_index d)"
    have "log_inv d" using d(2) by (simp add: loop_kept_def committed_kept_def)
    from Cons.IH [OF this e(2) d(4,1)] have IH: "loop_kept (Suc b) d c'" "r = Inr None \<longrightarrow> (\<forall>e \<in> set es. entry_stored e c')"
      by simp_all
    moreover have "entry_stored e c'" using d(3) IH(1) e(1) by (simp add: entry_stored_def loop_kept_def)
    ultimately show ?case using loop_kept_trans [OF d(2)] by simp
  qed (use Cons.prems(1) in \<open>simp add: loop_kept_refl\<close>)
qed

lemma append_finish_kept:
  assumes inv: "log_inv c" and run: "append_finish lc c = (r, c')"
  shows "committed_kept c c' \<and> rc_snapshot c' = rc_snapshot c \<and> last_log_index c' = last_log_index c \<and> (\<forall>i. entry_at c' i = entry_at c i) \<and>
    rc_commit_index c' = max (rc_commit_index c) (min lc (last_log_index c)) \<and> r = append_reply True None None c'"
proof -
  have num: "numbered (unat (snapshot_index c)) (rc_log c)" using inv by (simp add: log_inv_def)
  have c': "c' = c\<lparr>rc_commit_index := max (rc_commit_index c) (min lc (last_log_index c))\<rparr>" "r = append_reply True None None c'"
    using run inv by (auto simp: append_finish_def Let_def numbered_sort [OF num] log_inv_def max_def min_def)
  then show ?thesis
    using inv by (auto simp: committed_kept_def log_inv_def snapshot_index_def last_log_index_def entry_at_def le_max_iff_disj)
qed

lemma append_loop_reply: "append_loop es c = (Inr (Some resp), c') \<Longrightarrow> \<exists>i t. resp = append_reply False i t c'"
  by (induction es c rule: append_loop.induct) (auto simp: Let_def split: if_splits option.splits)

definition previous_matches :: "append_entries_request \<Rightarrow> raft_core \<Rightarrow> bool" where
  "previous_matches req c \<longleftrightarrow> ae_prev_log_index req = 0 \<or>
     (\<exists>x. entry_at c (ae_prev_log_index req) = Some x \<and> entry_term x = ae_prev_log_term req) \<or>
     (ae_prev_log_index req = snapshot_index c \<and> ae_prev_log_term req = snapshot_term c)"

text \<open>What a leader may conclude from the reply: with success, the server has every entry of the request.\<close>

definition append_replied :: "append_entries_request \<Rightarrow> raft_core \<Rightarrow> database_error + append_entries_response \<Rightarrow> raft_core \<Rightarrow> bool" where
  "append_replied req c r c' \<longleftrightarrow> (case r of
     Inr resp \<Rightarrow> aer_match_index resp = last_log_index c' \<and>
       (aer_success resp \<longrightarrow> previous_matches req c' \<and> (\<forall>e \<in> set (ae_entries req). entry_stored e c') \<and>
         rc_commit_index c' = max (rc_commit_index c) (min (ae_leader_commit req) (last_log_index c')))
   | Inl _ \<Rightarrow> True)"

lemma append_matching_kept:
  assumes inv: "log_inv c" and es: "numbered (unat (ae_prev_log_index req)) (ae_entries req)"
    and prev: "ae_prev_log_index req \<le> last_log_index c" "previous_matches req c"
    and run: "append_matching req c f = (r, c', f')"
  shows "committed_kept c c' \<and> append_replied req c r c'"
proof -
  let ?b = "unat (ae_prev_log_index req)"
  obtain q d where loop: "append_loop (ae_entries req) c = (q, d)" by fastforce
  from append_loop_kept [OF inv es _ loop] prev(1)
  have d: "loop_kept ?b c d" "q = Inr None \<longrightarrow> (\<forall>e \<in> set (ae_entries req). entry_stored e d)"
    by (simp_all add: word_le_nat_alt)
  have k: "committed_kept c d" "log_inv d" using d(1) by (simp_all add: loop_kept_def committed_kept_def)
  consider e where "q = Inl e" | resp where "q = Inr (Some resp)" | "q = Inr None"
    by (metis (no_types) option.exhaust sum.exhaust)
  then show ?thesis
  proof cases
    case (2 resp)
    have "aer_match_index resp = last_log_index d \<and> \<not> aer_success resp"
      using append_loop_reply [OF loop [unfolded 2]] by (auto simp: append_reply_def)
    then show ?thesis using run loop 2 k by (auto simp: append_matching_def append_replied_def)
  next
    case 3
    obtain resp where fin: "append_finish (ae_leader_commit req) d = (resp, c')" "r = Inr resp"
      using run loop 3 by (auto simp: append_matching_def split: prod.splits)
    note F = append_finish_kept [OF k(2) fin(1)]
    have snap: "snapshot_index c' = snapshot_index d" "snapshot_term c' = snapshot_term c" "snapshot_index c' = snapshot_index c"
      using F d(1) by (simp_all add: snapshot_index_def snapshot_term_def loop_kept_def)
    have "previous_matches req c'" using prev(2) F d(1) snap by (simp add: previous_matches_def loop_kept_def)
    moreover have "\<forall>e \<in> set (ae_entries req). entry_stored e c'" using d(2) 3 F snap by (simp add: entry_stored_def)
    ultimately show ?thesis
      using F d(1) fin(2) committed_kept_trans [OF k(1)] by (simp add: append_replied_def append_reply_def loop_kept_def)
  qed (use run loop k in \<open>auto simp: append_matching_def append_replied_def\<close>)
qed

lemma append_checked_kept:
  assumes inv: "log_inv c" and es: "numbered (unat (ae_prev_log_index req)) (ae_entries req)"
    and run: "append_checked req c f = (r, c', f')"
  shows "committed_kept c c' \<and> append_replied req c r c'"
proof -
  let ?p = "ae_prev_log_index req"
  have num: "numbered (unat (snapshot_index c)) (rc_log c)" and le: "snapshot_index c \<le> last_log_index c"
    using inv by (auto simp: log_inv_def)
  note at = entry_at_numbered [OF num, of ?p]
  consider "previous_matches req c" | "\<not> previous_matches req c" "entry_at c ?p = None"
    | x where "\<not> previous_matches req c" "entry_at c ?p = Some x" by (cases "entry_at c ?p") auto
  then show ?thesis
  proof cases
    case 1
    then have "append_matching req c f = (r, c', f')" "?p \<le> last_log_index c"
      using run at le by (auto simp: previous_matches_def append_checked_def split: option.splits if_splits)
    with append_matching_kept [OF inv es] 1 show ?thesis by blast
  next
    case 2
    then show ?thesis
      using run committed_kept_refl [OF inv]
      by (auto simp: previous_matches_def append_checked_def append_replied_def append_reply_def)
  next
    case (3 x)
    have "?p \<le> last_log_index c" using 3(2) at by (auto split: if_splits)
    then have "rc_commit_index c < ?p \<Longrightarrow> committed_kept c (core_truncate_from ?p c)" using truncate_kept [OF inv] by blast
    then show ?thesis
      using run 3 committed_kept_refl [OF inv]
      by (auto simp: previous_matches_def append_checked_def append_replied_def append_reply_def Let_def not_le split: if_splits)
  qed
qed

lemma append_replied_cong: "rc_commit_index c = rc_commit_index d \<Longrightarrow> append_replied req d r c' \<Longrightarrow> append_replied req c r c'"
  by (cases r) (simp_all add: append_replied_def)

lemma same_log_leader: "same_log c d \<Longrightarrow> same_log c (d\<lparr>rc_leader_id := l\<rparr>)"
  by (simp add: same_log_def)

text \<open>A handler that first steps down, or not, and then works on the log.\<close>

lemma after_step_down [consumes 2, case_names failed went_on]:
  assumes "andthen (if P then step_down t c f else (Inr (), c, f)) k = (r, c', f')" and "log_inv c"
  obtains "same_log c c'" and "\<exists>e. r = Inl e" | d g where "same_log c d" and "log_inv d" and "k () d g = (r, c', f')"
proof -
  obtain q d g where q: "(if P then step_down t c f else (Inr (), c, f)) = (q, d, g)" by (metis prod_cases3)
  have "same_log c d" using q same_log_step_down [of c t f] by (auto simp: same_log_def split: if_splits)
  moreover from this have "log_inv d" using assms(2) same_logD(4) by blast
  ultimately show thesis using that assms(1) unfolding q by (cases q) (auto simp: andthen_def)
qed

lemma append_entries_kept:
  assumes inv: "log_inv c" and es: "numbered (unat (ae_prev_log_index req)) (ae_entries req)"
    and run: "append_entries req c f = (r, c', f')"
  shows "committed_kept c c' \<and> append_replied req c r c'"
proof (cases "ae_term req < current_term c")
  case True
  then show ?thesis
    using run committed_kept_refl [OF inv] by (auto simp: append_entries_def append_replied_def append_reply_def)
next
  case False
  with run have "andthen (if current_term c < ae_term req \<or> rc_role c \<noteq> Follower then step_down (ae_term req) c f else (Inr (), c, f))
      (\<lambda>_ c f. append_checked req (c\<lparr>rc_leader_id := Some (ae_leader_id req)\<rparr>) f) = (r, c', f')"
    by (simp add: append_entries_def)
  from this inv show ?thesis
  proof (cases rule: after_step_down)
    case failed
    then show ?thesis using same_log_kept [OF _ inv] by (auto simp: append_replied_def)
  next
    case (went_on d g)
    let ?d = "d\<lparr>rc_leader_id := Some (ae_leader_id req)\<rparr>"
    have d: "same_log c ?d" "log_inv ?d" using same_log_leader [OF went_on(1)] same_logD(4) inv by blast+
    from append_checked_kept [OF d(2) es went_on(3)] show ?thesis
      using committed_kept_trans [OF same_log_kept [OF d(1) inv]] append_replied_cong [of c ?d] d(1)
      by (auto simp: same_log_def)
  qed
qed

lemma unat_saturating_suc: "a \<noteq> - 1 \<Longrightarrow> unat (saturating_add a 1) = Suc (unat a)" for a :: u64
proof -
  assume "a \<noteq> - 1"
  then have "unat a < unat (saturating_add a 1)" using saturating_add_one_gt [of a] by (simp add: word_less_nat_alt)
  then show ?thesis by (simp add: unat_saturating_add)
qed

section \<open>Snapshots, local entries and commitment\<close>

lemma snapshot_replaced:
  assumes inv: "log_inv c" and s: "snapshot_index c \<le> n"
    and c': "snapshot_index c' = n" "rc_log c' = filter (\<lambda>e. n < entry_index e) (rc_log c)"
      "rc_commit_index c' = max (rc_commit_index c) n" "rc_shard_id c' = rc_shard_id c"
  shows "committed_kept c c'"
proof -
  let ?b = "unat (snapshot_index c)"
  have num: "numbered ?b (rc_log c)" using inv by (simp add: log_inv_def)
  have log: "rc_log c' = drop (unat n - ?b) (rc_log c)" using c'(2) numbered_filter_greater [OF num] by simp
  have num': "numbered (unat (snapshot_index c')) (rc_log c')"
    using numbered_drop [OF num, of "unat n - ?b"] s
    by (cases "unat n - ?b \<le> length (rc_log c)") (auto simp: log c'(1) word_le_nat_alt)
  note last = unat_last_log_index [OF num] unat_last_log_index [OF num']
  have max_last: "unat (last_log_index c') = max (unat (last_log_index c)) (unat n)"
    using last s by (auto simp: log c'(1) word_le_nat_alt)
  have "entry_at c' i = entry_at c i" if "n < i" "i \<le> rc_commit_index c" for i
    using that s inv max_last last
    by (auto simp: entry_at_numbered [OF num] entry_at_numbered [OF num'] c'(1) log log_inv_def word_le_nat_alt word_less_nat_alt)
  moreover have "log_inv c'"
    using num' inv max_last s c'(3) by (auto simp: log_inv_def c'(1,4) log word_le_nat_alt max_def dest: in_set_dropD)
  ultimately show ?thesis using c' s by (auto simp: committed_kept_def)
qed

lemma install_snapshot_kept:
  assumes inv: "log_inv c" and run: "install_snapshot req c f = (r, c', f')"
  shows "committed_kept c c'"
proof (cases "is_term req < current_term c \<or> sn_shard_id (is_metadata req) \<noteq> rc_shard_id c")
  case True
  then show ?thesis using run committed_kept_refl [OF inv] by (auto simp: install_snapshot_def split: if_splits)
next
  case False
  note run [unfolded install_snapshot_def]
  moreover have "\<not> is_term req < current_term c" "sn_shard_id (is_metadata req) = rc_shard_id c" using False by simp_all
  ultimately have "andthen (if current_term c < is_term req \<or> rc_role c \<noteq> Follower then step_down (is_term req) c f else (Inr (), c, f))
      (\<lambda>_ c f. let c1 = c\<lparr>rc_leader_id := Some (is_leader_id req)\<rparr>;
                    c2 = (if snapshot_index c1 \<le> sn_last_included_index (is_metadata req)
                          then let d = compact_log_through_snapshot (c1\<lparr>rc_snapshot := Some (is_metadata req)\<rparr>)
                               in d\<lparr>rc_commit_index := max (rc_commit_index d) (snapshot_index d)\<rparr>
                          else c1)
                in (Inr \<lparr>isr_term = current_term c2, isr_success = True, isr_last_included_index = snapshot_index c2\<rparr>, c2, f)) = (r, c', f')"
    by simp
  from this inv show ?thesis
  proof (cases rule: after_step_down)
    case failed
    then show ?thesis using same_log_kept [OF _ inv] by blast
  next
    case (went_on d g)
    let ?n = "sn_last_included_index (is_metadata req)"
    have "committed_kept d c'"
    proof (cases "snapshot_index d \<le> ?n")
      case True
      then show ?thesis
        using went_on(3)
        by (intro snapshot_replaced [OF went_on(2), of ?n]) (auto simp: Let_def snapshot_index_def compact_log_through_snapshot_def)
    next
      case False
      then have "same_log d c'" using went_on(3) by (auto simp: Let_def snapshot_index_def same_log_def)
      then show ?thesis using same_log_kept went_on(2) by blast
    qed
    then show ?thesis using committed_kept_trans [OF same_log_kept [OF went_on(1) inv]] by blast
  qed
qed

lemma compact_kept:
  assumes "log_inv c" and "compact_log_to_snapshot s c = Inr c'" and "snapshot_index c \<le> sn_last_included_index s"
  shows "committed_kept c c'"
  using assms
  by (intro snapshot_replaced [of c "sn_last_included_index s"])
    (auto simp: compact_log_to_snapshot_def compact_log_through_snapshot_def snapshot_index_def max_def not_less split: if_splits)

lemma advance_kept:
  assumes "log_inv c"
  shows "committed_kept c (advance_leader_commit_index c)"
proof (cases "advance_leader_commit_index c = c")
  case False
  let ?q = "quorum_index c"
  have q: "advance_leader_commit_index c = c\<lparr>rc_commit_index := ?q\<rparr>" "rc_commit_index c < ?q" "entry_at c ?q \<noteq> None"
    using False by (auto simp: advance_leader_commit_index_def Let_def split: if_splits option.splits)
  have num: "numbered (unat (snapshot_index c)) (rc_log c)" using assms by (simp add: log_inv_def)
  have "?q \<le> last_log_index c" using q(3) entry_at_numbered [OF num, of ?q] by (simp split: if_splits)
  then show ?thesis
    unfolding q(1) using assms q(2)
    by (auto simp: committed_kept_def log_inv_def snapshot_index_def last_log_index_def entry_at_def)
qed (simp add: committed_kept_refl assms)

lemma push_local_kept:
  assumes inv: "log_inv c" and e: "entry_index e = saturating_add (last_log_index c) 1" "entry_shard_id e = rc_shard_id c"
    and room: "last_log_index c \<noteq> - 1"
  shows "committed_kept c (push_local e c)"
proof -
  let ?d = "c\<lparr>rc_log := rc_log c @ [e], rc_match_indexes := fmupd (rc_server_id c) (entry_index e) (rc_match_indexes c)\<rparr>"
  have last: "unat (last_log_index c) = unat (snapshot_index c) + length (rc_log c)" "rc_commit_index c \<le> last_log_index c"
    using inv by (simp_all add: log_inv_def unat_last_log_index)
  have "unat (entry_index e) = Suc (unat (last_log_index c))" using room unfolding e(1) by (rule unat_saturating_suc)
  then have d: "committed_kept c ?d"
    by (intro log_replaced(1) [OF inv, where k = "length (rc_log c)" and es = "[e]"])
      (use e(2) last in \<open>simp_all add: word_le_nat_alt\<close>)
  then have "log_inv ?d" by (simp add: committed_kept_def)
  from committed_kept_trans [OF d advance_kept [OF this]] show ?thesis by (simp add: push_local_def)
qed

section \<open>Every handler\<close>

text \<open>
  What can happen to a server between two starts, each message and each call with its arguments. The server after
  an event is what the handler leaves, whatever it answers; a call that is refused leaves the server as it was.
\<close>

datatype log_event =
    EntriesReceived append_entries_request
  | SnapshotReceived install_snapshot_request
  | Compacted raft_snapshot_metadata
  | LocalAppended command
  | ExistingAppended log_entry
  | MatchRecorded instant server_id log_index
  | ElectionStarted
  | VoteRequested request_vote_request
  | VoteReplied instant server_id request_vote_response

definition kept_or :: "raft_core \<Rightarrow> ('e + 'a) \<Rightarrow> ('a \<Rightarrow> raft_core) \<Rightarrow> raft_core" where
  "kept_or c r core = (case r of Inl _ \<Rightarrow> c | Inr x \<Rightarrow> core x)"

fun log_handle :: "log_event \<Rightarrow> raft_core \<times> fs \<Rightarrow> raft_core \<times> fs" where
  "log_handle (EntriesReceived req) (c, f) = snd (append_entries req c f)"
| "log_handle (SnapshotReceived req) (c, f) = snd (install_snapshot req c f)"
| "log_handle (Compacted s) (c, f) = (kept_or c (compact_log_to_snapshot s c) id, f)"
| "log_handle (LocalAppended cmd) (c, f) = (kept_or c (append_local_entry cmd c) snd, f)"
| "log_handle (ExistingAppended e) (c, f) = (kept_or c (append_existing_local_entry e c) snd, f)"
| "log_handle (MatchRecorded now s i) (c, f) = (kept_or c (record_replication_match now s i c) snd, f)"
| "log_handle ElectionStarted (c, f) = snd (start_election c f)"
| "log_handle (VoteRequested req) (c, f) = snd (request_vote req c f)"
| "log_handle (VoteReplied now voter resp) (c, f) = snd (record_vote_response now voter resp c f)"

definition log_run :: "log_event list \<Rightarrow> raft_core \<times> fs \<Rightarrow> raft_core \<times> fs" where
  "log_run evs st = fold log_handle evs st"

text \<open>
  What \<open>RaftCore\<close> does not check and relies on: the entries of a request carry consecutive indexes after its
  previous index, a compaction does not go back behind the snapshot, and there is an index left for a local entry.
\<close>

fun event_expected :: "log_event \<Rightarrow> raft_core \<Rightarrow> bool" where
  "event_expected (EntriesReceived req) c = numbered (unat (ae_prev_log_index req)) (ae_entries req)"
| "event_expected (Compacted s) c = (snapshot_index c \<le> sn_last_included_index s)"
| "event_expected (LocalAppended cmd) c = (last_log_index c \<noteq> - 1)"
| "event_expected (ExistingAppended e) c = (last_log_index c \<noteq> - 1)"
| "event_expected _ c = True"

fun run_expected :: "log_event list \<Rightarrow> raft_core \<times> fs \<Rightarrow> bool" where
  "run_expected [] st = True"
| "run_expected (ev # evs) st \<longleftrightarrow> event_expected ev (fst st) \<and> run_expected evs (log_handle ev st)"

lemma same_log_refl: "same_log c c"
  by (simp add: same_log_def)

lemma same_log_trans: "same_log c d \<Longrightarrow> same_log d c' \<Longrightarrow> same_log c c'"
  by (simp add: same_log_def)

lemma same_log_save: "same_log c d \<Longrightarrow> same_log c (fst (snd (save_state d f)))"
  by (simp add: save_state_def)

lemma same_log_andthen:
  assumes "andthen m k = (r, c', f')" and "same_log c (fst (snd m))" and "\<And>x d g. same_log c d \<Longrightarrow> same_log c (fst (snd (k x d g)))"
  shows "same_log c c'"
  using assms by (cases m) (auto simp: andthen_def split: sum.splits, metis fst_conv snd_conv)

lemma same_log_elect: "start_election c f = (r, c', f') \<Longrightarrow> same_log c c'"
  unfolding start_election_def by (erule same_log_andthen) (auto intro!: same_log_save simp: same_log_def)

lemma same_log_grant: "same_log c d \<Longrightarrow> same_log c (fst (snd (grant_vote req d g)))"
  by (auto simp: grant_vote_def Let_def andthen_def save_state_def same_log_def split: sum.splits)

lemma same_log_vote: "request_vote req c f = (r, c', f') \<Longrightarrow> same_log c c'"
  unfolding request_vote_def
  by (auto simp: same_log_refl same_log_step_down same_log_grant elim!: same_log_andthen split: if_splits)

lemma same_log_become_leader: "same_log c (become_leader now c)"
  by (simp add: become_leader_def refresh_leader_lease_if_quorum_def same_log_def)

lemma same_log_reply:
  assumes "record_vote_response now voter resp c f = (r, c', f')"
  shows "same_log c c'"
proof (cases "current_term c < rvr_term resp")
  case True
  with assms show ?thesis
    by (auto simp: record_vote_response_def same_log_step_down elim!: same_log_andthen)
next
  case False
  with assms show ?thesis
    using same_log_become_leader by (auto simp: record_vote_response_def Let_def same_log_def split: if_splits)
qed

text \<open>
  The contract of a message handler, under what it may expect of the message: the log stays well formed and what
  was committed stays.
\<close>

locale log_handler =
  fixes handle :: "raft_core \<Rightarrow> fs \<Rightarrow> 'a handled" and expected :: bool
  assumes kept: "expected \<Longrightarrow> log_inv c \<Longrightarrow> handle c f = (r, c', f') \<Longrightarrow> committed_kept c c'"
begin

text \<open>The same message handled twice, as a retry does.\<close>

lemma kept_twice:
  assumes "expected" and "log_inv c" and "handle c f = (r, d, g)" and "handle d g = (r', c', f')"
  shows "committed_kept c c'"
proof -
  have d: "committed_kept c d" using kept [OF assms(1-3)] .
  then have "log_inv d" by (simp add: committed_kept_def)
  from committed_kept_trans [OF d kept [OF assms(1) this assms(4)]] show ?thesis .
qed

end

interpretation log_append: log_handler "append_entries req" "numbered (unat (ae_prev_log_index req)) (ae_entries req)" for req
  by unfold_locales (use append_entries_kept in blast)

interpretation log_install: log_handler "install_snapshot req" True for req
  by unfold_locales (use install_snapshot_kept in blast)

interpretation log_elect: log_handler start_election True
  by unfold_locales (use same_log_elect same_log_kept in blast)

interpretation log_vote: log_handler "request_vote req" True for req
  by unfold_locales (use same_log_vote same_log_kept in blast)

interpretation log_reply: log_handler "record_vote_response now voter resp" True for now voter resp
  by unfold_locales (use same_log_reply same_log_kept in blast)

lemma matched_kept:
  assumes "log_inv c" and "record_replication_match now s i c = Inr (j, c')"
  shows "committed_kept c c'"
proof -
  let ?c = "c\<lparr>rc_match_indexes := fmupd s i (rc_match_indexes c)\<rparr>"
  let ?d = "advance_leader_commit_index ?c"
  have c: "same_log c ?c" by (simp add: same_log_def)
  then have "log_inv ?c" using assms(1) same_logD(4) by blast
  then have d: "committed_kept ?c ?d" by (rule advance_kept)
  have "same_log ?d c'"
    using assms(2) by (auto simp: record_replication_match_def Let_def refresh_leader_lease_if_quorum_def same_log_def split: if_splits)
  then have "committed_kept ?d c'" using d same_log_kept by (auto simp: committed_kept_def)
  with committed_kept_trans [OF committed_kept_trans [OF same_log_kept [OF c assms(1)] d]] show ?thesis .
qed

lemma kept_or_kept:
  assumes "log_inv c" and "\<And>x. r = Inr x \<Longrightarrow> committed_kept c (core x)"
  shows "committed_kept c (kept_or c r core)"
  using assms by (cases r) (simp_all add: kept_or_def committed_kept_refl)

lemma log_handle_kept:
  assumes inv: "log_inv c" and "event_expected ev c"
  shows "committed_kept c (fst (log_handle ev (c, f)))"
proof (cases ev)
  case (EntriesReceived req)
  then show ?thesis using assms log_append.kept [of req c f] by (cases "append_entries req c f") simp
next
  case (SnapshotReceived req)
  then show ?thesis using log_install.kept [OF TrueI inv, of req f] by (cases "install_snapshot req c f") simp
next
  case (Compacted s)
  then show ?thesis using assms compact_kept [OF inv] by (auto intro!: kept_or_kept)
next
  case (LocalAppended cmd)
  then show ?thesis
    using assms(2) push_local_kept [OF inv]
    by (auto intro!: kept_or_kept [OF inv] simp: append_local_entry_def new_log_entry_def new_with_timestamp_def
        new_with_metadata_def Let_def split: if_splits)
next
  case (ExistingAppended e)
  then show ?thesis
    using assms(2) push_local_kept [OF inv]
    by (auto intro!: kept_or_kept [OF inv] simp: append_existing_local_entry_def Let_def split: if_splits)
next
  case (MatchRecorded now s i)
  then show ?thesis using matched_kept [OF inv] by (auto intro!: kept_or_kept [OF inv])
next
  case ElectionStarted
  then show ?thesis using log_elect.kept [OF TrueI inv, of f] by (cases "start_election c f") simp
next
  case (VoteRequested req)
  then show ?thesis using log_vote.kept [OF TrueI inv, of req f] by (cases "request_vote req c f") simp
next
  case (VoteReplied now voter resp)
  then show ?thesis
    using log_reply.kept [OF TrueI inv, of now voter resp f] by (cases "record_vote_response now voter resp c f") simp
qed

lemma log_run_simps [simp]: "log_run [] st = st" "log_run (ev # evs) st = log_run evs (log_handle ev st)"
  by (simp_all add: log_run_def)

lemma log_run_kept:
  assumes "log_inv (fst st)" and "run_expected evs st"
  shows "committed_kept (fst st) (fst (log_run evs st))"
  using assms
proof (induction evs arbitrary: st)
  case Nil
  then show ?case by (simp add: committed_kept_refl)
next
  case (Cons ev evs)
  have k: "committed_kept (fst st) (fst (log_handle ev st))"
    using log_handle_kept [of "fst st" ev "snd st"] Cons.prems by simp
  then have "log_inv (fst (log_handle ev st))" by (simp add: committed_kept_def)
  then show ?case using committed_kept_trans [OF k] Cons by simp
qed

text \<open>
  The condition on compactions is needed: an older snapshot moves the server's snapshot back, and the index after
  it is committed and has no entry.
\<close>

lemma older_compaction_leaves_gap:
  assumes inv: "log_inv c" and s: "sn_shard_id s = rc_shard_id c" "sn_last_included_index s < snapshot_index c"
  shows "\<exists>c'. compact_log_to_snapshot s c = Inr c' \<and> snapshot_index c' < snapshot_index c \<and> \<not> log_inv c' \<and>
    saturating_add (snapshot_index c') 1 \<le> rc_commit_index c' \<and> entry_at c' (saturating_add (snapshot_index c') 1) = None"
proof -
  let ?n = "sn_last_included_index s"
  define c' where "c' = compact_log_through_snapshot (c\<lparr>rc_snapshot := Some s\<rparr>)"
  have num: "numbered (unat (snapshot_index c)) (rc_log c)" and commit: "snapshot_index c \<le> rc_commit_index c"
    using inv by (simp_all add: log_inv_def)
  have run: "compact_log_to_snapshot s c = Inr c'"
    using s commit by (auto simp: compact_log_to_snapshot_def c'_def)
  have c': "snapshot_index c' = ?n" "rc_commit_index c' = rc_commit_index c" "rc_log c' = rc_log c"
    using s(2) numbered_filter_greater [OF num, of ?n]
    by (simp_all add: c'_def compact_log_through_snapshot_def snapshot_index_def word_less_nat_alt)
  have n: "unat (saturating_add ?n 1) = Suc (unat ?n)" using s(2) by (intro unat_saturating_suc) auto
  then have le: "saturating_add ?n 1 \<le> snapshot_index c" using s(2) by (simp add: word_le_nat_alt word_less_nat_alt)
  have none: "entry_at c' (saturating_add ?n 1) = None"
    using leD [OF le] entry_at_numbered [OF num, of "saturating_add ?n 1"] by (simp add: entry_at_def c'(3))
  have "\<not> log_inv c'"
  proof
    assume inv': "log_inv c'"
    then have "rc_commit_index c \<le> last_log_index c'" by (simp add: log_inv_def c')
    then have "saturating_add ?n 1 \<le> last_log_index c'" "?n < saturating_add ?n 1"
      using le commit n by (auto simp: word_less_nat_alt)
    then show False using inv' entry_at_numbered [of c' "saturating_add ?n 1"] none by (simp add: log_inv_def c'(1))
  qed
  then show ?thesis using run c' s(2) none le commit by auto
qed

section \<open>The commit rule\<close>

definition voters_at :: "raft_core \<Rightarrow> log_index \<Rightarrow> server_id fset" where
  "voters_at c i = ffilter (\<lambda>s. i \<le> match_of c s) (all_voters (rc_membership c))"

lemma has_majority_mono: "has_majority V A \<Longrightarrow> A |\<subseteq>| B \<Longrightarrow> has_majority V B"
  unfolding has_majority_def by (erule order_trans) (auto intro: fcard_mono)

lemma has_quorum_mono: "has_quorum m A \<Longrightarrow> A |\<subseteq>| B \<Longrightarrow> has_quorum m B"
  by (auto simp: has_quorum_def split: option.splits intro: has_majority_mono)

lemma has_quorum_nonempty: "has_quorum m A \<Longrightarrow> A \<noteq> {||}"
  by (auto simp: has_quorum_def has_majority_def fcard_fempty)

lemma find_first_largest:
  "sorted_wrt (\<ge>) xs \<Longrightarrow> find P xs = Some q \<Longrightarrow> P q \<and> (\<forall>x \<in> set xs. P x \<longrightarrow> x \<le> q)" for xs :: "'a::linorder list"
  by (induction xs) (auto split: if_splits)

lemma find_SomeD: "find P xs = Some x \<Longrightarrow> P x \<and> x \<in> set xs"
  by (auto simp: find_Some_iff)

lemma quorum_index_find:
  "quorum_index c = (case find (\<lambda>i. has_quorum (rc_membership c) (voters_at c i))
     (rev (sort (map (match_of c) (sorted_list_of_fset (all_voters (rc_membership c)))))) of Some i \<Rightarrow> i | None \<Rightarrow> 0)"
proof -
  have "fset_of_list (filter (\<lambda>s. i \<le> match_of c s) (sorted_list_of_fset (all_voters (rc_membership c)))) = voters_at c i" for i
    by (rule fset_eqI) (simp add: voters_at_def fset_of_list_elem)
  then show ?thesis by (simp add: quorum_index_def Let_def)
qed

lemma quorum_index_quorum: "quorum_index c \<noteq> 0 \<Longrightarrow> has_quorum (rc_membership c) (voters_at c (quorum_index c))"
  unfolding quorum_index_find by (auto dest: find_SomeD split: option.splits)

text \<open>The least index among the voters that reached \<open>i\<close> is one of the candidates, and as good a quorum.\<close>

lemma quorum_candidate:
  assumes "has_quorum (rc_membership c) (voters_at c i)"
  obtains s where "s |\<in>| all_voters (rc_membership c)" "i \<le> match_of c s"
    "has_quorum (rc_membership c) (voters_at c (match_of c s))"
proof -
  let ?M = "match_of c ` fset (voters_at c i)"
  have M: "?M \<noteq> {}" "finite ?M" using has_quorum_nonempty [OF assms] by (auto simp: bot_fset.rep_eq fset_eq_iff)
  from Min_in [OF M(2,1)] obtain s where s: "s |\<in>| voters_at c i" "match_of c s = Min ?M" by auto
  have "voters_at c i |\<subseteq>| voters_at c (match_of c s)" using s(2) M(2) by (auto simp: voters_at_def)
  then show thesis using that s(1) has_quorum_mono [OF assms] by (auto simp: voters_at_def)
qed

lemma quorum_index_largest:
  assumes "has_quorum (rc_membership c) (voters_at c i)"
  shows "i \<le> quorum_index c"
proof -
  let ?P = "\<lambda>i. has_quorum (rc_membership c) (voters_at c i)"
  let ?xs = "rev (sort (map (match_of c) (sorted_list_of_fset (all_voters (rc_membership c)))))"
  obtain s where s: "match_of c s \<in> set ?xs" "i \<le> match_of c s" "?P (match_of c s)"
    using quorum_candidate [OF assms] by (metis (no_types, lifting) image_eqI set_map set_rev set_sort sorted_list_of_fset_simps(1))
  then obtain q where q: "find ?P ?xs = Some q" by (metis find_None_iff not_None_eq)
  have "sorted_wrt (\<ge>) ?xs" by (simp add: sorted_wrt_rev)
  from find_first_largest [OF this q] s have "i \<le> q" by (meson order_trans)
  then show ?thesis by (simp add: quorum_index_find q)
qed

lemma voters_at_antimono: "i \<le> j \<Longrightarrow> voters_at c j |\<subseteq>| voters_at c i"
  by (auto simp: voters_at_def)

lemma quorum_index_iff: "i \<noteq> 0 \<Longrightarrow> has_quorum (rc_membership c) (voters_at c i) \<longleftrightarrow> i \<le> quorum_index c"
proof
  assume i: "i \<noteq> 0" "i \<le> quorum_index c"
  then have "quorum_index c \<noteq> 0" by auto
  from has_quorum_mono [OF quorum_index_quorum [OF this] voters_at_antimono [OF i(2)]]
  show "has_quorum (rc_membership c) (voters_at c i)" .
qed (rule quorum_index_largest)

section \<open>Requests without entries\<close>

lemma append_entries_snapshot: "snapshot_index (fst (snd (append_entries req c f))) = snapshot_index c"
proof -
  have loop: "rc_snapshot (snd (append_loop es c)) = rc_snapshot c" for es c
    by (induction es c rule: append_loop.induct) (auto simp: Let_def core_truncate_from_def split: if_splits option.splits)
  have "rc_snapshot (fst (snd (append_matching req c f))) = rc_snapshot c" for c f
    using loop [of "ae_entries req" c]
    by (auto simp: append_matching_def append_finish_def Let_def split: prod.splits sum.splits option.splits)
  then have "rc_snapshot (fst (snd (append_checked req c f))) = rc_snapshot c" for c f
    by (auto simp: append_checked_def Let_def core_truncate_from_def split: option.splits)
  moreover have "rc_snapshot (fst (snd (step_down t c f))) = rc_snapshot c" for t
    using same_log_step_down [of c t f] by (simp add: same_log_def)
  ultimately have "rc_snapshot (fst (snd (append_entries req c f))) = rc_snapshot c"
    by (auto simp: append_entries_def andthen_def split: prod.splits sum.splits) (metis fst_conv snd_conv)+
  then show ?thesis by (simp add: snapshot_index_def)
qed

lemma append_without_entries:
  assumes inv: "log_inv c" and req: "rc_role c = Follower" "ae_term req = current_term c" "ae_entries req = []"
    and prev: "previous_matches req c"
  shows "\<exists>c'. append_entries req c f = (Inr (append_reply True None None c'), c', f) \<and>
    committed_kept c c' \<and> snapshot_index c' = snapshot_index c \<and> (\<forall>i. entry_at c' i = entry_at c i) \<and>
    rc_commit_index c' = max (rc_commit_index c) (min (ae_leader_commit req) (last_log_index c))"
proof -
  let ?d = "c\<lparr>rc_leader_id := Some (ae_leader_id req)\<rparr>"
  have d: "same_log c ?d" by (simp add: same_log_def)
  have inv': "log_inv ?d" using same_logD(4) [OF d] inv by simp
  have num: "numbered (unat (snapshot_index ?d)) (rc_log ?d)" using inv' by (simp add: log_inv_def)
  obtain r c' where fin: "append_finish (ae_leader_commit req) ?d = (r, c')" by fastforce
  note F = append_finish_kept [OF inv' fin]
  have "previous_matches req ?d"
    using prev same_logD(1,3) [OF d] by (simp add: previous_matches_def snapshot_term_def)
  then have "append_checked req ?d f = append_matching req ?d f"
    using entry_at_numbered [OF num, of "ae_prev_log_index req"]
    by (auto simp: previous_matches_def append_checked_def split: option.splits)
  then have run: "append_entries req c f = (Inr r, c', f)"
    using req fin by (simp add: append_entries_def andthen_def append_matching_def)
  have "committed_kept c c'" using committed_kept_trans [OF same_log_kept [OF d inv]] F by blast
  moreover have "snapshot_index c' = snapshot_index c" using F same_logD(1) [OF d] by (simp add: snapshot_index_def)
  ultimately show ?thesis using run F same_logD(2,3) [OF d] by simp
qed

text \<open>A committed entry is never replaced: a request with another entry at its index does not succeed.\<close>

lemma committed_entry_refuses:
  assumes inv: "log_inv c" and e: "entry_at c i = Some e" "i \<le> rc_commit_index c"
    and req: "numbered (unat (ae_prev_log_index req)) (ae_entries req)"
    and x: "x \<in> set (ae_entries req)" "entry_index x = i" "entry_term x \<noteq> entry_term e"
    and run: "append_entries req c f = (Inr resp, c', f')"
  shows "\<not> aer_success resp"
proof
  assume "aer_success resp"
  then have k: "committed_kept c c'" "entry_stored x c'"
    using append_entries_kept [OF inv req run] x(1) by (simp_all add: append_replied_def)
  have "snapshot_index c' = snapshot_index c" using append_entries_snapshot [of req c f] by (simp add: run)
  moreover have "snapshot_index c < i"
    using e(1) inv entry_at_numbered [of c i] by (auto simp: log_inv_def split: if_splits)
  ultimately have "entry_at c' i = Some e" "\<exists>y. entry_at c' i = Some y \<and> entry_term y = entry_term x"
    using k e x(2) by (auto simp: committed_kept_def entry_stored_def)
  then show False using x(3) by simp
qed

section \<open>Properties\<close>

definition log_command :: command where
  "log_command = DeleteNode 1"

text \<open>A follower in term 2 with two entries of term 1, of which the first is committed.\<close>

definition log_sample :: raft_core where
  "log_sample = sample_core\<lparr>rc_persistent := \<lparr>rp_current_term = 2, rp_voted_for = None\<rparr>,
     rc_log := [new_log_entry 0 1 1 log_command, new_log_entry 0 1 2 log_command], rc_commit_index := 1\<rparr>"

definition log_request :: "log_entry list \<Rightarrow> append_entries_request" where
  "log_request es = \<lparr>ae_term = 2, ae_leader_id = 1, ae_prev_log_index = 1, ae_prev_log_term = 1, ae_entries = es,
     ae_leader_commit = 2\<rparr>"

lemma log_sample_inv: "log_inv log_sample"
  by (simp add: log_inv_def log_sample_def sample_core_def snapshot_index_def last_log_index_def new_log_entry_def
      new_with_timestamp_def new_with_metadata_def)

text \<open>
  C7. Appending is right. On a well-formed log and a request whose entries follow on its previous index,
  \<open>append_entries\<close> leaves a well-formed log, never takes the commit index back and never changes an entry that was
  committed, whatever it answers. When it answers success, the previous entry of the request is the server's too,
  every entry of the request is in the log with its term, and the commit index is the leader's as far as the log goes.
\<close>

theorem append_entries_correct:
  assumes "log_inv c" and "numbered (unat (ae_prev_log_index req)) (ae_entries req)"
    and "append_entries req c f = (r, c', f')"
  shows "committed_kept c c' \<and> append_replied req c r c'"
  using assms by (rule append_entries_kept)

theorem append_entries_correct_witness:
  "committed_kept log_sample
     (fst (snd (append_entries (log_request [new_log_entry 0 2 2 log_command]) log_sample raft_sample_fs))) \<and>
   map entry_term (rc_log (fst (snd (append_entries (log_request [new_log_entry 0 2 2 log_command]) log_sample raft_sample_fs)))) = [1, 2]"
proof -
  let ?req = "log_request [new_log_entry 0 2 2 log_command]"
  have "numbered (unat (ae_prev_log_index ?req)) (ae_entries ?req)"
    by (simp add: log_request_def new_log_entry_def new_with_timestamp_def new_with_metadata_def)
  then have "committed_kept log_sample (fst (snd (append_entries ?req log_sample raft_sample_fs)))"
    using append_entries_correct [OF log_sample_inv, of ?req raft_sample_fs]
    by (cases "append_entries ?req log_sample raft_sample_fs") auto
  moreover have "map entry_term (rc_log (fst (snd (append_entries ?req log_sample raft_sample_fs)))) = [1, 2]" by code_simp
  ultimately show ?thesis by blast
qed

text \<open>
  C4. What is committed stays. From a well-formed log, through any sequence of received entries, received snapshots,
  compactions, local entries, replication acknowledgements, elections and votes, accepted or refused, the log stays
  contiguous, the commit index never decreases, and an entry that was committed and is not yet compacted is the same
  entry later. The sequence has to be one \<open>RaftCore\<close> expects (\<open>run_expected\<close>), which it does not check itself: the
  entries of every request carry consecutive indexes after its previous index, no compaction goes back behind the
  snapshot of that moment, and a local entry is appended only while an index below \<open>u64::MAX\<close> is left.
\<close>

theorem committed_entries_stable:
  assumes "log_inv c" and "run_expected evs (c, f)" and "log_run evs (c, f) = (c', f')"
  shows "log_inv c' \<and> rc_commit_index c \<le> rc_commit_index c' \<and>
    (\<forall>i. snapshot_index c' < i \<longrightarrow> i \<le> rc_commit_index c \<longrightarrow> entry_at c' i = entry_at c i)"
  using log_run_kept [of "(c, f)" evs] assms by (simp add: committed_kept_def)

definition log_events :: "log_event list" where
  "log_events = [EntriesReceived (log_request [new_log_entry 0 2 2 log_command, new_log_entry 0 2 3 log_command]),
     ElectionStarted, EntriesReceived (log_request [])]"

theorem committed_entries_stable_witness:
  "run_expected log_events (log_sample, raft_sample_fs) \<and>
   map entry_term (rc_log log_sample) = [1, 1] \<and>
   map entry_term (rc_log (fst (log_run log_events (log_sample, raft_sample_fs)))) = [1, 2, 2] \<and>
   entry_at (fst (log_run log_events (log_sample, raft_sample_fs))) 1 = Some (new_log_entry 0 1 1 log_command)"
proof -
  let ?st = "(log_sample, raft_sample_fs)"
  have run: "run_expected log_events ?st" by code_simp
  have "map entry_term (rc_log log_sample) = [1, 1]" "map entry_term (rc_log (fst (log_run log_events ?st))) = [1, 2, 2]"
    "snapshot_index (fst (log_run log_events ?st)) < 1" "1 \<le> rc_commit_index log_sample"
    "entry_at log_sample 1 = Some (new_log_entry 0 1 1 log_command)" by code_simp+
  moreover have "\<forall>i. snapshot_index (fst (log_run log_events ?st)) < i \<longrightarrow> i \<le> rc_commit_index log_sample \<longrightarrow>
      entry_at (fst (log_run log_events ?st)) i = entry_at log_sample i"
    using committed_entries_stable [OF log_sample_inv run prod.collapse [symmetric]] by blast
  ultimately show ?thesis using run by simp
qed

text \<open>
  C10. The commit index of a leader is bounded by what a quorum has. A quorum of the voters, in a joint configuration
  a quorum of both, has acknowledged an index other than 0 exactly when it is at most \<open>quorum_index\<close>, so that this is
  the largest index a quorum acknowledged. When the commit index moves, it moves forwards to \<open>quorum_index\<close>, and
  that index holds an entry of the leader's own term.
\<close>

theorem leader_commit_bounds:
  "(\<forall>i. i \<noteq> 0 \<longrightarrow> (has_quorum (rc_membership c) (voters_at c i) \<longleftrightarrow> i \<le> quorum_index c)) \<and>
   (rc_commit_index (advance_leader_commit_index c) = rc_commit_index c \<or>
    rc_commit_index c < quorum_index c \<and> rc_commit_index (advance_leader_commit_index c) = quorum_index c \<and>
    has_quorum (rc_membership c) (voters_at c (quorum_index c)) \<and>
    (\<exists>e. entry_at c (quorum_index c) = Some e \<and> entry_term e = current_term c))"
proof -
  have "quorum_index c \<noteq> 0" if "rc_commit_index c < quorum_index c" using that by auto
  then show ?thesis
    using quorum_index_iff [of _ c] quorum_index_quorum [of c]
    by (auto simp: advance_leader_commit_index_def Let_def not_le split: option.split)
qed

definition leading_sample :: raft_core where
  "leading_sample = log_sample\<lparr>rc_server_id := 1, rc_role := Leader, rc_log := [new_log_entry 0 1 1 log_command, new_log_entry 0 2 2 log_command],
     rc_match_indexes := fmap_of_list [(1, 2), (2, 2), (3, 1)]\<rparr>"

theorem leader_commit_bounds_witness:
  "has_quorum (rc_membership leading_sample) (voters_at leading_sample 2) \<and>
   \<not> has_quorum (rc_membership leading_sample) (voters_at leading_sample 3) \<and>
   quorum_index leading_sample = 2 \<and> rc_commit_index leading_sample = 1 \<and>
   rc_commit_index (advance_leader_commit_index leading_sample) = 2"
proof -
  have q: "quorum_index leading_sample = 2" and
    c: "rc_commit_index leading_sample = 1" "rc_commit_index (advance_leader_commit_index leading_sample) = 2" by code_simp+
  have "has_quorum (rc_membership leading_sample) (voters_at leading_sample i) \<longleftrightarrow> i \<le> 2" if "i \<noteq> 0" for i
    using leader_commit_bounds [of leading_sample] that unfolding q by blast
  from this [of 2] this [of 3] q c show ?thesis by simp
qed

text \<open>
  C37. A follower can commit an entry the leader never sent. The leader's commit index is compared with the
  last index of the follower's log, not with the last entry the request covers. On any follower in the term of the
  request, a request without entries whose previous entry matches therefore commits every entry up to the leader's
  commit index, also one of another term than the leader's entry there; and however the server goes on, as long as
  the entry is not compacted, it keeps it and never accepts a request that carries the leader's entry.
\<close>

theorem append_commits_unverified_entry:
  assumes "log_inv c" and "rc_role c = Follower" and "ae_term req = current_term c" and "ae_entries req = []"
    and "previous_matches req c" and "entry_at c i = Some e" and "i \<le> ae_leader_commit req"
  shows "\<exists>c'. append_entries req c f = (Inr (append_reply True None None c'), c', f) \<and> i \<le> rc_commit_index c' \<and>
    (\<forall>evs d g. run_expected evs (c', f) \<longrightarrow> log_run evs (c', f) = (d, g) \<longrightarrow> snapshot_index d < i \<longrightarrow>
       entry_at d i = Some e \<and>
       (\<forall>req' x resp d' g'. numbered (unat (ae_prev_log_index req')) (ae_entries req') \<longrightarrow> x \<in> set (ae_entries req') \<longrightarrow>
          entry_index x = i \<longrightarrow> entry_term x \<noteq> entry_term e \<longrightarrow> append_entries req' d g = (Inr resp, d', g') \<longrightarrow>
          \<not> aer_success resp))"
proof -
  obtain c' where c': "append_entries req c f = (Inr (append_reply True None None c'), c', f)" "committed_kept c c'"
      "entry_at c' i = Some e" "rc_commit_index c' = max (rc_commit_index c) (min (ae_leader_commit req) (last_log_index c))"
    using append_without_entries [OF assms(1-5), of f] assms(6) by auto
  have "i \<le> last_log_index c"
    using assms(1,6) entry_at_numbered [of c i] by (auto simp: log_inv_def split: if_splits)
  then have i: "i \<le> rc_commit_index c'" using assms(7) by (simp add: c'(4) le_max_iff_disj)
  have "entry_at d i = Some e \<and> log_inv d \<and> i \<le> rc_commit_index d"
    if "run_expected evs (c', f)" "log_run evs (c', f) = (d, g)" "snapshot_index d < i" for evs d g
    using log_run_kept [of "(c', f)" evs] that c'(2,3) i by (auto simp: committed_kept_def)
  then show ?thesis using c'(1) i committed_entry_refuses by blast
qed

theorem append_commits_unverified_entry_witness:
  "map_option entry_term (entry_at leading_sample 2) = Some 2 \<and> rc_commit_index log_sample = 1 \<and>
   (\<exists>c'. append_entries (log_request []) log_sample raft_sample_fs =
        (Inr (append_reply True None None c'), c', raft_sample_fs) \<and>
      2 \<le> rc_commit_index c' \<and> map_option entry_term (entry_at c' 2) = Some 1 \<and>
      (\<forall>resp d g. append_entries (log_request [new_log_entry 0 2 2 log_command]) c' raft_sample_fs = (Inr resp, d, g) \<longrightarrow>
        \<not> aer_success resp))"
proof -
  let ?x = "new_log_entry 0 2 2 log_command" and ?e = "new_log_entry 0 1 2 log_command"
  have e: "rc_role log_sample = Follower" "ae_term (log_request []) = current_term log_sample" "ae_entries (log_request []) = []"
    "entry_at log_sample 2 = Some ?e" "2 \<le> ae_leader_commit (log_request [])" "entry_term ?e = 1"
    "map_option entry_term (entry_at leading_sample 2) = Some 2" "rc_commit_index log_sample = 1" by code_simp+
  have x: "numbered (unat (ae_prev_log_index (log_request [?x]))) (ae_entries (log_request [?x]))"
    "?x \<in> set (ae_entries (log_request [?x]))" "entry_index ?x = 2" "entry_term ?x \<noteq> entry_term ?e" by code_simp+
  have "map_option entry_term (entry_at log_sample (ae_prev_log_index (log_request []))) = Some 1"
    "ae_prev_log_term (log_request []) = 1" by code_simp+
  then have "previous_matches (log_request []) log_sample" by (auto simp: previous_matches_def)
  from append_commits_unverified_entry [OF log_sample_inv e(1-3) this e(4,5), of raft_sample_fs]
  obtain c' where c': "append_entries (log_request []) log_sample raft_sample_fs = (Inr (append_reply True None None c'), c', raft_sample_fs)"
      "2 \<le> rc_commit_index c'"
    and later: "snapshot_index c' < 2 \<longrightarrow> entry_at c' 2 = Some ?e \<and>
       (\<forall>req' x resp d' g'. numbered (unat (ae_prev_log_index req')) (ae_entries req') \<longrightarrow> x \<in> set (ae_entries req') \<longrightarrow>
          entry_index x = 2 \<longrightarrow> entry_term x \<noteq> entry_term ?e \<longrightarrow> append_entries req' c' raft_sample_fs = (Inr resp, d', g') \<longrightarrow>
          \<not> aer_success resp)"
    by (metis log_run_simps(1) run_expected.simps(1))
  have "snapshot_index (fst (snd (append_entries (log_request []) log_sample raft_sample_fs))) < 2" by code_simp
  then have "snapshot_index c' < 2" by (simp add: c'(1))
  with later x have "entry_at c' 2 = Some ?e"
    "\<forall>resp d g. append_entries (log_request [?x]) c' raft_sample_fs = (Inr resp, d, g) \<longrightarrow> \<not> aer_success resp" by blast+
  with c' e(6-8) show ?thesis by auto
qed

end
