(* ===== verification/Snapshot_Transfer.thy ===== *)
theory Snapshot_Transfer
  imports Raft_Core
begin

text \<open>
  Sending a snapshot in pieces: \<open>InstallSnapshotRequest::chunks\<close>, the assembler of
  \<open>neo4r-db/src/raft/snapshot_chunks.rs\<close>, the server's slices (\<open>slice_snapshot_fetch_chunk\<close>) and the client's loop
  (\<open>request_tcp_snapshot_fetch\<close>). Loops that need not end are partial: \<open>None\<close> is the call that never returns.
  Lengths and \<open>usize\<close> are natural numbers; \<open>offset += len\<close> wraps as in a release build.
\<close>

section \<open>Chunks\<close>

record install_snapshot_chunk =
  ic_request :: install_snapshot_request
  ic_offset :: u64
  ic_done :: bool

text \<open>\<open>slice::chunks\<close>: pieces of \<open>n\<close> bytes, the last one possibly shorter; \<open>n\<close> is not zero.\<close>

function slice_chunks :: "nat \<Rightarrow> bytes \<Rightarrow> bytes list" where
  "slice_chunks n bs = (if bs = [] \<or> n = 0 then [] else take n bs # slice_chunks n (drop n bs))"
  by pat_completeness auto
termination by (relation "measure (\<lambda>(n, bs). length bs)") auto

declare slice_chunks.simps [simp del]

definition snapshot_chunk :: "install_snapshot_request \<Rightarrow> nat \<Rightarrow> nat \<Rightarrow> bytes \<Rightarrow> install_snapshot_chunk" where
  "snapshot_chunk req n index payload =
     (let offset = word_of_nat (index * n) :: u64
      in \<lparr>ic_request = req\<lparr>is_payload := payload\<rparr>, ic_offset = offset,
          ic_done = (length (is_payload req) \<le> unat offset + length payload)\<rparr>)"

definition request_chunks :: "nat \<Rightarrow> install_snapshot_request \<Rightarrow> install_snapshot_chunk list" where
  "request_chunks max_payload_bytes req =
     (let n = max max_payload_bytes 1
      in if is_payload req = [] then [\<lparr>ic_request = req, ic_offset = 0, ic_done = True\<rparr>]
         else map (\<lambda>(index, payload). snapshot_chunk req n index payload) (enumerate 0 (slice_chunks n (is_payload req))))"

section \<open>The assembler\<close>

record snapshot_chunk_assembler =
  sa_metadata :: raft_snapshot_metadata
  sa_term :: u64
  sa_leader_id :: server_id
  sa_next_offset :: u64
  sa_chunks :: "(u64, bytes) fmap"
  sa_done_offset :: "u64 option"

record snapshot_resume_token =
  rt_shard_id :: shard_id
  rt_snapshot_index :: log_index
  rt_snapshot_term :: u64
  rt_next_offset :: u64
  rt_completed :: bool

definition resume_token :: "snapshot_chunk_assembler \<Rightarrow> snapshot_resume_token" where
  "resume_token a = \<lparr>rt_shard_id = sn_shard_id (sa_metadata a), rt_snapshot_index = sn_last_included_index (sa_metadata a),
     rt_snapshot_term = sn_last_included_term (sa_metadata a), rt_next_offset = sa_next_offset a,
     rt_completed = (sa_done_offset a = Some (sa_next_offset a))\<rparr>"

definition validate_chunk :: "install_snapshot_chunk \<Rightarrow> snapshot_chunk_assembler \<Rightarrow> database_error + unit" where
  "validate_chunk ch a =
     (if is_term (ic_request ch) \<noteq> sa_term a \<or> is_leader_id (ic_request ch) \<noteq> sa_leader_id a \<or>
         is_metadata (ic_request ch) \<noteq> sa_metadata a
      then Inl (Replication ''snapshot chunk metadata mismatch'')
      else if sa_next_offset a < ic_offset ch
      then Inl (Replication (''snapshot chunk offset gap: got '' @ show_u64 (ic_offset ch) @ '', expected '' @
        show_u64 (sa_next_offset a)))
      else Inr ())"

text \<open>The loop of \<open>contiguous_len\<close>, from an offset.\<close>

partial_function (option) contiguous_from :: "(u64, bytes) fmap \<Rightarrow> u64 \<Rightarrow> u64 option" where
  "contiguous_from m offset =
     (case fmlookup m offset of
        None \<Rightarrow> Some offset
      | Some chunk \<Rightarrow> contiguous_from m (offset + word_of_nat (length chunk)))"

definition contiguous_len :: "(u64, bytes) fmap \<Rightarrow> u64 option" where
  "contiguous_len m = contiguous_from m 0"

text \<open>
  The loop of \<open>try_finish\<close>: it takes the chunks out of the map. The result is the payload, or the offset where a
  chunk is missing.
\<close>

function finish_loop :: "u64 \<Rightarrow> u64 \<Rightarrow> bytes \<Rightarrow> (u64, bytes) fmap \<Rightarrow> (u64 + bytes) \<times> (u64, bytes) fmap" where
  "finish_loop done_offset offset payload m =
     (if offset < done_offset
      then case fmlookup m offset of
             None \<Rightarrow> (Inl offset, m)
           | Some chunk \<Rightarrow> finish_loop done_offset (offset + word_of_nat (length chunk)) (payload @ chunk) (fmdrop offset m)
      else (Inr payload, m))"
  by pat_completeness auto
termination
proof (relation "measure (\<lambda>(d, offset, p, m). fcard (fmdom m))")
  fix d offset :: u64 and p chunk :: bytes and m :: "(u64, bytes) fmap"
  assume "fmlookup m offset = Some chunk"
  then have "fcard (fmdom (fmdrop offset m)) < fcard (fmdom m)"
    using fcard_fminus1_less [OF fmdomI] by fastforce
  then show "((d, offset + word_of_nat (length chunk), p @ chunk, fmdrop offset m), d, offset, p, m) \<in>
      measure (\<lambda>(d, offset, p, m). fcard (fmdom m))"
    by simp
qed simp

declare finish_loop.simps [simp del]

definition try_finish ::
  "snapshot_chunk_assembler \<Rightarrow> (install_snapshot_request option \<times> snapshot_chunk_assembler) option" where
  "try_finish a =
     (case sa_done_offset a of
        None \<Rightarrow> (case contiguous_len (sa_chunks a) of
                   None \<Rightarrow> None
                 | Some n \<Rightarrow> Some (None, a\<lparr>sa_next_offset := n\<rparr>))
      | Some done_offset \<Rightarrow>
          (case finish_loop done_offset 0 [] (sa_chunks a) of
             (Inl offset, m) \<Rightarrow> Some (None, a\<lparr>sa_chunks := m, sa_next_offset := offset\<rparr>)
           | (Inr payload, m) \<Rightarrow>
               Some (Some \<lparr>is_term = sa_term a, is_leader_id = sa_leader_id a, is_metadata = sa_metadata a, is_payload = payload\<rparr>,
                     a\<lparr>sa_chunks := m, sa_next_offset := done_offset\<rparr>)))"

definition push_chunk :: "install_snapshot_chunk \<Rightarrow> snapshot_chunk_assembler \<Rightarrow>
    ((database_error + install_snapshot_request option) \<times> snapshot_chunk_assembler) option" where
  "push_chunk ch a =
     (case validate_chunk ch a of
        Inl e \<Rightarrow> Some (Inl e, a)
      | Inr _ \<Rightarrow>
          let payload_len = word_of_nat (length (is_payload (ic_request ch)));
              a1 = a\<lparr>sa_chunks := fmupd (ic_offset ch) (is_payload (ic_request ch)) (sa_chunks a)\<rparr>;
              a2 = (if ic_done ch then a1\<lparr>sa_done_offset := Some (ic_offset ch + payload_len)\<rparr> else a1)
          in case try_finish a2 of None \<Rightarrow> None | Some (r, a3) \<Rightarrow> Some (Inr r, a3))"

definition new_assembler :: "install_snapshot_chunk \<Rightarrow> (database_error + snapshot_chunk_assembler) option" where
  "new_assembler first =
     (let a = \<lparr>sa_metadata = is_metadata (ic_request first), sa_term = is_term (ic_request first),
               sa_leader_id = is_leader_id (ic_request first), sa_next_offset = 0, sa_chunks = fmempty, sa_done_offset = None\<rparr>
      in case push_chunk first a of
           None \<Rightarrow> None
         | Some (Inl e, _) \<Rightarrow> Some (Inl e)
         | Some (Inr _, a') \<Rightarrow> Some (Inr a'))"

section \<open>The two ends of a fetch\<close>

record tcp_snapshot_fetch_chunk =
  fc_snapshot :: "install_snapshot_chunk option"
  fc_total_len :: u64
  fc_checksum :: u64
  fc_resume_offset :: u64

definition snapshot_checksum :: "bytes \<Rightarrow> u64" where
  "snapshot_checksum payload = fold (\<lambda>byte hash. xor hash (ucast byte) * 0x100000001b3) payload 0xcbf29ce484222325"

definition slice_snapshot_fetch_chunk ::
  "install_snapshot_request option \<Rightarrow> u64 \<Rightarrow> nat \<Rightarrow> database_error + tcp_snapshot_fetch_chunk" where
  "slice_snapshot_fetch_chunk snapshot offset max_bytes =
     (case snapshot of
        None \<Rightarrow> Inr \<lparr>fc_snapshot = None, fc_total_len = 0, fc_checksum = 0, fc_resume_offset = 0\<rparr>
      | Some s \<Rightarrow>
          let total_len = word_of_nat (length (is_payload s))
          in if total_len < offset
             then Inl (Replication (''snapshot fetch offset '' @ show_u64 offset @ '' beyond snapshot length '' @ show_u64 total_len))
             else let start = unat offset;
                      stop = min (length (is_payload s)) (min (start + max max_bytes 1) (2 ^ 64 - 1));
                      payload = drop start (take stop (is_payload s))
                  in Inr \<lparr>fc_snapshot = Some \<lparr>ic_request = s\<lparr>is_payload := payload\<rparr>, ic_offset = offset,
                            ic_done = (stop = unat total_len)\<rparr>,
                          fc_total_len = total_len, fc_checksum = snapshot_checksum (is_payload s),
                          fc_resume_offset = word_of_nat stop\<rparr>)"

text \<open>
  The client. \<open>fetch i offset max_bytes\<close> is the answer to its request number \<open>i\<close>: the connection and the server
  behind it can answer anything, also an error.
\<close>

type_synonym fetcher = "nat \<Rightarrow> u64 \<Rightarrow> nat \<Rightarrow> database_error + tcp_snapshot_fetch_chunk"

definition fetch_size :: nat where
  "fetch_size = 1024 * 1024"

partial_function (option) fetch_loop ::
  "fetcher \<Rightarrow> tcp_snapshot_fetch_chunk \<Rightarrow> nat \<Rightarrow> snapshot_chunk_assembler \<Rightarrow>
    (database_error + install_snapshot_request option) option" where
  "fetch_loop fetch first i a =
     (if rt_completed (resume_token a)
      then Some (Inl (Replication ''snapshot fetch completed without assembled snapshot''))
      else case fetch i (sa_next_offset a) fetch_size of
             Inl e \<Rightarrow> Some (Inl e)
           | Inr ch \<Rightarrow>
               if fc_checksum ch \<noteq> fc_checksum first \<or> fc_total_len ch \<noteq> fc_total_len first
               then Some (Inl (Replication ''snapshot fetch changed while resuming''))
               else case fc_snapshot ch of
                      None \<Rightarrow> Some (Inl (Replication ''snapshot fetch disappeared while resuming''))
                    | Some sc \<Rightarrow>
                        (case push_chunk sc a of
                           None \<Rightarrow> None
                         | Some (Inl e, _) \<Rightarrow> Some (Inl e)
                         | Some (Inr (Some s), _) \<Rightarrow> Some (Inr (Some s))
                         | Some (Inr None, a') \<Rightarrow> fetch_loop fetch first (Suc i) a'))"

definition request_tcp_snapshot_fetch :: "fetcher \<Rightarrow> (database_error + install_snapshot_request option) option" where
  "request_tcp_snapshot_fetch fetch =
     (case fetch 0 0 fetch_size of
        Inl e \<Rightarrow> Some (Inl e)
      | Inr first \<Rightarrow>
          (case fc_snapshot first of
             None \<Rightarrow> Some (Inr None)
           | Some ch \<Rightarrow>
               if ic_done ch then Some (Inr (Some (ic_request ch)))
               else (case new_assembler ch of
                       None \<Rightarrow> None
                     | Some (Inl e) \<Rightarrow> Some (Inl e)
                     | Some (Inr a) \<Rightarrow> fetch_loop fetch first 1 a)))"

section \<open>The check before an installation\<close>

fun push_all :: "install_snapshot_request \<Rightarrow> install_snapshot_chunk list \<Rightarrow> snapshot_chunk_assembler \<Rightarrow>
    (database_error + install_snapshot_request) option" where
  "push_all req [] a = Some (Inr req)"
| "push_all req (ch # chs) a =
     (case push_chunk ch a of
        None \<Rightarrow> None
      | Some (Inl e, _) \<Rightarrow> Some (Inl e)
      | Some (Inr (Some assembled), _) \<Rightarrow> Some (Inr assembled)
      | Some (Inr None, a') \<Rightarrow> push_all req chs a')"

definition validate_snapshot_chunks_for_tcp ::
  "install_snapshot_request \<Rightarrow> (database_error + install_snapshot_request) option" where
  "validate_snapshot_chunks_for_tcp req =
     (case request_chunks (64 * 1024) req of
        [] \<Rightarrow> Some (Inr req)
      | first # chs \<Rightarrow>
          (case new_assembler first of
             None \<Rightarrow> None
           | Some (Inl e) \<Rightarrow> Some (Inl e)
           | Some (Inr a) \<Rightarrow> push_all req chs a))"

section \<open>Assembling\<close>

text \<open>The map holds the pieces \<open>ps\<close> one after the other from \<open>offset\<close>, and nothing where they end.\<close>

fun chained :: "(u64, bytes) fmap \<Rightarrow> nat \<Rightarrow> bytes list \<Rightarrow> bool" where
  "chained m offset [] \<longleftrightarrow> fmlookup m (word_of_nat offset) = None"
| "chained m offset (p # ps) \<longleftrightarrow> fmlookup m (word_of_nat offset) = Some p \<and> chained m (offset + length p) ps"

lemma contiguous_chained:
  "chained m offset ps \<Longrightarrow> contiguous_from m (word_of_nat offset) = Some (word_of_nat (offset + length (concat ps)))"
proof (induction ps arbitrary: offset)
  case Nil
  then show ?case by (simp add: contiguous_from.simps)
next
  case (Cons p ps)
  then show ?case by (subst contiguous_from.simps) (simp add: add.assoc of_nat_add [symmetric] del: of_nat_add)
qed

lemma unat_of_nat_64: "n < 2 ^ 64 \<Longrightarrow> unat (word_of_nat n :: u64) = n"
  by (simp add: unat_of_nat)

lemma word_of_nat_less_64: "i < j \<Longrightarrow> j < 2 ^ 64 \<Longrightarrow> word_of_nat i < (word_of_nat j :: u64)"
  by (simp add: word_less_nat_alt unat_of_nat_64)

lemma chained_drop:
  assumes "chained m offset ps" and "i < offset" and "offset + length (concat ps) < 2 ^ 64"
  shows "chained (fmdrop (word_of_nat i) m) offset ps"
  using assms
proof (induction ps arbitrary: offset)
  case Nil
  then show ?case by simp
next
  case (Cons p ps)
  have "word_of_nat i \<noteq> (word_of_nat offset :: u64)"
    using word_of_nat_less_64 [of i offset] Cons.prems by auto
  then show ?case using Cons by simp
qed

lemma finish_chained:
  assumes "chained m offset ps" and "[] \<notin> set ps" and "stop = offset + length (concat ps)" and "stop < 2 ^ 64"
  shows "fst (finish_loop (word_of_nat stop) (word_of_nat offset) payload m) = Inr (payload @ concat ps)"
  using assms
proof (induction ps arbitrary: offset payload m)
  case Nil
  then show ?case by (simp add: finish_loop.simps)
next
  case (Cons p ps)
  have "offset < stop" using Cons.prems by (cases p) auto
  then have less: "word_of_nat offset < (word_of_nat stop :: u64)" using Cons.prems(4) by (rule word_of_nat_less_64)
  have "chained (fmdrop (word_of_nat offset) m) (offset + length p) ps"
    by (rule chained_drop) (use Cons.prems in auto)
  from Cons.IH [OF this] Cons.prems less show ?case
    by (subst finish_loop.simps) (simp add: add.assoc of_nat_add [symmetric] del: of_nat_add)
qed

lemma chained_snoc:
  assumes "chained m offset ps" and "[] \<notin> set ps" and "stop = offset + length (concat ps)" and "stop + length q < 2 ^ 64"
    and "fmlookup m (word_of_nat (stop + length q)) = None" and "q \<noteq> []"
  shows "chained (fmupd (word_of_nat stop) q m) offset (ps @ [q])"
  using assms
proof (induction ps arbitrary: offset)
  case Nil
  then have "word_of_nat stop \<noteq> (word_of_nat (stop + length q) :: u64)"
    using word_of_nat_less_64 [of stop "stop + length q"] by auto
  then show ?case using Nil by simp
next
  case (Cons p ps)
  then have "offset < stop" by (cases p) auto
  then have "word_of_nat offset \<noteq> (word_of_nat stop :: u64)"
    using word_of_nat_less_64 [of offset stop] Cons.prems by auto
  then show ?case using Cons by simp
qed

text \<open>The assembler has received the first \<open>n\<close> bytes of the snapshot, and not the end.\<close>

definition assembling :: "install_snapshot_request \<Rightarrow> nat \<Rightarrow> snapshot_chunk_assembler \<Rightarrow> bool" where
  "assembling s n a \<longleftrightarrow> sa_metadata a = is_metadata s \<and> sa_term a = is_term s \<and> sa_leader_id a = is_leader_id s \<and>
     sa_next_offset a = word_of_nat n \<and> sa_done_offset a = None \<and> (\<forall>k. k |\<in>| fmdom (sa_chunks a) \<longrightarrow> unat k < n) \<and>
     (\<exists>ps. chained (sa_chunks a) 0 ps \<and> [] \<notin> set ps \<and> n = length (concat ps) \<and> concat ps = take n (is_payload s))"

abbreviation chunk_of :: "install_snapshot_request \<Rightarrow> nat \<Rightarrow> bytes \<Rightarrow> bool \<Rightarrow> install_snapshot_chunk" where
  "chunk_of s n q d \<equiv> \<lparr>ic_request = s\<lparr>is_payload := q\<rparr>, ic_offset = word_of_nat n, ic_done = d\<rparr>"

lemma push_chunk_next:
  assumes a: "assembling s n a" and q: "q = take k (drop n (is_payload s))" "q \<noteq> []"
    and len: "length (is_payload s) < 2 ^ 64" and d: "d \<longleftrightarrow> n + length q = length (is_payload s)"
  shows "if d then \<exists>a'. push_chunk (chunk_of s n q d) a = Some (Inr (Some s), a')
    else \<exists>a'. push_chunk (chunk_of s n q d) a = Some (Inr None, a') \<and> assembling s (n + length q) a'"
proof -
  obtain ps where ps: "chained (sa_chunks a) 0 ps" "[] \<notin> set ps" "n = length (concat ps)" "concat ps = take n (is_payload s)"
    using a unfolding assembling_def by blast
  let ?m = "fmupd (word_of_nat n) q (sa_chunks a)"
  have n: "n + length q \<le> length (is_payload s)" "n + length q < 2 ^ 64" using q len by auto
  have fresh: "fmlookup (sa_chunks a) (word_of_nat (n + length q)) = None"
  proof (rule ccontr)
    assume "fmlookup (sa_chunks a) (word_of_nat (n + length q)) \<noteq> None"
    then have "unat (word_of_nat (n + length q) :: u64) < n" using a by (auto simp: assembling_def intro: fmdomI)
    then show False unfolding unat_of_nat_64 [OF n(2)] by simp
  qed
  have m: "chained ?m 0 (ps @ [q])" by (rule chained_snoc) (use ps q(2) n(2) fresh in simp_all)
  have q_take: "take (length q) (drop n (is_payload s)) = q" unfolding q(1) by (simp add: min_def)
  have all: "[] \<notin> set (ps @ [q])" "concat (ps @ [q]) = take (n + length q) (is_payload s)"
    using ps(2,4) q(2) by (simp_all add: take_add q_take)
  have valid: "validate_chunk (chunk_of s n q d) a = Inr ()" using a by (simp add: validate_chunk_def assembling_def)
  have ids: "sa_metadata a = is_metadata s" "sa_term a = is_term s" "sa_leader_id a = is_leader_id s" "sa_done_offset a = None"
    using a by (simp_all add: assembling_def)
  show ?thesis
  proof (cases d)
    case True
    have whole: "concat (ps @ [q]) = is_payload s" "n + length q = 0 + length (concat (ps @ [q]))"
      using all(2) d True ps(3) by simp_all
    have "fst (finish_loop (word_of_nat (n + length q)) (word_of_nat 0) [] ?m) = Inr (is_payload s)"
      using finish_chained [OF m all(1) whole(2) n(2), of "[]"] unfolding whole(1) by simp
    then obtain m' where "finish_loop (word_of_nat n + word_of_nat (length q)) 0 [] ?m = (Inr (is_payload s), m')"
      by (cases "finish_loop (word_of_nat n + word_of_nat (length q)) 0 [] ?m") simp
    then show ?thesis using True valid ids by (simp add: push_chunk_def try_finish_def Let_def)
  next
    case False
    have "contiguous_len ?m = Some (word_of_nat (n + length q))"
      using contiguous_chained [OF m] ps(3) by (simp add: contiguous_len_def)
    moreover have "unat k < n + length q" if "k |\<in>| fmdom ?m" for k
      using that a n(2) q(2) by (auto simp: assembling_def unat_of_nat_64)
    ultimately show ?thesis
      using False valid ids m all ps(3) n(1) by (auto simp: push_chunk_def try_finish_def assembling_def Let_def intro!: exI [of _ "ps @ [q]"])
  qed
qed

lemma new_assembler_next:
  assumes q: "q = take k (is_payload s)" "q \<noteq> []" and len: "length q < length (is_payload s)" "length (is_payload s) < 2 ^ 64"
  shows "\<exists>a. new_assembler (chunk_of s 0 q False) = Some (Inr a) \<and> assembling s (length q) a"
proof -
  let ?a = "\<lparr>sa_metadata = is_metadata s, sa_term = is_term s, sa_leader_id = is_leader_id s, sa_next_offset = 0,
    sa_chunks = fmempty, sa_done_offset = None\<rparr>"
  have q': "q = take k (drop 0 (is_payload s))" and d: "False \<longleftrightarrow> 0 + length q = length (is_payload s)" using q(1) len(1) by simp_all
  have "assembling s 0 ?a" by (auto simp: assembling_def intro!: exI [of _ "[]"])
  from push_chunk_next [OF this q' q(2) len(2) d]
  obtain a where "push_chunk (chunk_of s 0 q False) ?a = Some (Inr None, a)" "assembling s (length q) a"
    unfolding if_False add_0 by blast
  then show ?thesis by (simp add: new_assembler_def)
qed

section \<open>A fetch returns\<close>

definition serving :: "install_snapshot_request \<Rightarrow> fetcher" where
  "serving s i offset max_bytes = slice_snapshot_fetch_chunk (Some s) offset max_bytes"

lemma serving_at:
  assumes "n \<le> length (is_payload s)" and "length (is_payload s) < 2 ^ 64" and "0 < k"
  shows "serving s i (word_of_nat n) k = Inr
    \<lparr>fc_snapshot = Some (chunk_of s n (take k (drop n (is_payload s))) (n + length (take k (drop n (is_payload s))) = length (is_payload s))),
     fc_total_len = word_of_nat (length (is_payload s)), fc_checksum = snapshot_checksum (is_payload s),
     fc_resume_offset = word_of_nat (min (length (is_payload s)) (n + k))\<rparr>"
proof -
  let ?P = "is_payload s"
  have n: "unat (word_of_nat n :: u64) = n" "unat (word_of_nat (length ?P) :: u64) = length ?P"
    using assms by (simp_all add: unat_of_nat_64)
  have stop: "min (length ?P) (min (n + max k 1) (2 ^ 64 - 1)) = min (length ?P) (n + k)" using assms by simp
  have "drop n (take (min (length ?P) (n + k)) ?P) = take k (drop n ?P)"
    using assms(1) by (simp add: drop_take min_def)
  moreover have "min (length ?P) (n + k) = length ?P \<longleftrightarrow> n + length (take k (drop n ?P)) = length ?P"
    using assms(1) by auto
  moreover have "\<not> word_of_nat (length ?P) < (word_of_nat n :: u64)" using n assms(1) by (simp add: word_less_nat_alt)
  ultimately show ?thesis
    unfolding serving_def slice_snapshot_fetch_chunk_def Let_def option.case if_False n stop by simp
qed

lemma fetch_size_pos: "0 < fetch_size"
  by (simp add: fetch_size_def)

lemma fetch_loop_serving:
  assumes "assembling s n a" and "n < length (is_payload s)" and "length (is_payload s) < 2 ^ 64"
    and "fc_checksum first = snapshot_checksum (is_payload s)" and "fc_total_len first = word_of_nat (length (is_payload s))"
  shows "fetch_loop (serving s) first i a = Some (Inr (Some s))"
  using assms(1,2)
proof (induction "length (is_payload s) - n" arbitrary: n i a rule: less_induct)
  case less
  let ?q = "take fetch_size (drop n (is_payload s))"
  let ?d = "n + length ?q = length (is_payload s)"
  have a: "sa_next_offset a = word_of_nat n" "sa_done_offset a = None" using less.prems(1) by (simp_all add: assembling_def)
  note fetch = serving_at [OF less_imp_le [OF less.prems(2)] assms(3) fetch_size_pos, of i]
  have q: "?q \<noteq> []" using less.prems(2) fetch_size_pos by simp
  note push = push_chunk_next [OF less.prems(1) refl q assms(3), of ?d]
  show ?case
  proof (cases ?d)
    case True
    then show ?thesis
      using push assms(4,5) by (subst fetch_loop.simps) (auto simp: resume_token_def a fetch)
  next
    case False
    then obtain a' where a': "push_chunk (chunk_of s n ?q False) a = Some (Inr None, a')" "assembling s (n + length ?q) a'"
      using push by auto
    have "n + length ?q < length (is_payload s)" using False less.prems(2) by (auto simp: min_def split: if_splits)
    moreover from this have "length (is_payload s) - (n + length ?q) < length (is_payload s) - n" using q by (cases ?q) auto
    ultimately have "fetch_loop (serving s) first (Suc i) a' = Some (Inr (Some s))" using less.hyps a'(2) by blast
    then show ?thesis
      using a'(1) False assms(4,5) by (subst fetch_loop.simps) (auto simp: resume_token_def a fetch)
  qed
qed

section \<open>The check returns the request\<close>

lemma snapshot_chunk_at:
  assumes "i * n + length q \<le> length (is_payload req)" and "length (is_payload req) < 2 ^ 64"
  shows "snapshot_chunk req n i q = chunk_of req (i * n) q (i * n + length q = length (is_payload req))"
proof -
  have "unat (word_of_nat (i * n) :: u64) = i * n" using assms by (intro unat_of_nat_64) simp
  then show ?thesis using assms(1) by (auto simp: snapshot_chunk_def Let_def simp del: of_nat_mult)
qed

lemma push_all_chunks:
  assumes "assembling req (i * n) a" and "i * n < length (is_payload req)" and "length (is_payload req) < 2 ^ 64" and "0 < n"
  shows "push_all req (map (\<lambda>(i, p). snapshot_chunk req n i p) (enumerate i (slice_chunks n (drop (i * n) (is_payload req))))) a =
    Some (Inr req)"
  using assms(1,2)
proof (induction "length (is_payload req) - i * n" arbitrary: i a rule: less_induct)
  case less
  let ?P = "is_payload req"
  define q where "q = take n (drop (i * n) ?P)"
  have q: "q \<noteq> []" "i * n + length q \<le> length ?P" using less.prems(2) assms(4) by (simp_all add: q_def)
  have chunks: "slice_chunks n (drop (i * n) ?P) = q # slice_chunks n (drop (Suc i * n) ?P)"
    using less.prems(2) assms(4) by (subst slice_chunks.simps) (simp add: q_def add.commute)
  note ch = snapshot_chunk_at [OF q(2) assms(3)]
  note push = push_chunk_next [OF less.prems(1) q_def q(1) assms(3) refl]
  show ?case
  proof (cases "i * n + length q = length ?P")
    case True
    then show ?thesis using push unfolding chunks enumerate_simps list.map prod.case ch by auto
  next
    case False
    then have n: "length q = n" "Suc i * n < length ?P" using less.prems(2) q(2) by (auto simp: q_def min_def split: if_splits)
    from push False obtain a' where a': "push_chunk (chunk_of req (i * n) q False) a = Some (Inr None, a')"
        "assembling req (Suc i * n) a'" unfolding n(1) by (auto simp: add.commute)
    have "length ?P - Suc i * n < length ?P - i * n" using n(2) assms(4) by simp
    from less.hyps [OF this a'(2) n(2)] show ?thesis
      using a'(1) False unfolding chunks enumerate_simps list.map prod.case ch by simp
  qed
qed

lemma new_assembler_done:
  assumes "length (is_payload req) < 2 ^ 64"
  shows "\<exists>a. new_assembler (chunk_of req 0 (is_payload req) True) = Some (Inr a)"
proof (cases "is_payload req = []")
  case True
  then show ?thesis
    by (simp add: new_assembler_def push_chunk_def validate_chunk_def try_finish_def finish_loop.simps Let_def)
next
  case False
  let ?a = "\<lparr>sa_metadata = is_metadata req, sa_term = is_term req, sa_leader_id = is_leader_id req, sa_next_offset = 0,
    sa_chunks = fmempty, sa_done_offset = None\<rparr>"
  have "assembling req 0 ?a" by (auto simp: assembling_def intro!: exI [of _ "[]"])
  from push_chunk_next [OF this _ False assms, of "length (is_payload req)" True]
  obtain a where "push_chunk (chunk_of req 0 (is_payload req) True) ?a = Some (Inr (Some req), a)" by auto
  then show ?thesis by (simp add: new_assembler_def)
qed

section \<open>Loops that end and loops that do not\<close>

definition assembler_wf :: "snapshot_chunk_assembler \<Rightarrow> bool" where
  "assembler_wf a \<longleftrightarrow> (\<forall>k p. fmlookup (sa_chunks a) k = Some p \<longrightarrow> p \<noteq> [] \<and> unat k + length p < 2 ^ 64)"

lemma contiguous_from_returns:
  assumes "\<forall>k p. fmlookup m k = Some p \<longrightarrow> p \<noteq> [] \<and> unat k + length p < 2 ^ 64"
  shows "\<exists>n. contiguous_from m offset = Some n"
proof (induction "2 ^ 64 - unat offset" arbitrary: offset rule: less_induct)
  case less
  show ?case
  proof (cases "fmlookup m offset")
    case None
    then show ?thesis by (simp add: contiguous_from.simps)
  next
    case (Some p)
    let ?next = "offset + word_of_nat (length p)"
    have p: "p \<noteq> []" "unat offset + length p < 2 ^ 64" using assms Some by blast+
    then have "unat ?next = unat offset + length p"
      by (simp add: unat_word_ariths unat_of_nat_64)
    moreover have "0 < length p" using p(1) by simp
    ultimately have "2 ^ 64 - unat ?next < 2 ^ 64 - unat offset" using p(2) by linarith
    from less.hyps [OF this] Some show ?thesis by (subst contiguous_from.simps) simp
  qed
qed

lemma finish_loop_keeps: "finish_loop d offset payload m = (r, m') \<Longrightarrow> fmlookup m' k = Some p \<Longrightarrow> fmlookup m k = Some p"
proof (induction d offset payload m rule: finish_loop.induct)
  case (1 d offset payload m)
  from 1(2,3) show ?case
    by (subst (asm) finish_loop.simps) (auto dest: 1(1) split: if_splits option.splits)
qed

lemma empty_chunk_diverges: "fmlookup m offset = Some [] \<Longrightarrow> contiguous_from m offset = None"
proof (rule ccontr)
  assume "fmlookup m offset = Some []" and "contiguous_from m offset \<noteq> None"
  moreover have "fmlookup m offset \<noteq> Some []" if "contiguous_from m offset = Some n" for n
    by (rule contiguous_from.raw_induct [OF _ that]) (auto split: option.splits)
  ultimately show False by blast
qed

section \<open>Properties\<close>

definition sample_snapshot :: install_snapshot_request where
  "sample_snapshot = \<lparr>is_term = 4, is_leader_id = 1,
     is_metadata = \<lparr>sn_shard_id = 0, sn_last_included_term = 4, sn_last_included_index = 9\<rparr>, is_payload = [97, 98, 99]\<rparr>"

text \<open>
  C18. A snapshot fetch ends with the snapshot. When the server answers every request with
  \<open>slice_snapshot_fetch_chunk\<close> of one snapshot, of whatever size the address space allows, the client's loop returns
  after finitely many requests, and what it returns is that snapshot.
\<close>

theorem snapshot_fetch_returns:
  assumes "length (is_payload s) < 2 ^ 64"
  shows "request_tcp_snapshot_fetch (serving s) = Some (Inr (Some s))"
proof -
  let ?P = "is_payload s"
  define q where "q = take fetch_size ?P"
  have first: "serving s 0 0 fetch_size = Inr \<lparr>fc_snapshot = Some (chunk_of s 0 q (length q = length ?P)),
      fc_total_len = word_of_nat (length ?P), fc_checksum = snapshot_checksum ?P,
      fc_resume_offset = word_of_nat (min (length ?P) fetch_size)\<rparr>"
    using serving_at [OF _ assms fetch_size_pos, of 0 0] by (simp add: q_def)
  show ?thesis
  proof (cases "length q = length ?P")
    case True
    then have "s\<lparr>is_payload := q\<rparr> = s" by (simp add: q_def)
    then show ?thesis using True by (simp add: request_tcp_snapshot_fetch_def first)
  next
    case False
    then have q: "q \<noteq> []" "length q < length ?P" using fetch_size_pos by (auto simp: q_def)
    obtain a where a: "new_assembler (chunk_of s 0 q False) = Some (Inr a)" "assembling s (length q) a"
      using new_assembler_next [OF q_def q assms] by blast
    show ?thesis
      using fetch_loop_serving [OF a(2) q(2) assms] a(1) False by (simp add: request_tcp_snapshot_fetch_def first)
  qed
qed

theorem snapshot_fetch_returns_witness: "request_tcp_snapshot_fetch (serving sample_snapshot) = Some (Inr (Some sample_snapshot))"
  by (rule snapshot_fetch_returns) (simp add: sample_snapshot_def)

text \<open>
  The check of a snapshot before it is sent is an identity: cutting the payload into chunks and assembling
  them again returns the request, for every payload, the empty one included.
\<close>

lemma validate_snapshot_chunks_identity:
  assumes "length (is_payload req) < 2 ^ 64"
  shows "validate_snapshot_chunks_for_tcp req = Some (Inr req)"
proof -
  let ?P = "is_payload req"
  define n :: nat where "n = 64 * 1024"
  have n: "0 < n" "max n 1 = n" by (simp_all add: n_def)
  define q where "q = take n ?P"
  have ch: "snapshot_chunk req n 0 q = chunk_of req 0 q (length q = length ?P)"
    using snapshot_chunk_at [of 0 n q req] assms by (simp add: q_def)
  have chunks: "?P \<noteq> [] \<Longrightarrow> request_chunks n req = chunk_of req 0 q (length q = length ?P) #
      map (\<lambda>(i, p). snapshot_chunk req n i p) (enumerate 1 (slice_chunks n (drop n ?P)))"
    using n(1) ch unfolding request_chunks_def n(2) by (simp add: slice_chunks.simps [of n ?P] q_def)
  show ?thesis
  proof (cases "length q = length ?P")
    case True
    then have "q = ?P" "drop n ?P = []" by (simp_all add: q_def)
    then have "request_chunks n req = [chunk_of req 0 ?P True]"
      using chunks by (cases "?P = []") (simp_all add: request_chunks_def slice_chunks.simps [of _ "[]"])
    then show ?thesis
      using new_assembler_done [OF assms] by (auto simp: validate_snapshot_chunks_for_tcp_def n_def)
  next
    case False
    then have q: "q \<noteq> []" "length q < length ?P" "length q = n" using n by (auto simp: q_def min_def split: if_splits)
    obtain a where a: "new_assembler (chunk_of req 0 q False) = Some (Inr a)" "assembling req (1 * n) a"
      using new_assembler_next [OF q_def q(1,2) assms] q(3) by auto
    have "?P \<noteq> []" using q(2) by auto
    with push_all_chunks [OF a(2) _ assms n(1)] q(2,3) a(1) chunks False show ?thesis
      unfolding validate_snapshot_chunks_for_tcp_def n_def [symmetric] by simp
  qed
qed

text \<open>
  C23. Taking in a chunk ends, as long as no chunk is empty: on an assembler whose chunks hold at least one byte
  each and end inside the address space, a push of another such chunk returns, with a result or an error, and
  leaves an assembler of the same kind.
\<close>

theorem push_chunk_returns:
  assumes "assembler_wf a" and "is_payload (ic_request ch) \<noteq> []"
    and "unat (ic_offset ch) + length (is_payload (ic_request ch)) < 2 ^ 64"
  shows "\<exists>r a'. push_chunk ch a = Some (r, a') \<and> assembler_wf a'"
proof (cases "validate_chunk ch a")
  case (Inl e)
  then show ?thesis using assms(1) by (simp add: push_chunk_def)
next
  case (Inr u)
  let ?m = "fmupd (ic_offset ch) (is_payload (ic_request ch)) (sa_chunks a)"
  define b where "b = (let a1 = a\<lparr>sa_chunks := ?m\<rparr> in if ic_done ch
      then a1\<lparr>sa_done_offset := Some (ic_offset ch + word_of_nat (length (is_payload (ic_request ch))))\<rparr> else a1)"
  have m: "\<forall>k p. fmlookup ?m k = Some p \<longrightarrow> p \<noteq> [] \<and> unat k + length p < 2 ^ 64"
    using assms by (simp add: assembler_wf_def)
  have b: "sa_chunks b = ?m" by (simp add: b_def Let_def)
  have "\<exists>r a'. try_finish b = Some (r, a') \<and> assembler_wf a'"
  proof (cases "sa_done_offset b")
    case None
    then show ?thesis
      using contiguous_from_returns [OF m, of 0] m by (auto simp: try_finish_def contiguous_len_def b assembler_wf_def)
  next
    case (Some d)
    then show ?thesis
      using finish_loop_keeps [of d 0 "[]" ?m] m
      by (auto simp: try_finish_def b assembler_wf_def split: prod.splits sum.splits) blast+
  qed
  then show ?thesis using Inr by (auto simp: push_chunk_def b_def Let_def)
qed

theorem push_chunk_returns_witness:
  "\<exists>r a'. push_chunk (chunk_of sample_snapshot 0 [97] False)
     \<lparr>sa_metadata = is_metadata sample_snapshot, sa_term = 4, sa_leader_id = 1, sa_next_offset = 0, sa_chunks = fmempty,
      sa_done_offset = None\<rparr> = Some (r, a') \<and> assembler_wf a'"
  by (rule push_chunk_returns) (simp_all add: assembler_wf_def)

text \<open>
  C38. One empty chunk stops the client for ever. When the first answer of a server is an empty chunk that is not
  the last one, \<open>contiguous_len\<close> looks up the same offset again and again, and the fetch never returns.
\<close>

theorem empty_chunk_hangs_fetch:
  "request_tcp_snapshot_fetch (\<lambda>i offset k. Inr \<lparr>fc_snapshot = Some (chunk_of s 0 [] False), fc_total_len = n,
     fc_checksum = x, fc_resume_offset = r\<rparr>) = None"
  by (simp add: request_tcp_snapshot_fetch_def new_assembler_def push_chunk_def validate_chunk_def try_finish_def
      contiguous_len_def empty_chunk_diverges)

end
