(* ===== verification/Consensus.thy ===== *)
theory Consensus
  imports Db_Error Clock Shard
begin

text \<open>
  Index allocation on the primary of a shard (\<open>StaticPrimaryShardReplication\<close> in \<open>neo4r-db/src/consensus.rs\<close>). A
  proposal takes three critical sections: it reserves an index under the lock of the states, stamps the entry under
  the lock of the clock, hands it to the replicator without a lock, and then marks it committed or rolls it back under
  the lock of the states; other proposals run in between. The replicator is the argument \<open>publish\<close>, the wall clock the
  argument \<open>now\<close>. No lock is held across a panic, so \<open>LockPoisoned\<close> does not arise.
\<close>

section \<open>The state\<close>

record shard_commit_state =
  cs_shard_id :: shard_id
  cs_term :: u64
  cs_commit_index :: log_index
  cs_last_log_index :: log_index

record proposed_command =
  pc_shard_id :: shard_id
  pc_command :: command

record shard_state =
  ss_current_term :: u64
  ss_next_index :: log_index
  ss_commit_index :: log_index

definition default_shard_state :: shard_state where
  "default_shard_state = \<lparr>ss_current_term = 1, ss_next_index = 1, ss_commit_index = 0\<rparr>"

record consensus =
  sp_server_id :: server_id
  sp_routing_table :: shard_routing_table
  sp_clock :: hybrid_clock
  sp_states :: "(shard_id, shard_state) fmap"

definition new_consensus :: "server_id \<Rightarrow> shard_routing_table \<Rightarrow> consensus" where
  "new_consensus srv table = \<lparr>sp_server_id = srv, sp_routing_table = table, sp_clock = new_clock,
     sp_states = fmap_of_list (map (\<lambda>p. (placement_shard_id p, default_shard_state)) (table_placements table))\<rparr>"

text \<open>\<open>states.entry(shard_id).or_default()\<close>, and the write back.\<close>

definition state_of :: "consensus \<Rightarrow> shard_id \<Rightarrow> shard_state" where
  "state_of c s = (case fmlookup (sp_states c) s of Some st \<Rightarrow> st | None \<Rightarrow> default_shard_state)"

definition put_state :: "shard_id \<Rightarrow> shard_state \<Rightarrow> consensus \<Rightarrow> consensus" where
  "put_state s st c = c\<lparr>sp_states := fmupd s st (sp_states c)\<rparr>"

section \<open>The operations\<close>

definition ensure_local_primary :: "consensus \<Rightarrow> shard_id \<Rightarrow> database_error + unit" where
  "ensure_local_primary c s =
     (let primary = primary_server_id (sp_routing_table c) s
      in if primary \<noteq> Some (sp_server_id c) then Inl (ShardNotPrimary s (sp_server_id c) primary) else Inr ())"

text \<open>The two critical sections of \<open>allocate_entry\<close>: the one of the states, and the one of the clock.\<close>

definition reserve_index :: "proposed_command \<Rightarrow> consensus \<Rightarrow> (u64 \<times> log_index) \<times> consensus" where
  "reserve_index p c =
     (let st = state_of c (pc_shard_id p)
      in ((ss_current_term st, ss_next_index st),
          put_state (pc_shard_id p) (st\<lparr>ss_next_index := saturating_add (ss_next_index st) 1\<rparr>) c))"

definition stamp_entry :: "u64 \<Rightarrow> proposed_command \<Rightarrow> u64 \<times> log_index \<Rightarrow> consensus \<Rightarrow> log_entry \<times> consensus" where
  "stamp_entry now p = (\<lambda>(term, index) c.
     let (timestamp, clock) = tick now (sp_clock c)
     in (new_with_metadata (pc_shard_id p) term index (sp_server_id c) (table_version (sp_routing_table c)) timestamp
           (pc_command p), c\<lparr>sp_clock := clock\<rparr>))"

definition allocate_entry :: "u64 \<Rightarrow> proposed_command \<Rightarrow> consensus \<Rightarrow> (database_error + log_entry) \<times> consensus" where
  "allocate_entry now p c =
     (case ensure_local_primary c (pc_shard_id p) of
        Inl e \<Rightarrow> (Inl e, c)
      | Inr _ \<Rightarrow> let (slot, c1) = reserve_index p c; (entry, c2) = stamp_entry now p slot c1 in (Inr entry, c2))"

definition rollback_proposal :: "log_entry \<Rightarrow> consensus \<Rightarrow> consensus" where
  "rollback_proposal e c =
     (case fmlookup (sp_states c) (entry_shard_id e) of
        None \<Rightarrow> c
      | Some st \<Rightarrow>
          if ss_next_index st = saturating_add (entry_index e) 1 \<and> ss_commit_index st < entry_index e \<and>
             ss_current_term st = entry_term e
          then put_state (entry_shard_id e) (st\<lparr>ss_next_index := entry_index e\<rparr>) c
          else c)"

definition mark_committed :: "log_entry \<Rightarrow> consensus \<Rightarrow> consensus" where
  "mark_committed e c =
     (let st = state_of c (entry_shard_id e)
      in put_state (entry_shard_id e)
           \<lparr>ss_current_term = max (ss_current_term st) (entry_term e),
            ss_next_index = max (ss_next_index st) (saturating_add (entry_index e) 1),
            ss_commit_index = max (ss_commit_index st) (entry_index e)\<rparr> c)"

definition append_entry :: "log_entry \<Rightarrow> consensus \<Rightarrow> (database_error + unit) \<times> consensus" where
  "append_entry e c =
     (let st = state_of c (entry_shard_id e);
          c0 = put_state (entry_shard_id e) st c
      in if entry_term e < ss_current_term st
         then (Inl (LogConflict (entry_shard_id e) (entry_index e) (''entry term '' @ show_u64 (entry_term e) @
                '' is older than current term '' @ show_u64 (ss_current_term st))), c0)
         else if entry_index e < ss_next_index st
         then (Inr (), put_state (entry_shard_id e)
                (st\<lparr>ss_current_term := max (ss_current_term st) (entry_term e),
                    ss_commit_index := max (ss_commit_index st) (entry_index e)\<rparr>) c0)
         else if ss_next_index st < entry_index e
         then (Inl (UnexpectedLogIndex (entry_shard_id e) (ss_next_index st) (entry_index e)), c0)
         else (Inr (), put_state (entry_shard_id e)
                \<lparr>ss_current_term = max (ss_current_term st) (entry_term e),
                 ss_next_index = saturating_add (entry_index e) 1,
                 ss_commit_index = max (ss_commit_index st) (entry_index e)\<rparr> c0))"

definition propose :: "u64 \<Rightarrow> (log_entry \<Rightarrow> database_error + 'o) \<Rightarrow> proposed_command \<Rightarrow> consensus \<Rightarrow>
    (database_error + log_entry) \<times> consensus" where
  "propose now publish p c =
     (case allocate_entry now p c of
        (Inl e, c1) \<Rightarrow> (Inl e, c1)
      | (Inr entry, c1) \<Rightarrow>
          (case publish entry of
             Inr outcome \<Rightarrow> (Inr entry, mark_committed entry c1)
           | Inl err \<Rightarrow> (Inl err, rollback_proposal entry c1)))"

text \<open>\<open>append_entries\<close>, each entry with the time its timestamp is observed at.\<close>

fun append_loop_entries :: "(u64 \<times> log_entry) list \<Rightarrow> log_index \<Rightarrow> consensus \<Rightarrow> (database_error + log_index) \<times> consensus" where
  "append_loop_entries [] last_index c = (Inr last_index, c)"
| "append_loop_entries ((now, e) # es) last_index c =
     (case append_entry e c of
        (Inl err, c1) \<Rightarrow> (Inl err, c1)
      | (Inr _, c1) \<Rightarrow> append_loop_entries es (max last_index (entry_index e))
          (c1\<lparr>sp_clock := snd (observe now (entry_timestamp e) (sp_clock c1))\<rparr>))"

definition consensus_append_entries :: "(u64 \<times> log_entry) list \<Rightarrow> consensus \<Rightarrow> (database_error + log_index) \<times> consensus" where
  "consensus_append_entries es c = append_loop_entries es 0 c"

definition commit_state :: "consensus \<Rightarrow> shard_id \<Rightarrow> shard_commit_state" where
  "commit_state c s =
     (let st = state_of c s
      in \<lparr>cs_shard_id = s, cs_term = ss_current_term st, cs_commit_index = ss_commit_index st,
          cs_last_log_index = saturating_sub (ss_next_index st) 1\<rparr>)"

section \<open>Well-formed states\<close>

definition state_wf :: "shard_state \<Rightarrow> bool" where
  "state_wf st \<longleftrightarrow> ss_commit_index st < ss_next_index st \<and> 1 \<le> ss_current_term st"

definition consensus_wf :: "consensus \<Rightarrow> bool" where
  "consensus_wf c \<longleftrightarrow> (\<forall>s. state_wf (state_of c s))"

definition state_forward :: "shard_state \<Rightarrow> shard_state \<Rightarrow> bool" where
  "state_forward st st' \<longleftrightarrow> ss_commit_index st \<le> ss_commit_index st' \<and> ss_current_term st \<le> ss_current_term st'"

lemma state_of_put [simp]: "state_of (put_state s st c) t = (if t = s then st else state_of c t)"
  by (simp add: state_of_def put_state_def)

lemma state_of_clock [simp]: "state_of (c\<lparr>sp_clock := k\<rparr>) t = state_of c t"
  by (simp add: state_of_def)

lemma put_state_same [simp]: "sp_server_id (put_state s st c) = sp_server_id c" "sp_routing_table (put_state s st c) = sp_routing_table c"
  by (simp_all add: put_state_def)

lemma reserve_index_ok:
  assumes "reserve_index p c = ((term, i), c')"
  shows "i = ss_next_index (state_of c (pc_shard_id p))"
    "state_of c' t = (if t = pc_shard_id p then (state_of c t)\<lparr>ss_next_index := saturating_add i 1\<rparr> else state_of c t)"
  using assms by (auto simp: reserve_index_def Let_def)

lemma stamp_entry_ok:
  assumes "stamp_entry now p (term, i) c = (e, c')"
  shows "entry_shard_id e = pc_shard_id p" "entry_index e = i" "state_of c' t = state_of c t"
  using assms by (auto simp: stamp_entry_def Let_def new_with_metadata_def split: prod.splits)

lemma rollback_state:
  "state_of (rollback_proposal e c) t = state_of c t \<or>
   (t = entry_shard_id e \<and> ss_next_index (state_of c t) = saturating_add (entry_index e) 1 \<and>
    ss_commit_index (state_of c t) < entry_index e \<and>
    state_of (rollback_proposal e c) t = (state_of c t)\<lparr>ss_next_index := entry_index e\<rparr>)"
  by (auto simp: rollback_proposal_def state_of_def put_state_def split: option.splits)

text \<open>The critical sections, in any order; an entry that is committed or appended does not have the index \<open>u64::MAX\<close>.\<close>

inductive consensus_step :: "consensus \<Rightarrow> consensus \<Rightarrow> bool" where
  reserve: "ensure_local_primary c (pc_shard_id p) = Inr () \<Longrightarrow> reserve_index p c = (slot, c') \<Longrightarrow> consensus_step c c'"
| stamp: "stamp_entry now p slot c = (e, c') \<Longrightarrow> consensus_step c c'"
| commit: "entry_index e \<noteq> - 1 \<Longrightarrow> consensus_step c (mark_committed e c)"
| rollback: "consensus_step c (rollback_proposal e c)"
| append: "append_entry e c = (r, c') \<Longrightarrow> entry_index e \<noteq> - 1 \<Longrightarrow> consensus_step c c'"
| observed: "consensus_step c (c\<lparr>sp_clock := snd (observe now t (sp_clock c))\<rparr>)"

definition step_ok :: "shard_state \<Rightarrow> shard_state \<Rightarrow> bool" where
  "step_ok st st' \<longleftrightarrow> state_wf st' \<and> state_forward st st'"

lemma step_ok_refl: "state_wf st \<Longrightarrow> step_ok st st"
  by (simp add: step_ok_def state_forward_def)

lemma step_ok_trans: "step_ok a b \<Longrightarrow> step_ok b c \<Longrightarrow> step_ok a c"
  by (auto simp: step_ok_def state_forward_def)

lemma consensus_step_ok:
  assumes "consensus_step c c'" and wf: "state_wf (state_of c t)"
  shows "step_ok (state_of c t) (state_of c' t)"
  using assms(1)
proof cases
  case (reserve p slot)
  obtain k i where slot: "slot = (k, i)" by (cases slot)
  note r = reserve_index_ok [OF reserve(2) [unfolded slot]]
  have "ss_next_index (state_of c t) \<le> saturating_add (ss_next_index (state_of c t)) 1" by (rule saturating_add_ge)
  then show ?thesis using wf r by (auto simp: step_ok_def state_wf_def state_forward_def)
next
  case (stamp now p slot e)
  then show ?thesis using stamp_entry_ok(3) [of now p "fst slot" "snd slot" c e c'] step_ok_refl [OF wf] by simp
next
  case (commit e)
  have "entry_index e < saturating_add (entry_index e) 1" using commit(2) by (rule saturating_add_one_gt)
  then show ?thesis
    using wf by (auto simp: commit(1) mark_committed_def Let_def step_ok_def state_wf_def state_forward_def max_def)
next
  case (rollback e)
  then show ?thesis
    using rollback_state [of e c t] step_ok_refl [OF wf] wf by (auto simp: step_ok_def state_wf_def state_forward_def)
next
  case (append e r)
  have "entry_index e < saturating_add (entry_index e) 1" using append(2) by (rule saturating_add_one_gt)
  then show ?thesis
    using wf append(1)
    by (auto simp: append_entry_def Let_def step_ok_def state_wf_def state_forward_def max_def split: if_splits)
qed (simp add: step_ok_refl [OF wf])

lemma consensus_steps_ok:
  "consensus_step\<^sup>*\<^sup>* c c' \<Longrightarrow> state_wf (state_of c t) \<Longrightarrow> step_ok (state_of c t) (state_of c' t)"
proof (induction rule: rtranclp_induct)
  case base
  then show ?case by (rule step_ok_refl)
next
  case (step d e)
  then have "step_ok (state_of c t) (state_of d t)" by blast
  moreover from this have "step_ok (state_of d t) (state_of e t)"
    using consensus_step_ok [OF step(2)] by (simp add: step_ok_def)
  ultimately show ?case by (rule step_ok_trans)
qed

lemma new_consensus_state: "state_of (new_consensus srv table) t = default_shard_state"
proof (cases "fmlookup (sp_states (new_consensus srv table)) t")
  case (Some st)
  then have "(t, st) \<in> set (map (\<lambda>p. (placement_shard_id p, default_shard_state)) (table_placements table))"
    by (auto simp: new_consensus_def fmlookup_of_list dest: map_of_SomeD)
  then show ?thesis using Some by (auto simp: state_of_def)
qed (simp add: state_of_def)

section \<open>Concurrent proposals\<close>

text \<open>
  Reserved indexes that have no entry yet, entries handed to the replicator and not yet answered, and committed
  entries. An index below \<open>u64::MAX\<close> is left for a new proposal.
\<close>

type_synonym reservation = "proposed_command \<times> u64 \<times> log_index"

inductive proposal_step ::
  "consensus \<times> reservation set \<times> log_entry set \<times> log_entry set \<Rightarrow>
   consensus \<times> reservation set \<times> log_entry set \<times> log_entry set \<Rightarrow> bool" where
  reserved: "ensure_local_primary c (pc_shard_id p) = Inr () \<Longrightarrow> reserve_index p c = (slot, c') \<Longrightarrow>
    ss_next_index (state_of c (pc_shard_id p)) \<noteq> - 1 \<Longrightarrow> proposal_step (c, R, P, C) (c', insert (p, slot) R, P, C)"
| stamped: "(p, slot) \<in> R \<Longrightarrow> stamp_entry now p slot c = (e, c') \<Longrightarrow>
    proposal_step (c, R, P, C) (c', R - {(p, slot)}, insert e P, C)"
| published: "e \<in> P \<Longrightarrow> proposal_step (c, R, P, C) (mark_committed e c, R, P - {e}, insert e C)"
| failed: "e \<in> P \<Longrightarrow> proposal_step (c, R, P, C) (rollback_proposal e c, R, P - {e}, C)"

text \<open>The shard and index that a reservation or an entry holds.\<close>

fun slot_of :: "reservation + log_entry \<Rightarrow> shard_id \<times> log_index" where
  "slot_of (Inl (p, term, i)) = (pc_shard_id p, i)"
| "slot_of (Inr e) = (entry_shard_id e, entry_index e)"

definition in_use :: "reservation set \<Rightarrow> log_entry set \<Rightarrow> log_entry set \<Rightarrow> (reservation + log_entry) set" where
  "in_use R P C = Inl ` R \<union> Inr ` (P \<union> C)"

definition below_next :: "consensus \<Rightarrow> shard_id \<times> log_index \<Rightarrow> bool" where
  "below_next c = (\<lambda>(s, i). i < ss_next_index (state_of c s))"

definition unique_below :: "consensus \<Rightarrow> (reservation + log_entry) set \<Rightarrow> bool" where
  "unique_below c X \<longleftrightarrow> (\<forall>x \<in> X. below_next c (slot_of x)) \<and> inj_on slot_of X"

lemma in_use_simps [simp]:
  "Inl q \<in> in_use R P C \<longleftrightarrow> q \<in> R" "Inr e \<in> in_use R P C \<longleftrightarrow> e \<in> P \<union> C" "in_use {} {} {} = {}"
  by (auto simp: in_use_def)

lemma saturating_suc_le: "a < b \<Longrightarrow> saturating_add a 1 \<le> b" for a b :: u64
  by (simp add: word_less_nat_alt word_le_nat_alt unat_saturating_add)

lemma less_saturating_suc: "a < saturating_add b 1 \<Longrightarrow> a \<noteq> b \<Longrightarrow> a < b" for a b :: u64
  using saturating_suc_le [of b a] by (meson leD not_less_iff_gr_or_eq)

lemma inj_on_replace: "inj_on f X \<Longrightarrow> x \<in> X \<Longrightarrow> f y = f x \<Longrightarrow> inj_on f (insert y (X - {x}))"
  by (auto simp: inj_on_def)

text \<open>What a step does to the indexes of a shard.\<close>

lemma reserve_below:
  assumes "reserve_index p c = (slot, c')"
  shows "\<not> below_next c (slot_of (Inl (p, slot)))" "below_next c q \<Longrightarrow> below_next c' q"
    "ss_next_index (state_of c (pc_shard_id p)) \<noteq> - 1 \<Longrightarrow> below_next c' (slot_of (Inl (p, slot)))"
proof -
  obtain k i where slot: "slot = (k, i)" by (cases slot)
  note r = reserve_index_ok [OF assms [unfolded slot]]
  show "\<not> below_next c (slot_of (Inl (p, slot)))" by (simp add: slot below_next_def r(1))
  show "below_next c q \<Longrightarrow> below_next c' q"
    using saturating_add_ge [of i 1] r(1) by (auto simp: below_next_def r(2) split: prod.splits)
  show "below_next c' (slot_of (Inl (p, slot)))" if "ss_next_index (state_of c (pc_shard_id p)) \<noteq> - 1"
    using saturating_add_one_gt that unfolding slot r(1) [symmetric] by (simp add: below_next_def r(2))
qed

lemma stamp_same:
  assumes "stamp_entry now p slot c = (e, c')"
  shows "slot_of (Inr e) = slot_of (Inl (p, slot))" "below_next c' = below_next c"
proof -
  obtain k i where slot: "slot = (k, i)" by (cases slot)
  note e = stamp_entry_ok [OF assms [unfolded slot]]
  show "slot_of (Inr e) = slot_of (Inl (p, slot))" "below_next c' = below_next c"
    by (simp_all add: slot e below_next_def)
qed

lemma committed_below: "below_next c q \<Longrightarrow> below_next (mark_committed e c) q"
  by (auto simp: below_next_def mark_committed_def Let_def less_max_iff_disj split: prod.splits)

lemma rollback_below: "below_next c q \<Longrightarrow> q \<noteq> slot_of (Inr e) \<Longrightarrow> below_next (rollback_proposal e c) q"
  using rollback_state [of e c "fst q"] less_saturating_suc [of "snd q" "entry_index e"]
  by (cases q) (auto simp: below_next_def)

lemma proposal_step_unique:
  assumes "proposal_step (c, R, P, C) (c', R', P', C')" and u: "unique_below c (in_use R P C)" and "P \<inter> C = {}"
  shows "unique_below c' (in_use R' P' C') \<and> P' \<inter> C' = {}"
  using assms(1)
proof cases
  case (reserved p slot)
  note b = reserve_below [OF reserved(5)]
  have new: "slot_of (Inl (p, slot)) \<notin> slot_of ` in_use R P C"
    using u b(1) by (auto simp: unique_below_def simp del: slot_of.simps)
  then have none: "Inl (p, slot) \<notin> in_use R P C" by blast
  have "in_use R' P' C' = insert (Inl (p, slot)) (in_use R P C)" by (auto simp: in_use_def reserved)
  moreover have "inj_on slot_of (insert (Inl (p, slot)) (in_use R P C))"
    using u new none by (simp add: unique_below_def inj_on_insert del: slot_of.simps)
  ultimately show ?thesis
    using u assms(3) b(2) b(3) [OF reserved(6)] reserved(2,3) by (auto simp: unique_below_def simp del: slot_of.simps)
next
  case (stamped p slot now e)
  note s = stamp_same [OF stamped(5)]
  have slot: "Inl (p, slot) \<in> in_use R P C" using stamped by simp
  have none: "Inr e \<notin> in_use R P C"
    using inj_onD [of slot_of "in_use R P C" "Inr e" "Inl (p, slot)"] s(1) slot u by (auto simp: unique_below_def)
  have X: "in_use R' P' C' = insert (Inr e) (in_use R P C - {Inl (p, slot)})" by (auto simp: in_use_def stamped)
  have "inj_on slot_of (in_use R' P' C')"
    unfolding X by (rule inj_on_replace [OF _ slot s(1)]) (use u in \<open>simp add: unique_below_def\<close>)
  moreover have "\<forall>x \<in> in_use R' P' C'. below_next c' (slot_of x)"
    using u slot unfolding X s(2) by (auto simp: unique_below_def s(1) simp del: slot_of.simps)
  ultimately show ?thesis using assms(3) none stamped(2,3) by (auto simp: unique_below_def)
next
  case (published e)
  then have "in_use R' P' C' = in_use R P C" "P' \<inter> C' = {}" using assms(3) by (auto simp: in_use_def)
  then show ?thesis using u published(1) committed_below by (simp add: unique_below_def)
next
  case (failed e)
  have "in_use R' P' C' = in_use R P C - {Inr e}" using failed assms(3) by (auto simp: in_use_def)
  moreover have "slot_of x \<noteq> slot_of (Inr e)" if "x \<in> in_use R P C - {Inr e}" for x
    using that inj_onD [of slot_of "in_use R P C" x "Inr e"] u failed(5) by (auto simp: unique_below_def)
  ultimately show ?thesis
    using u rollback_below failed(1) failed assms(3) by (auto simp: unique_below_def intro: inj_on_diff simp del: slot_of.simps)
qed

lemma proposal_steps_unique:
  "proposal_step\<^sup>*\<^sup>* (c, R, P, C) (c', R', P', C') \<Longrightarrow> unique_below c (in_use R P C) \<Longrightarrow> P \<inter> C = {} \<Longrightarrow>
    unique_below c' (in_use R' P' C') \<and> P' \<inter> C' = {}"
proof (induction "(c', R', P', C')" arbitrary: c' R' P' C' rule: rtranclp_induct)
  case (step y)
  obtain d Q D E where y: "y = (d, Q, D, E)" by (metis prod_cases4)
  from step(3) [OF y step(4,5)] have "unique_below d (in_use Q D E)" "D \<inter> E = {}" by simp_all
  with step(2) [unfolded y] show ?case by (rule proposal_step_unique)
qed simp

section \<open>An index that is never used\<close>

text \<open>
  The primary and one of its replicas: the replica receives entries that are pending or committed, in requests of
  any length and any order, as often as they are sent.
\<close>

inductive replicated_step ::
  "(consensus \<times> reservation set \<times> log_entry set \<times> log_entry set) \<times> consensus \<Rightarrow>
   (consensus \<times> reservation set \<times> log_entry set \<times> log_entry set) \<times> consensus \<Rightarrow> bool" where
  on_primary: "proposal_step st st' \<Longrightarrow> replicated_step (st, r) (st', r)"
| on_replica: "snd ` set es \<subseteq> P \<union> C \<Longrightarrow>
    replicated_step ((c, R, P, C), r) ((c, R, P, C), snd (consensus_append_entries es r))"

text \<open>The index lies behind the next one and nothing holds it, and the replica has not got beyond it.\<close>

definition gap_at :: "shard_id \<times> log_index \<Rightarrow> consensus \<Rightarrow> (reservation + log_entry) set \<Rightarrow> bool" where
  "gap_at q c X \<longleftrightarrow> below_next c q \<and> (\<forall>x \<in> X. slot_of x \<noteq> q)"

definition stopped_at :: "shard_id \<times> log_index \<Rightarrow> consensus \<Rightarrow> bool" where
  "stopped_at = (\<lambda>(s, i) r. ss_next_index (state_of r s) \<le> i)"

lemma gap_atD: "gap_at q c (in_use R P C) \<Longrightarrow> e \<in> P \<union> C \<Longrightarrow> slot_of (Inr e) \<noteq> q"
  unfolding gap_at_def by (drule conjunct2, drule bspec [of _ _ "Inr e"]) simp_all

lemma proposal_step_gap:
  assumes "proposal_step (c, R, P, C) (c', R', P', C')" and g: "gap_at q c (in_use R P C)"
  shows "gap_at q c' (in_use R' P' C')"
  using assms(1)
proof cases
  case (reserved p slot)
  note b = reserve_below [OF reserved(5)]
  have "in_use R' P' C' = insert (Inl (p, slot)) (in_use R P C)" by (auto simp: in_use_def reserved)
  moreover have "slot_of (Inl (p, slot)) \<noteq> q" using b(1) g by (auto simp: gap_at_def)
  ultimately show ?thesis using g b(2) by (auto simp: gap_at_def)
next
  case (stamped p slot now e)
  have "in_use R' P' C' \<subseteq> insert (Inr e) (in_use R P C)" by (auto simp: in_use_def stamped)
  moreover have "slot_of (Inr e) \<noteq> q"
    using g stamped(4) unfolding stamp_same(1) [OF stamped(5)] by (auto simp: gap_at_def)
  ultimately show ?thesis using g stamp_same(2) [OF stamped(5)] by (auto simp: gap_at_def simp del: slot_of.simps)
next
  case (published e)
  then have "in_use R' P' C' = in_use R P C" by (auto simp: in_use_def)
  then show ?thesis using g published(1) committed_below by (simp add: gap_at_def)
next
  case (failed e)
  have "in_use R' P' C' \<subseteq> in_use R P C" by (auto simp: in_use_def failed)
  moreover have "q \<noteq> slot_of (Inr e)" using gap_atD [OF g, of e] failed(5) by blast
  ultimately show ?thesis using g rollback_below [of c q e] by (auto simp: gap_at_def failed(1) simp del: slot_of.simps)
qed

lemma append_entry_stopped:
  assumes "stopped_at q r" and "slot_of (Inr e) \<noteq> q"
  shows "stopped_at q (snd (append_entry e r))"
    and "entry_shard_id e = fst q \<Longrightarrow> snd q < entry_index e \<Longrightarrow> \<exists>err. fst (append_entry e r) = Inl err"
  using assms saturating_suc_le [of "entry_index e" "snd q"]
  by (cases q, auto simp: stopped_at_def append_entry_def Let_def not_less)+

lemma append_loop_entries_stopped:
  "stopped_at q r \<Longrightarrow> \<forall>e \<in> snd ` set es. slot_of (Inr e) \<noteq> q \<Longrightarrow> stopped_at q (snd (append_loop_entries es n r))"
proof (induction es n r rule: append_loop_entries.induct)
  case (2 now e es n r)
  note s = append_entry_stopped(1) [OF 2(2), of e]
  obtain x r1 where x: "append_entry e r = (x, r1)" by fastforce
  then have r1: "stopped_at q r1" using s 2(3) by simp
  then have "stopped_at q (r1\<lparr>sp_clock := snd (observe now (entry_timestamp e) (sp_clock r1))\<rparr>)"
    by (simp add: stopped_at_def split: prod.splits)
  then show ?case using 2 x r1 by (cases x) simp_all
qed simp

lemma replicated_steps_gap:
  assumes "replicated_step\<^sup>*\<^sup>* ((c, R, P, C), r) ((c', R', P', C'), r')" and "gap_at q c (in_use R P C)" and "stopped_at q r"
  shows "gap_at q c' (in_use R' P' C') \<and> stopped_at q r'"
  using assms
proof (induction "((c', R', P', C'), r')" arbitrary: c' R' P' C' r' rule: rtranclp_induct)
  case (step y)
  obtain d Q D E t where y: "y = ((d, Q, D, E), t)" by (metis prod.exhaust)
  have IH: "gap_at q d (in_use Q D E)" "stopped_at q t" using step(3) [OF y step(4,5)] by simp_all
  from step(2) [unfolded y] show ?case
  proof cases
    case on_primary
    then show ?thesis using proposal_step_gap IH by blast
  next
    case (on_replica es)
    have "\<forall>e \<in> snd ` set es. slot_of (Inr e) \<noteq> q"
      using gap_atD [OF IH(1)] on_replica by blast
    then show ?thesis
      using append_loop_entries_stopped [OF IH(2)] IH(1) on_replica by (simp add: consensus_append_entries_def)
  qed
qed simp

lemma failed_leaves_gap:
  assumes u: "unique_below c (in_use R P C)" and a: "a \<in> P" "P \<inter> C = {}"
    and later: "saturating_add (entry_index a) 1 < ss_next_index (state_of c (entry_shard_id a))"
  shows "gap_at (slot_of (Inr a)) (rollback_proposal a c) (in_use R (P - {a}) C)"
proof -
  have "state_of (rollback_proposal a c) t = state_of c t" for t
    using rollback_state [of a c t] later by auto
  moreover have "Inr a \<in> in_use R P C" using a(1) by simp
  then have "below_next c (slot_of (Inr a))" using u by (simp only: unique_below_def)
  ultimately have "below_next (rollback_proposal a c) (slot_of (Inr a))" by (simp add: below_next_def)
  moreover have "slot_of x \<noteq> slot_of (Inr a)" if "x \<in> in_use R (P - {a}) C" for x
  proof -
    have "x \<in> in_use R P C" "x \<noteq> Inr a" "Inr a \<in> in_use R P C" using that a by (auto simp: in_use_def)
    then show ?thesis using u inj_onD [of slot_of "in_use R P C" x "Inr a"] by (auto simp: unique_below_def)
  qed
  ultimately show ?thesis by (simp add: gap_at_def)
qed

lemma new_consensus_unique: "unique_below (new_consensus srv table) (in_use {} {} {})"
  by (simp add: unique_below_def)

text \<open>A whole \<open>allocate_entry\<close> is a reservation and a stamp.\<close>

lemma allocation_steps:
  assumes "allocate_entry now p c = (Inr e, c')" and "ss_next_index (state_of c (pc_shard_id p)) \<noteq> - 1"
  shows "proposal_step\<^sup>*\<^sup>* (c, {}, P, C) (c', {}, insert e P, C)"
proof -
  obtain slot c1 where r: "reserve_index p c = (slot, c1)" by fastforce
  have e: "stamp_entry now p slot c1 = (e, c')" "ensure_local_primary c (pc_shard_id p) = Inr ()"
    using assms(1) r by (auto simp: allocate_entry_def Let_def split: sum.splits prod.splits)
  have "proposal_step (c, {}, P, C) (c1, insert (p, slot) {}, P, C)"
    by (rule proposal_step.reserved [OF e(2) r assms(2)])
  moreover have "proposal_step (c1, {(p, slot)}, P, C) (c', {(p, slot)} - {(p, slot)}, insert e P, C)"
    by (rule proposal_step.stamped [OF _ e(1)]) simp
  ultimately show ?thesis by (simp add: converse_rtranclp_into_rtranclp r_into_rtranclp)
qed

section \<open>Properties\<close>

definition two_replicas :: shard_routing_table where
  "two_replicas = \<lparr>table_version = 7, table_placements =
     [\<lparr>placement_shard_id = 0, placement_replicas = [primary_replica 10, replica_replica 11]\<rparr>]\<rparr>"

definition sample_proposal :: proposed_command where
  "sample_proposal = \<lparr>pc_shard_id = 0, pc_command = DeleteNode 1\<rparr>"

definition allocated :: "consensus \<Rightarrow> log_entry" where
  "allocated c = projr (fst (allocate_entry 5 sample_proposal c))"

definition after_allocation :: "consensus \<Rightarrow> consensus" where
  "after_allocation c = snd (allocate_entry 5 sample_proposal c)"

text \<open>
  C22. The state of a shard stays well formed and goes forwards. Whatever indexes are reserved, entries stamped,
  committed, rolled back and appended, in any order of the critical sections, the reported commit index never exceeds
  the reported last index, and neither the term nor the commit index decreases. No committed or appended entry has
  the index \<open>u64::MAX\<close>.
\<close>

theorem consensus_state_wf:
  assumes "consensus_step\<^sup>*\<^sup>* (new_consensus srv table) c" and "consensus_step\<^sup>*\<^sup>* c c'"
  shows "cs_commit_index (commit_state c' s) \<le> cs_last_log_index (commit_state c' s) \<and>
    1 \<le> cs_term (commit_state c' s) \<and> cs_term (commit_state c s) \<le> cs_term (commit_state c' s) \<and>
    cs_commit_index (commit_state c s) \<le> cs_commit_index (commit_state c' s)"
proof -
  have "state_wf (state_of (new_consensus srv table) s)" by (simp add: new_consensus_state default_shard_state_def state_wf_def)
  from consensus_steps_ok [OF assms(1) this] have "state_wf (state_of c s)" by (simp add: step_ok_def)
  from consensus_steps_ok [OF assms(2) this] have ok: "step_ok (state_of c s) (state_of c' s)" .
  then have "unat (ss_commit_index (state_of c' s)) \<le> unat (ss_next_index (state_of c' s)) - 1"
    by (auto simp: step_ok_def state_wf_def word_less_nat_alt)
  with ok show ?thesis
    by (simp add: commit_state_def Let_def step_ok_def state_wf_def state_forward_def word_le_nat_alt unat_saturating_sub)
qed

theorem consensus_state_wf_witness:
  "cs_commit_index (commit_state (mark_committed (allocated (new_consensus 10 two_replicas))
     (after_allocation (new_consensus 10 two_replicas))) 0) \<le>
   cs_last_log_index (commit_state (mark_committed (allocated (new_consensus 10 two_replicas))
     (after_allocation (new_consensus 10 two_replicas))) 0)"
proof -
  let ?c = "new_consensus 10 two_replicas"
  have ok: "ensure_local_primary ?c (pc_shard_id sample_proposal) = Inr ()"
    "allocate_entry 5 sample_proposal ?c = (Inr (allocated ?c), after_allocation ?c)"
    "entry_index (allocated ?c) \<noteq> - 1" by code_simp+
  obtain slot c1 where r: "reserve_index sample_proposal ?c = (slot, c1)" by fastforce
  then have "stamp_entry 5 sample_proposal slot c1 = (allocated ?c, after_allocation ?c)"
    using ok(1,2) by (simp add: allocate_entry_def Let_def split: prod.splits)
  from consensus_step.stamp [OF this] consensus_step.reserve [OF ok(1) r]
  have "consensus_step\<^sup>*\<^sup>* ?c (after_allocation ?c)" by (simp add: converse_rtranclp_into_rtranclp r_into_rtranclp)
  moreover have "consensus_step (after_allocation ?c) (mark_committed (allocated ?c) (after_allocation ?c))"
    by (rule consensus_step.commit [OF ok(3)])
  ultimately show ?thesis
    using consensus_state_wf [OF _ r_into_rtranclp [of consensus_step]] by blast
qed

text \<open>
  C19. No index is given out twice. With any number of proposals in flight, in any interleaving of the critical
  sections of allocations, successes and failures, an index of a shard is held by at most one reservation, pending
  entry or committed entry; it comes back only after its proposal failed. An index below \<open>u64::MAX\<close> is left at
  every reservation.
\<close>

theorem proposed_indexes_unique:
  assumes "proposal_step\<^sup>*\<^sup>* (new_consensus srv table, {}, {}, {}) (c, R, P, C)"
    and "x \<in> Inl ` R \<union> Inr ` (P \<union> C)" and "y \<in> Inl ` R \<union> Inr ` (P \<union> C)" and "slot_of x = slot_of y"
  shows "x = y"
  using proposal_steps_unique [OF assms(1) new_consensus_unique] assms(2-4)
  by (auto simp: unique_below_def in_use_def [symmetric] dest: inj_onD)

lemma sample_allocation:
  "proposal_step\<^sup>*\<^sup>* (new_consensus 10 two_replicas, {}, {}, {})
     (after_allocation (new_consensus 10 two_replicas), {}, {allocated (new_consensus 10 two_replicas)}, {})"
  by (rule allocation_steps [of 5 sample_proposal]) code_simp+

theorem proposed_indexes_unique_witness:
  "entry_index (allocated (new_consensus 10 two_replicas)) = 1 \<and>
   (\<exists>c R P C. proposal_step\<^sup>*\<^sup>* (new_consensus 10 two_replicas, {}, {}, {}) (c, R, P, C) \<and>
     allocated (new_consensus 10 two_replicas) \<in> P \<and>
     (\<forall>y \<in> Inl ` R \<union> Inr ` (P \<union> C). slot_of y = (0, 1) \<longrightarrow> y = Inr (allocated (new_consensus 10 two_replicas))))"
proof -
  let ?c = "new_consensus 10 two_replicas"
  have e: "entry_index (allocated ?c) = 1" "slot_of (Inr (allocated ?c)) = (0, 1)" by code_simp+
  have "y = Inr (allocated ?c)" if "y \<in> Inl ` {} \<union> Inr ` ({allocated ?c} \<union> {})" "slot_of y = (0, 1)" for y
    by (rule proposed_indexes_unique [OF sample_allocation that(1)]) (simp_all add: that(2) e(2) del: slot_of.simps)
  with sample_allocation e(1) show ?thesis by blast
qed

text \<open>
  C39. A failed proposal can stop a shard for ever. When a proposal fails while a later index of the shard has been
  given out, its index is not taken back; from then on, however the primary goes on, no reservation, pending entry
  or committed entry ever has that index. A replica that had not received it never gets beyond it: whatever pending
  and committed entries it is sent, in whatever requests and order, it refuses every entry with a later index.
\<close>

theorem failed_proposal_leaves_gap:
  assumes "proposal_step\<^sup>*\<^sup>* (new_consensus srv table, {}, {}, {}) (c, R, P, C)" and "a \<in> P"
    and "saturating_add (entry_index a) 1 < ss_next_index (state_of c (entry_shard_id a))"
    and "ss_next_index (state_of r (entry_shard_id a)) \<le> entry_index a"
    and "replicated_step\<^sup>*\<^sup>* ((rollback_proposal a c, R, P - {a}, C), r) ((c', R', P', C'), r')"
  shows "(\<forall>x \<in> Inl ` R' \<union> Inr ` (P' \<union> C'). slot_of x \<noteq> (entry_shard_id a, entry_index a)) \<and>
    ss_next_index (state_of r' (entry_shard_id a)) \<le> entry_index a \<and>
    (\<forall>e \<in> P' \<union> C'. entry_shard_id e = entry_shard_id a \<longrightarrow> entry_index a < entry_index e \<longrightarrow>
       (\<exists>err. fst (append_entry e r') = Inl err))"
proof -
  let ?q = "(entry_shard_id a, entry_index a)"
  have "gap_at ?q (rollback_proposal a c) (in_use R (P - {a}) C)"
    using failed_leaves_gap [OF _ assms(2) _ assms(3)] proposal_steps_unique [OF assms(1) new_consensus_unique] by simp
  from replicated_steps_gap [OF assms(5) this] assms(4)
  have g: "gap_at ?q c' (in_use R' P' C')" "stopped_at ?q r'" by (simp_all add: stopped_at_def)
  have "\<exists>err. fst (append_entry e r') = Inl err"
    if "e \<in> P' \<union> C'" "entry_shard_id e = entry_shard_id a" "entry_index a < entry_index e" for e
    using append_entry_stopped(2) [OF g(2) gap_atD [OF g(1) that(1)]] that(2,3) by simp
  then show ?thesis using g by (simp add: gap_at_def stopped_at_def in_use_def)
qed

theorem failed_proposal_leaves_gap_witness:
  "\<exists>c c' r'. proposal_step\<^sup>*\<^sup>* (new_consensus 10 two_replicas, {}, {}, {})
       (c, {}, {allocated (after_allocation (new_consensus 10 two_replicas)), allocated (new_consensus 10 two_replicas)}, {}) \<and>
     replicated_step\<^sup>*\<^sup>* ((rollback_proposal (allocated (new_consensus 10 two_replicas)) c, {},
         {allocated (after_allocation (new_consensus 10 two_replicas))}, {}), new_consensus 11 two_replicas)
       ((c', {}, {}, {allocated (after_allocation (new_consensus 10 two_replicas))}), r') \<and>
     cs_commit_index (commit_state c' 0) = 2 \<and> ss_next_index (state_of r' 0) \<le> 1 \<and>
     (\<exists>err. fst (append_entry (allocated (after_allocation (new_consensus 10 two_replicas))) r') = Inl err)"
proof -
  let ?c = "new_consensus 10 two_replicas" and ?r = "new_consensus 11 two_replicas"
  let ?a = "allocated ?c" and ?c1 = "after_allocation ?c"
  let ?b = "allocated ?c1" and ?c2 = "after_allocation ?c1"
  let ?d = "mark_committed ?b (rollback_proposal ?a ?c2)"
  let ?s = "snd (consensus_append_entries [(6, ?b)] ?r)"
  have e: "entry_shard_id ?a = 0" "entry_index ?a = 1" "entry_shard_id ?b = 0" "entry_index ?b = 2"
    "saturating_add (entry_index ?a) 1 < ss_next_index (state_of ?c2 (entry_shard_id ?a))"
    "ss_next_index (state_of ?r (entry_shard_id ?a)) \<le> entry_index ?a" "cs_commit_index (commit_state ?d 0) = 2" by code_simp+
  have "proposal_step\<^sup>*\<^sup>* (?c1, {}, {?a}, {}) (?c2, {}, {?b, ?a}, {})" by (rule allocation_steps [of 5 sample_proposal]) code_simp+
  with sample_allocation have run: "proposal_step\<^sup>*\<^sup>* (?c, {}, {}, {}) (?c2, {}, {?b, ?a}, {})" by (rule rtranclp_trans)
  have ab: "{?b, ?a} - {?a} = {?b}" using e(2,4) by auto
  have "replicated_step ((rollback_proposal ?a ?c2, {}, {?b}, {}), ?r) ((?d, {}, {?b} - {?b}, {?b}), ?r)"
    by (intro replicated_step.on_primary proposal_step.published) simp
  moreover have "replicated_step ((?d, {}, {}, {?b}), ?r) ((?d, {}, {}, {?b}), ?s)"
    by (rule replicated_step.on_replica) simp
  ultimately have joint: "replicated_step\<^sup>*\<^sup>* ((rollback_proposal ?a ?c2, {}, {?b, ?a} - {?a}, {}), ?r) ((?d, {}, {}, {?b}), ?s)"
    unfolding ab by (simp add: converse_rtranclp_into_rtranclp r_into_rtranclp)
  from failed_proposal_leaves_gap [OF run _ e(5,6) joint]
  have "ss_next_index (state_of ?s 0) \<le> 1" "\<exists>err. fst (append_entry ?b ?s) = Inl err" using e(1-4) by simp_all
  with run joint [unfolded ab] e(7) show ?thesis by blast
qed

end
