(* ===== verification/Raft_Groups.thy ===== *)
theory Raft_Groups
  imports Raft_Votes Log_File Snapshot_Store Shard
begin

text \<open>
  The raft groups of a database (\<open>RaftShardConsensus\<close> in \<open>neo4r-db/src/database.rs\<close>): one server per shard, opened from
  the routing table, the replayed log, the snapshot and the commit index, and the time of the last word of a leader.
\<close>

record raft_shard_consensus =
  rg_groups :: "raft_core list"
  rg_leader_contacts :: "instant option list"

text \<open>A program of the storage crate inside the database crate, and the question mark.\<close>

definition db_io :: "'a io \<Rightarrow> fs \<Rightarrow> (database_error + 'a) \<times> fs" where
  "db_io m f = (from_storage (io_result m f), io_final m f)"

definition db_then :: "(database_error + 'a) \<times> fs \<Rightarrow> ('a \<Rightarrow> fs \<Rightarrow> (database_error + 'b) \<times> fs) \<Rightarrow> (database_error + 'b) \<times> fs" where
  "db_then r k = (case r of (Inl e, f) \<Rightarrow> (Inl e, f) | (Inr x, f) \<Rightarrow> k x f)"

definition group_store :: "path \<Rightarrow> shard_id \<Rightarrow> raft_state_store" where
  "group_store data_dir s =
     \<lparr>rs_path = join_path (join_path data_dir ''raft'') (''shard-'' @ show_u64 s @ ''.state'')\<rparr>"

definition snapshot_metadata :: "loaded_snapshot \<Rightarrow> raft_snapshot_metadata" where
  "snapshot_metadata s = \<lparr>sn_shard_id = ls_shard_id s, sn_last_included_term = ls_last_included_term s,
     sn_last_included_index = ls_last_included_index s\<rparr>"

text \<open>What \<open>open\<close> does with the group of a shard whose primary is this server.\<close>

definition lead_group :: "instant \<Rightarrow> raft_core \<Rightarrow> fs \<Rightarrow> (database_error + raft_core) \<times> fs" where
  "lead_group now c f =
     (if current_term c = 0
      then case start_election c f of
             (Inl e, _, f') \<Rightarrow> (Inl e, f')
           | (Inr _, c', f') \<Rightarrow> (Inr (become_leader now c'), f')
      else (Inr (become_leader now c), f))"

definition open_group ::
  "server_id \<Rightarrow> path \<Rightarrow> shard_routing_table \<Rightarrow> segmented_shard_log list \<Rightarrow> log_index list \<Rightarrow> instant \<Rightarrow> shard_id \<Rightarrow>
    fs \<Rightarrow> (database_error + raft_core) \<times> fs" where
  "open_group srv data_dir table logs commit_indexes now s f =
     (case placement table s of
        None \<Rightarrow> (Inl (Replication (''missing routing placement for raft shard '' @ show_u64 s)), f)
      | Some p \<Rightarrow>
          (case membership_new (map replica_server_id (placement_replicas p)) of
             Inl e \<Rightarrow> (Inl e, f)
           | Inr m \<Rightarrow>
               db_then (db_io (replay_from (logs ! unat s) 0) f) (\<lambda>log f.
               db_then (db_io (snapshot_open data_dir s) f) (\<lambda>st f.
               db_then (from_storage (snapshot_load st f), f) (\<lambda>snap f.
               let commit_index = (if unat s < length commit_indexes then commit_indexes ! unat s else 0)
               in db_then (open_with_log_and_snapshot srv s (group_store data_dir s) m log
                             (map_option snapshot_metadata snap) commit_index f, f) (\<lambda>c f.
                  if placement_primary_server_id p = Some srv then lead_group now c f else (Inr c, f)))))))"

fun open_groups_from ::
  "(shard_id \<Rightarrow> fs \<Rightarrow> (database_error + raft_core) \<times> fs) \<Rightarrow> shard_id list \<Rightarrow> fs \<Rightarrow> (database_error + raft_core list) \<times> fs" where
  "open_groups_from open_one [] f = (Inr [], f)"
| "open_groups_from open_one (s # ss) f =
     db_then (open_one s f) (\<lambda>c f. db_then (open_groups_from open_one ss f) (\<lambda>cs f. (Inr (c # cs), f)))"

definition open_groups ::
  "server_id \<Rightarrow> path \<Rightarrow> shard_routing_table \<Rightarrow> segmented_shard_log list \<Rightarrow> log_index list \<Rightarrow> instant \<Rightarrow>
    fs \<Rightarrow> (database_error + raft_shard_consensus) \<times> fs" where
  "open_groups srv data_dir table logs commit_indexes now f =
     db_then (open_groups_from (open_group srv data_dir table logs commit_indexes now) (map word_of_nat [0..<length logs]) f)
       (\<lambda>cs f. (Inr \<lparr>rg_groups = cs, rg_leader_contacts = replicate (length cs) None\<rparr>, f))"

definition record_leader_contact :: "instant \<Rightarrow> shard_id \<Rightarrow> raft_shard_consensus \<Rightarrow> database_error + raft_shard_consensus" where
  "record_leader_contact now s g =
     (if unat s < length (rg_leader_contacts g)
      then Inr (g\<lparr>rg_leader_contacts := (rg_leader_contacts g)[unat s := Some now]\<rparr>)
      else Inl (MissingShardLog s))"

definition should_start_election :: "instant \<Rightarrow> duration \<Rightarrow> shard_id \<Rightarrow> raft_shard_consensus \<Rightarrow> database_error + bool" where
  "should_start_election now timeout s g =
     (if length (rg_groups g) \<le> unat s then Inl (MissingShardLog s)
      else if rc_role (rg_groups g ! unat s) = Leader then Inr False
      else Inr (case (if unat s < length (rg_leader_contacts g) then rg_leader_contacts g ! unat s else None) of
                  None \<Rightarrow> True
                | Some contact \<Rightarrow> timeout \<le> now - contact))"

section \<open>A group that was opened\<close>

lemma become_leader_core:
  "rc_role (become_leader now c) = Leader" "rc_persistent (become_leader now c) = rc_persistent c"
  by (simp_all add: become_leader_def refresh_leader_lease_if_quorum_def)

lemma lead_group_again: "current_term c \<noteq> 0 \<Longrightarrow> lead_group now c f = (Inr (become_leader now c), f)"
  by (simp add: lead_group_def)

definition voting_table :: shard_routing_table where
  "voting_table = \<lparr>table_version = 1, table_placements =
     [\<lparr>placement_shard_id = 0, placement_replicas = [primary_replica 1, replica_replica 2, replica_replica 3]\<rparr>]\<rparr>"

definition empty_log :: segmented_shard_log where
  "empty_log = \<lparr>sl_shard_id = 0, sl_entries_per_segment = 4, sl_segments_dir = [''data'', ''shards'', ''0'', ''segments'']\<rparr>"

definition opened_fs :: fs where
  "opened_fs = \<lparr>fs_dirs = fset_of_list (prefixes [''data'', ''raft'']) |\<union>| fset_of_list (prefixes [''data'', ''shards'', ''0'', ''segments'']),
     fs_files = fmempty\<rparr>"

definition other_vote :: raft_persistent_state where
  "other_vote = \<lparr>rp_current_term = 2, rp_voted_for = Some 2\<rparr>"

definition voted_fs :: fs where
  "voted_fs = raft_saved (group_store [''data''] 0) other_vote opened_fs"

lemma group_store_path: "group_store [''data''] 0 = \<lparr>rs_path = [''data'', ''raft'', ''shard-0.state'']\<rparr>"
  by code_simp

lemma opened_ready: "raft_state_ready (group_store [''data''] 0) opened_fs"
proof -
  have "raft_temp_path [''data'', ''raft'', ''shard-0.state''] = [''data'', ''raft'', ''shard-0.tmp'']" by code_simp
  moreover have "\<not> dir_exists opened_fs [''data'', ''raft'', ''shard-0.state'']" "\<not> dir_exists opened_fs [''data'', ''raft'', ''shard-0.tmp'']"
    by code_simp+
  ultimately show ?thesis by (simp add: raft_state_ready_def group_store_path opened_fs_def)
qed

lemma voted_load: "raft_state_load (group_store [''data''] 0) voted_fs = Inr other_vote"
  unfolding voted_fs_def by (rule raft_saved_load [OF opened_ready])

lemma voted_reads:
  "db_io (replay_from empty_log 0) voted_fs = (Inr [], voted_fs)"
  "db_io (snapshot_open [''data''] 0) voted_fs = (Inr \<lparr>ss_shard_id = 0, ss_path = snapshot_path [''data''] 0\<rparr>, voted_fs)"
  "snapshot_load \<lparr>ss_shard_id = 0, ss_path = snapshot_path [''data''] 0\<rparr> voted_fs = Inr None"
  by code_simp+

lemma opened_other_vote:
  assumes m: "is_member m 1"
  shows "\<exists>c. open_with_log_and_snapshot 1 0 (group_store [''data''] 0) m [] None 0 voted_fs = Inr c \<and> rc_persistent c = other_vote"
  using m by (simp add: open_with_log_and_snapshot_def open_with_log_def open_with_membership_def voted_load Let_def)

text \<open>
  C40. The primary of the routing table leads without being elected. A server that has saved its vote for server 2
  in term 2, so that server 2 can be the leader of term 2, leads term 2 itself after a restart: \<open>open\<close> calls
  \<open>become_leader\<close> for every shard whose primary it is, whatever term and vote it loads.
\<close>

theorem restarted_primary_leads_again:
  "\<exists>f c f'. io_run (raft_state_save (group_store [''data''] 0) \<lparr>rp_current_term = 2, rp_voted_for = Some 2\<rparr>) opened_fs () f \<and>
     open_group 1 [''data''] voting_table [empty_log] [0] 0 0 f = (Inr c, f') \<and>
     rc_role c = Leader \<and> current_term c = 2 \<and> voted_for c = Some 2"
proof -
  have saved: "io_run (raft_state_save (group_store [''data''] 0) \<lparr>rp_current_term = 2, rp_voted_for = Some 2\<rparr>) opened_fs () voted_fs"
    unfolding voted_fs_def other_vote_def by (rule raft_state_save_run [OF opened_ready])
  have table: "placement voting_table 0 = Some \<lparr>placement_shard_id = 0, placement_replicas = [primary_replica 1, replica_replica 2, replica_replica 3]\<rparr>"
    "membership_new [replica_server_id (primary_replica 1), replica_server_id (replica_replica 2), replica_server_id (replica_replica 3)] = Inr three_servers"
    "placement_primary_server_id \<lparr>placement_shard_id = 0, placement_replicas = [primary_replica 1, replica_replica 2, replica_replica 3]\<rparr> = Some 1"
    "is_member three_servers 1" by code_simp+
  obtain c where c: "open_with_log_and_snapshot 1 0 (group_store [''data''] 0) three_servers [] None 0 voted_fs = Inr c"
    "rc_persistent c = other_vote" using opened_other_vote [OF table(4)] by blast
  have "current_term c \<noteq> 0" using c(2) by (simp add: current_term_def other_vote_def)
  then have "open_group 1 [''data''] voting_table [empty_log] [0] 0 0 voted_fs = (Inr (become_leader 0 c), voted_fs)"
    using c(1) by (simp add: open_group_def table voted_reads db_then_def from_storage_def lead_group_again)
  moreover have "rc_role (become_leader 0 c) = Leader" "current_term (become_leader 0 c) = 2" "voted_for (become_leader 0 c) = Some 2"
    using c(2) by (simp_all add: become_leader_core current_term_def voted_for_def other_vote_def)
  ultimately show ?thesis using saved by blast
qed

end
