(* ===== verification/Spec2Isabelle.thy ===== *)
theory Spec2Isabelle
  imports Clock Shard Store_Repair Snapshot_Store Membership_Store Segmented_Log Raft_Election Raft_Log Snapshot_Transfer Consensus Raft_Groups
begin

text \<open>
  \<^bold>\<open>neo4r\<close> is a sharded property-graph database. A graph is changed by commands; a command reaches a shard
  through a replicated log, is applied to the graph in memory and to the persistent graph, and the shard
  keeps small files from which it recovers. This development models the crate \<open>neo4r-core\<close> (the graph and
  its commands), the crate \<open>neo4r-storage\<close> (encodings, the persistent graph, logs, snapshots and the
  metadata files) and the consensus of the crate \<open>neo4r-db\<close> (raft, snapshot transfer, index allocation), and
  proves what the rest of the program relies on.

  \<^bold>\<open>Conventions.\<close> A Rust integer is a word of its width (\<open>u8\<close>, \<open>u32\<close>, \<open>u64\<close>, \<open>i64\<close>); a float is its bit
  pattern, compared as the code compares it; a \<open>String\<close> is the list of its UTF-8 bytes as characters, with
  \<open>valid_string\<close> for the UTF-8 check; a \<open>HashMap\<close> or \<open>BTreeMap\<close> is an \<open>fmap\<close> and a set an \<open>fset\<close>. A loop over
  a hash map visits it in key order (\<open>hm_iter\<close>). \<open>Result\<close> is a sum with the error on the left and \<open>rbind\<close> for
  the question mark; a panic is \<open>Panic\<close> in \<open>'e fault\<close>. Code that changes files is a program in the monad
  \<open>'a io\<close> of \<open>Files\<close>, which records every state of the file system on the way: those are the points at which
  a crash may strike, and \<open>survives\<close> says which unsynced bytes may be lost.

  \<^bold>\<open>Parts and theories.\<close>
  \<^item> \<open>Prelude\<close>: machine integers, results, loops, maps and posting lists shared by the other theories.
  \<^item> \<open>Core_Model\<close> (\<open>model.rs\<close>, \<open>command.rs\<close>, \<open>error.rs\<close>): values, nodes, relationships, commands, log entries.
  \<^item> \<open>Clock\<close> (\<open>clock.rs\<close>): the hybrid logical clock; it never goes back, and repeats a timestamp only at a
    saturated logical counter.
  \<^item> \<open>Shard\<close> (\<open>shard.rs\<close>): ownership, placements and the difference of two routing tables.
  \<^item> \<open>Graph\<close>, \<open>Posting_Index\<close>, \<open>Graph_Inv\<close>, \<open>Graph_Spec\<close>, \<open>Graph_Read\<close> (\<open>graph.rs\<close>, \<open>read.rs\<close>): the graph state with its
    indexes, the representation invariant \<open>graph_inv\<close> kept by every command, the abstract property graph
    \<open>agraph\<close> and the refinement of every command to \<open>spec_apply\<close>, and the read interface as the locale
    \<open>graph_read\<close>.
  \<^item> \<open>Bytes\<close>, \<open>Decimal\<close>, \<open>Codec\<close> (\<open>codec.rs\<close>): big-endian bytes, decimal numbers, the bounds-checked reader and the
    encodings of commands and log entries; \<open>reads f bs v\<close> is the compositional round-trip statement.
  \<^item> \<open>Kv\<close>, \<open>Store_Keys\<close>, \<open>Graph_Store\<close>, \<open>Store_Refine\<close>, \<open>Store_Read\<close>, \<open>Store_Batch\<close>, \<open>Store_Repair\<close> (\<open>kv.rs\<close>,
    \<open>graph_store.rs\<close>): the key-value interface and its in-memory implementation, the key layout with its
    injectivity, the persistent graph, its refinement \<open>store_rel\<close> of the same abstract graph, write batches,
    and index verification and repair. Batches and repair treat relationships created towards boundary nodes
    differently from the graph in memory; two theorems of \<open>Store_Repair\<close> say how, for every store.
  \<^item> \<open>Files\<close>: paths, files with unsynced data, the program monad, crashes, the replacement of a file through a
    temporary file, and the contract \<open>file_store\<close> (round trip, failed save, crash atomicity) that every store
    of one file interprets.
  \<^item> \<open>Meta_Stores\<close> (\<open>commit.rs\<close>, \<open>checkpoint.rs\<close>, \<open>cluster.rs\<close>, \<open>catalog.rs\<close>), \<open>Snapshot_Store\<close> (\<open>snapshot.rs\<close>), \<open>Text\<close>,
    \<open>Transaction_Store\<close> (\<open>transaction.rs\<close>), \<open>Membership_Store\<close> (\<open>membership.rs\<close>): the stores of one file each.
  \<^item> \<open>Log_File\<close>, \<open>Segmented_Log\<close> (\<open>log.rs\<close>): the framed log file, the shard log and the segmented log, which
    refines the list of its entries.

  \<^item> \<open>Db_Error\<close> (\<open>neo4r-db/src/error.rs\<close>): the errors of the database crate.
  \<^item> \<open>Raft_Membership\<close> (\<open>raft/membership.rs\<close>): voters, learners, joint consensus; the locale \<open>quorum_overlap\<close> and the
    overlap of the quorums before and after every change.
  \<^item> \<open>Raft_Persistent\<close> (\<open>raft/persistent.rs\<close>): the file of term and vote; round trip, and its loss in a power failure.
  \<^item> \<open>Raft_Core\<close> (\<open>raft.rs\<close>): every operation of \<open>RaftCore\<close> as a handler that returns its result, the new server and the
    new disk, also on an error. \<open>Raft_Votes\<close>: the contract \<open>vote_handler\<close> of the handlers (one vote per term, the
    vote on disk). \<open>Raft_Election\<close>: a group of servers with messages lost, repeated and reordered; one leader per
    term. \<open>Raft_Log\<close>: the contract \<open>log_handler\<close> (contiguous log, committed entries kept), the correctness of
    \<open>append_entries\<close>, and the commit rule.
  \<^item> \<open>Snapshot_Transfer\<close> (\<open>raft.rs\<close>, \<open>raft/snapshot_chunks.rs\<close>, \<open>replication/tcp_requests.rs\<close>,
    \<open>replication/tcp_snapshot_fetch.rs\<close>): cutting, serving, fetching and assembling a snapshot.
  \<^item> \<open>Consensus\<close> (\<open>consensus.rs\<close>): the critical sections of the static primary, one step per lock, and their
    interleavings; indexes are unique, and the index of a proposal that failed too late is never used again.
  \<^item> \<open>Raft_Groups\<close> (\<open>RaftShardConsensus\<close> in \<open>database.rs\<close>): opening the group of every shard from the log, the snapshot,
    the commit index and the vote.

  \<^bold>\<open>Scope of the raft results.\<close> One leader per term is proved for servers that become leaders through the handlers of
  \<open>RaftCore\<close> and whose vote file survives. The code around them weakens both: \<open>RaftShardConsensus::open\<close> makes the
  routing primary a leader without an election (\<open>restarted_primary_leads_again\<close>), and the vote file is not synced
  (\<open>saved_vote_changes_after_crash\<close>). That committed entries stay is proved for one server; agreement between
  servers is not, and \<open>append_commits_unverified_entry\<close> shows the requests that break it. The results on the log are
  about runs of events that satisfy \<open>run_expected\<close>, a hypothesis of the theorems: entries of a request are numbered
  consecutively, a compaction does not go back behind the snapshot (\<open>older_compaction_leaves_gap\<close> shows what happens
  otherwise), and an index below \<open>u64::MAX\<close> is left for local entries. The elections assume that a term below
  \<open>u64::MAX\<close> is left, and the interleavings of \<open>Consensus\<close> that an index below \<open>u64::MAX\<close> is.

  \<^bold>\<open>Bounds and fuel.\<close> The decoder of nested values takes the number of remaining bytes as fuel, which is
  enough because every value has at least one byte (\<open>read_value_fuel_enough\<close>). Two loops of the snapshot
  transfer need not end and are partial functions, with \<open>None\<close> for a call that never returns; \<open>push_chunk_returns\<close>
  and \<open>snapshot_fetch_returns\<close> say when they do. Every other loop is structural or has a termination proof. Round trips assume what the length fields of the formats can hold
  (\<open>fits_u32\<close>, \<open>wf_command\<close>, files below \<open>2 ^ 64\<close> bytes).

  \<^bold>\<open>Not modelled.\<close> RocksDB (\<open>rocks.rs\<close>) is a library the sources call; the persistent graph is modelled over the
  in-memory implementation of the same trait. Allocation failure is not modelled: \<open>Vec::with_capacity\<close> with an
  unchecked count from a file (\<open>cluster.rs\<close>, \<open>catalog.rs\<close>) can abort the process where the model goes on to
  report a truncated file. Names in the file system are durable at once and in order: a sync of a directory has no
  effect, and its omission would not show. A lock is never poisoned, because no modelled section panics while it holds one. Of
  \<open>neo4r-db\<close>, the operations on the whole database record (\<open>db_raft_apply.rs\<close>, \<open>db_open_write.rs\<close>,
  \<open>db_write_schema.rs\<close>, maintenance, rebalancing), the parser of write queries, the vector indexes and the
  transports are not modelled: they act on RocksDB partitions, threads, sockets and floating-point vectors.
  \<open>neo4r-query\<close> (the query language), \<open>neo4r-protocol\<close>, \<open>neo4r-server\<close> and \<open>neo4r-client\<close> are not modelled
  either; they reach the graph through the commands and the read interface modelled here.
\<close>

end
